(* ===== verification/Go_Prelude.thy ===== *)
theory Go_Prelude
  imports Main "HOL-Library.AList" "HOL-Library.Word" "HOL-Library.Multiset"
begin

text \<open>
  The fragment of Go that the components of opencode-scale share, and the generic lemmas about it.

  \<^item> Machine integers.  Go's \<^verbatim>\<open>int\<close>, \<^verbatim>\<open>int64\<close> and \<^verbatim>\<open>time.Duration\<close> are 64-bit two's complement.  They
    are HOL integers; \<open>wrap64\<close> is written around every operation of the source that can leave the
    range.  A \<^verbatim>\<open>time.Time\<close> is an integer number of nanoseconds.
  \<^item> Strings are byte strings, as in Go.  The functions of \<^verbatim>\<open>strings\<close> and \<^verbatim>\<open>strconv\<close> that the code
    calls are defined here.
  \<^item> Maps are association lists with distinct keys.  A \<^verbatim>\<open>range\<close> loop visits the entries in an order
    the language leaves open: each function that ranges over a map takes that order as an argument
    \<open>ord\<close>, of which only \<open>range_order ord\<close> is known.
  \<^item> Errors are values of \<open>go_error\<close>: a package-level sentinel, a formatted error, or an error wrapped
    with \<^verbatim>\<open>%w\<close>.
\<close>

named_theorems go_simps \<open>unfolding rules of the Go library functions\<close>
named_theorems inv_defs \<open>definitions of the component invariants\<close>

section \<open>Definitions\<close>

subsection \<open>Machine integers\<close>

definition in_int64 :: "int \<Rightarrow> bool" where
  "in_int64 x \<longleftrightarrow> - 9223372036854775808 \<le> x \<and> x < 9223372036854775808"

definition wrap64 :: "int \<Rightarrow> int" where
  "wrap64 x = (x + 9223372036854775808) mod 18446744073709551616 - 9223372036854775808"

text \<open>Go's integer division truncates towards zero.\<close>

definition go_div :: "int \<Rightarrow> int \<Rightarrow> int" where
  "go_div a b = sgn a * sgn b * (\<bar>a\<bar> div \<bar>b\<bar>)"

text \<open>\<^verbatim>\<open>Time.Sub\<close> and \<^verbatim>\<open>time.Since\<close> saturate.\<close>

definition time_sub :: "int \<Rightarrow> int \<Rightarrow> int" where
  "time_sub t u = max (- 9223372036854775808) (min 9223372036854775807 (t - u))"

text \<open>Durations: nanoseconds.\<close>

definition Millisecond :: int where "Millisecond = 1000000"
definition Second :: int where "Second = 1000000000"
definition Minute :: int where "Minute = 60000000000"
definition Hour :: int where "Hour = 3600000000000"

subsection \<open>Decimal printing and strconv.Atoi\<close>

definition digit_char :: "nat \<Rightarrow> char" where
  "digit_char n = char_of (48 + n)"

definition digit_val :: "char \<Rightarrow> nat option" where
  "digit_val c = (let d = of_char c in if 48 \<le> d \<and> d \<le> 57 then Some (d - 48) else None)"

fun digits_of_nat :: "nat \<Rightarrow> string" where
  "digits_of_nat n =
     (if n < 10 then [digit_char n] else digits_of_nat (n div 10) @ [digit_char (n mod 10)])"

definition itoa :: "int \<Rightarrow> string" where
  "itoa i = (if i < 0 then CHR ''-'' # digits_of_nat (nat (- i)) else digits_of_nat (nat i))"

fun parse_digits :: "nat \<Rightarrow> string \<Rightarrow> nat option" where
  "parse_digits acc [] = Some acc"
| "parse_digits acc (c # cs) =
     (case digit_val c of None \<Rightarrow> None | Some d \<Rightarrow> parse_digits (acc * 10 + d) cs)"

definition parse_uint :: "string \<Rightarrow> nat option" where
  "parse_uint s = (if s = [] then None else parse_digits 0 s)"

definition split_sign :: "string \<Rightarrow> bool \<times> string" where
  "split_sign s =
     (case s of [] \<Rightarrow> (False, [])
      | c # cs \<Rightarrow> if c = CHR ''-'' then (True, cs) else if c = CHR ''+'' then (False, cs) else (False, s))"

text \<open>\<open>atoi\<close> is \<^verbatim>\<open>strconv.Atoi\<close>, and \<^verbatim>\<open>strconv.ParseInt(s, 10, 64)\<close>: an optional sign, at least one digit,
  and a value in the 64-bit range; every other input is an error.\<close>

definition atoi :: "string \<Rightarrow> int option" where
  "atoi s =
     (case split_sign s of (neg, ds) \<Rightarrow>
       (case parse_uint ds of None \<Rightarrow> None
        | Some n \<Rightarrow> (let v = (if neg then - int n else int n) in if in_int64 v then Some v else None)))"

subsection \<open>Package strings\<close>

definition HasPrefix :: "string \<Rightarrow> string \<Rightarrow> bool" where
  "HasPrefix s p \<longleftrightarrow> take (length p) s = p"

definition TrimPrefix :: "string \<Rightarrow> string \<Rightarrow> string" where
  "TrimPrefix s p = (if HasPrefix s p then drop (length p) s else s)"

fun Contains :: "string \<Rightarrow> string \<Rightarrow> bool" where
  "Contains [] p = (p = [])"
| "Contains (c # cs) p = (HasPrefix (c # cs) p \<or> Contains cs p)"

text \<open>\<^verbatim>\<open>TrimRight\<close> and \<^verbatim>\<open>Trim\<close> with a cutset of one character, and \<^verbatim>\<open>Split\<close> with a separator of one
  character, which is how the code calls them.\<close>

definition TrimLeftChar :: "char \<Rightarrow> string \<Rightarrow> string" where
  "TrimLeftChar c s = dropWhile (\<lambda>x. x = c) s"

definition TrimRightChar :: "char \<Rightarrow> string \<Rightarrow> string" where
  "TrimRightChar c s = rev (dropWhile (\<lambda>x. x = c) (rev s))"

definition TrimChar :: "char \<Rightarrow> string \<Rightarrow> string" where
  "TrimChar c s = TrimRightChar c (TrimLeftChar c s)"

fun SplitChar :: "char \<Rightarrow> string \<Rightarrow> string list" where
  "SplitChar sep [] = [[]]"
| "SplitChar sep (c # cs) =
     (if c = sep then [] # SplitChar sep cs
      else (case SplitChar sep cs of [] \<Rightarrow> [[c]] | p # ps \<Rightarrow> (c # p) # ps))"

fun IndexByte :: "string \<Rightarrow> char \<Rightarrow> nat option" where
  "IndexByte [] b = None"
| "IndexByte (c # cs) b = (if c = b then Some 0 else map_option Suc (IndexByte cs b))"

subsection \<open>Maps and their iteration order\<close>

type_synonym ('k, 'v) gomap = "('k \<times> 'v) list"

definition gomap_ok :: "('k, 'v) gomap \<Rightarrow> bool" where
  "gomap_ok m \<longleftrightarrow> distinct (map fst m)"

definition range_order :: "('a list \<Rightarrow> 'a list) \<Rightarrow> bool" where
  "range_order ord \<longleftrightarrow> (\<forall>xs. mset (ord xs) = mset xs)"

subsection \<open>Errors\<close>

datatype go_error =
    Sentinel string          \<comment> \<open>a package-level \<^verbatim>\<open>errors.New\<close> value, compared by identity\<close>
  | Errorf string            \<comment> \<open>a fresh \<^verbatim>\<open>errors.New\<close> or \<^verbatim>\<open>fmt.Errorf\<close> error\<close>
  | Wrapf string go_error    \<comment> \<open>\<^verbatim>\<open>fmt.Errorf\<close> with a text and then \<^verbatim>\<open>%w\<close>\<close>

fun err_text :: "go_error \<Rightarrow> string" where
  "err_text (Sentinel m) = m"
| "err_text (Errorf m) = m"
| "err_text (Wrapf m e) = m @ err_text e"

fun errors_Is :: "go_error \<Rightarrow> go_error \<Rightarrow> bool" where
  "errors_Is (Wrapf m e) t = (Wrapf m e = t \<or> errors_Is e t)"
| "errors_Is e t = (e = t)"

section \<open>Lemmas\<close>

subsection \<open>Machine integers\<close>

lemma in_int64_wrap64 [simp]: "in_int64 (wrap64 x)"
  by (simp add: in_int64_def wrap64_def)

lemma wrap64_id [simp]: "in_int64 x \<Longrightarrow> wrap64 x = x"
  by (simp add: in_int64_def wrap64_def)

lemma wrap64_idem [simp]: "wrap64 (wrap64 x) = wrap64 x"
  by simp

lemma wrap64_add_left: "wrap64 (wrap64 x + y) = wrap64 (x + y)"
proof -
  have "((x + 9223372036854775808) mod 18446744073709551616 + y) mod 18446744073709551616
      = ((x + 9223372036854775808) + y) mod (18446744073709551616 :: int)"
    by (rule mod_add_left_eq)
  then show ?thesis
    by (simp add: wrap64_def algebra_simps)
qed

text \<open>\<open>wrap64\<close> is the value of a 64-bit word read as a signed number.\<close>

lemma wrap64_word: "wrap64 x = sint (word_of_int x :: 64 word)"
  by (simp add: wrap64_def int_word_sint)

lemma go_div_nonneg: "0 \<le> a \<Longrightarrow> 0 < b \<Longrightarrow> go_div a b = a div b"
  by (cases "a = 0") (simp_all add: go_div_def)

lemmas durations = Millisecond_def Second_def Minute_def Hour_def

subsection \<open>Decimals\<close>

declare digits_of_nat.simps [simp del]

lemma digit_val_char [simp]: "n < 10 \<Longrightarrow> digit_val (digit_char n) = Some n"
  by (simp add: digit_val_def digit_char_def Let_def)

lemma digits_of_nat_nonempty [simp]: "digits_of_nat n \<noteq> []"
  by (subst digits_of_nat.simps) simp

lemma parse_digits_append:
  "parse_digits acc (xs @ ys) =
     (case parse_digits acc xs of None \<Rightarrow> None | Some v \<Rightarrow> parse_digits v ys)"
  by (induction xs arbitrary: acc) (simp_all split: option.split)

lemma parse_digits_of_nat: "parse_digits 0 (digits_of_nat n) = Some n"
proof (induction n rule: digits_of_nat.induct)
  case (1 n)
  show ?case
  proof (cases "n < 10")
    case True
    then show ?thesis by (simp add: digits_of_nat.simps [of n])
  next
    case False
    with "1.IH" show ?thesis
      by (simp add: digits_of_nat.simps [of n] parse_digits_append)
  qed
qed

lemma digits_of_nat_are_digits: "c \<in> set (digits_of_nat n) \<Longrightarrow> digit_val c \<noteq> None"
proof (induction n rule: digits_of_nat.induct)
  case (1 n)
  then show ?case
    by (cases "n < 10") (auto simp: digits_of_nat.simps [of n])
qed

lemma digits_of_nat_hd:
  "digits_of_nat n = c # cs \<Longrightarrow> c \<noteq> CHR ''-'' \<and> c \<noteq> CHR ''+''"
  using digits_of_nat_are_digits [of c n] by (auto simp: digit_val_def)

lemma split_sign_digits: "split_sign (digits_of_nat n) = (False, digits_of_nat n)"
  using digits_of_nat_hd [of n] by (cases "digits_of_nat n") (auto simp: split_sign_def)

lemma atoi_itoa: "in_int64 i \<Longrightarrow> atoi (itoa i) = Some i"
  by (auto simp: atoi_def itoa_def split_sign_digits parse_uint_def parse_digits_of_nat Let_def)
     (simp_all add: split_sign_def parse_uint_def parse_digits_of_nat)

lemma atoi_range: "atoi s = Some v \<Longrightarrow> in_int64 v"
  by (auto simp: atoi_def Let_def split: prod.splits option.splits if_splits)

lemma atoi_empty [simp]: "atoi [] = None"
  by (simp add: atoi_def split_sign_def parse_uint_def)

lemma digits_of_nat_inject: "digits_of_nat m = digits_of_nat n \<longleftrightarrow> m = n"
  by (metis option.inject parse_digits_of_nat)

lemma itoa_inject: "itoa i = itoa j \<longleftrightarrow> i = j"
proof
  assume eq: "itoa i = itoa j"
  have "split_sign (itoa i) = (i < 0, digits_of_nat (nat \<bar>i\<bar>))" for i
    by (simp add: itoa_def split_sign_digits) (simp add: split_sign_def)
  with eq have "(i < 0, digits_of_nat (nat \<bar>i\<bar>)) = (j < 0, digits_of_nat (nat \<bar>j\<bar>))" by metis
  then show "i = j" by (auto simp: digits_of_nat_inject)
qed simp

subsection \<open>Strings\<close>

lemma HasPrefix_append [simp]: "HasPrefix (p @ s) p"
  by (simp add: HasPrefix_def)

lemma HasPrefixE: "HasPrefix s p \<Longrightarrow> \<exists>t. s = p @ t"
  by (metis HasPrefix_def append_take_drop_id)

lemma TrimPrefix_append [simp]: "TrimPrefix (p @ s) p = s"
  by (simp add: TrimPrefix_def)

lemma SplitChar_nonempty [simp]: "SplitChar sep s \<noteq> []"
  by (induction s) (auto split: list.split)

lemma SplitChar_no_sep: "sep \<notin> set s \<Longrightarrow> SplitChar sep s = [s]"
  by (induction s) auto

lemma SplitChar_append:
  "sep \<notin> set s \<Longrightarrow> SplitChar sep (s @ sep # t) = s # SplitChar sep t"
  by (induction s) (auto split: list.split)

lemma IndexByte_None: "IndexByte s b = None \<longleftrightarrow> b \<notin> set s"
  by (induction s) auto

lemma IndexByte_Some:
  "IndexByte s b = Some i \<longleftrightarrow> i < length s \<and> s ! i = b \<and> b \<notin> set (take i s)"
proof (induction s arbitrary: i)
  case (Cons c cs)
  then show ?case by (cases i) auto
qed simp

lemma IndexByte_append: "b \<notin> set pre \<Longrightarrow> IndexByte (pre @ b # post) b = Some (length pre)"
  by (induction pre) auto

subsection \<open>Maps\<close>

lemma option_eqI: "(\<And>y. a = Some y \<longleftrightarrow> b = Some y) \<Longrightarrow> a = b"
  by (cases a; cases b) auto

lemma gomap_ok_empty [simp]: "gomap_ok []"
  by (simp add: gomap_ok_def)

lemma gomap_ok_update [simp]: "gomap_ok m \<Longrightarrow> gomap_ok (AList.update k v m)"
  by (simp add: gomap_ok_def distinct_update)

lemma gomap_ok_delete [simp]: "gomap_ok m \<Longrightarrow> gomap_ok (AList.delete k m)"
  by (simp add: gomap_ok_def distinct_delete)

lemma gomap_mem_iff: "gomap_ok m \<Longrightarrow> (k, v) \<in> set m \<longleftrightarrow> map_of m k = Some v"
  by (auto simp: gomap_ok_def dest: map_of_SomeD)

lemma gomap_delete_absent: "map_of m k = None \<Longrightarrow> AList.delete k m = m"
  by (simp add: delete_id map_of_eq_None_iff)

lemma gomap_update_absent: "map_of m k = None \<Longrightarrow> AList.update k v m = m @ [(k, v)]"
  by (induction m) (auto split: if_splits)

lemma gomap_length_update:
  "length (AList.update k v m) = (if map_of m k = None then Suc (length m) else length m)"
  by (induction m) (auto simp: map_of_eq_None_iff)

lemma gomap_length_delete:
  "gomap_ok m \<Longrightarrow>
     length (AList.delete k m) = (if map_of m k = None then length m else length m - 1)"
proof (induction m)
  case (Cons x m)
  then have "gomap_ok m" and "fst x = k \<Longrightarrow> map_of m k = None"
    by (auto simp: gomap_ok_def map_of_eq_None_iff)
  with Cons.IH show ?case
    by (cases m) (auto simp: gomap_delete_absent split: if_splits)
qed simp

lemma range_order_set: "range_order ord \<Longrightarrow> set (ord xs) = set xs"
  unfolding range_order_def by (metis set_mset_mset)

lemma range_order_length: "range_order ord \<Longrightarrow> length (ord xs) = length xs"
  unfolding range_order_def by (metis size_mset)

lemma range_order_distinct:
  "range_order ord \<Longrightarrow> distinct (map f xs) \<Longrightarrow> distinct (map f (ord xs))"
  unfolding range_order_def by (metis mset_eq_imp_distinct_iff mset_map)

lemma range_order_filter_length:
  "range_order ord \<Longrightarrow> length (filter P (map f (ord xs))) = length (filter P (map f xs))"
  unfolding range_order_def by (metis mset_filter mset_map size_mset)

lemma range_order_id [simp]: "range_order (\<lambda>xs. xs)"
  by (simp add: range_order_def)

subsection \<open>Errors\<close>

lemma errors_Is_refl [simp]: "errors_Is e e"
  by (cases e) auto

end
