(* ===== verification/Allocation_Cache.thy ===== *)
theory Allocation_Cache
  imports Go_Prelude
begin

text \<open>
  The allocation cache, \<^verbatim>\<open>internal/pool/cache.go\<close>, with the types \<^verbatim>\<open>Allocation\<close> and
  \<^verbatim>\<open>AllocationStatus\<close> of \<^verbatim>\<open>internal/pool/manager.go\<close>.

  The cache stores pointers: the same \<^verbatim>\<open>Allocation\<close> object is reachable through the name index, the
  session index and the variables of the pool manager, and its fields are assigned in place while
  it is indexed.  The model therefore has an explicit store of objects (\<open>cells\<close>), the indexes hold
  addresses, and every operation that reads a field through a pointer takes the store.  The cache's
  own mutex makes each operation here atomic.
\<close>

section \<open>Definitions\<close>

datatype AllocationStatus = StatusIdle | StatusActive | StatusReleasing

record Allocation =
  SandboxName :: string
  ServiceFQDN :: string
  SessionID :: string
  UserID :: string
  AllocatedAt :: int
  LastActivity :: int
  Status :: AllocationStatus

type_synonym addr = nat
type_synonym heap = "addr \<Rightarrow> Allocation"

record AllocationCache =
  byName :: "(string, addr) gomap"
  bySession :: "(string, addr) gomap"

definition NewAllocationCache :: AllocationCache where
  "NewAllocationCache = \<lparr>byName = [], bySession = []\<rparr>"

definition Cache_Get :: "AllocationCache \<Rightarrow> string \<Rightarrow> addr option" where
  "Cache_Get c sandboxName = map_of (byName c) sandboxName"

definition Cache_GetBySession :: "AllocationCache \<Rightarrow> string \<Rightarrow> addr option" where
  "Cache_GetBySession c sessionID = map_of (bySession c) sessionID"

definition Cache_Set :: "heap \<Rightarrow> addr \<Rightarrow> AllocationCache \<Rightarrow> AllocationCache" where
  "Cache_Set h alloc c =
     (let c1 = c\<lparr>byName := AList.update (SandboxName (h alloc)) alloc (byName c)\<rparr>
      in if SessionID (h alloc) \<noteq> []
         then c1\<lparr>bySession := AList.update (SessionID (h alloc)) alloc (bySession c1)\<rparr>
         else c1)"

definition Cache_Delete :: "heap \<Rightarrow> string \<Rightarrow> AllocationCache \<Rightarrow> AllocationCache" where
  "Cache_Delete h sandboxName c =
     (case map_of (byName c) sandboxName of
        None \<Rightarrow> c
      | Some a \<Rightarrow>
          (let c1 = (if SessionID (h a) \<noteq> []
                     then c\<lparr>bySession := AList.delete (SessionID (h a)) (bySession c)\<rparr> else c)
           in c1\<lparr>byName := AList.delete sandboxName (byName c1)\<rparr>))"

definition Cache_List ::
  "((string \<times> addr) list \<Rightarrow> (string \<times> addr) list) \<Rightarrow> AllocationCache \<Rightarrow> addr list" where
  "Cache_List ord c = map snd (ord (byName c))"

definition Cache_ListByStatus ::
  "((string \<times> addr) list \<Rightarrow> (string \<times> addr) list) \<Rightarrow> heap \<Rightarrow> AllocationStatus \<Rightarrow>
   AllocationCache \<Rightarrow> addr list" where
  "Cache_ListByStatus ord h status c =
     filter (\<lambda>a. Status (h a) = status) (map snd (ord (byName c)))"

definition Cache_Len :: "AllocationCache \<Rightarrow> int" where
  "Cache_Len c = int (length (byName c))"

text \<open>
  The objects and the cache together: what the pool manager and the router share.  \<open>store_new\<close> is the
  code's \<^verbatim>\<open>alloc := &Allocation{...}; cache.Set(alloc)\<close>, \<open>store_write\<close> an assignment through a pointer.
\<close>

record SharedCache =
  cells :: heap
  next_cell :: addr
  index :: AllocationCache

definition zero_alloc :: Allocation where
  "zero_alloc = \<lparr>SandboxName = [], ServiceFQDN = [], SessionID = [], UserID = [],
                 AllocatedAt = 0, LastActivity = 0, Status = StatusIdle\<rparr>"

definition empty_store :: SharedCache where
  "empty_store = \<lparr>cells = (\<lambda>_. zero_alloc), next_cell = 0, index = NewAllocationCache\<rparr>"

definition store_new :: "Allocation \<Rightarrow> SharedCache \<Rightarrow> SharedCache" where
  "store_new x S =
     (let h = (cells S)(next_cell S := x)
      in S\<lparr>cells := h, next_cell := Suc (next_cell S), index := Cache_Set h (next_cell S) (index S)\<rparr>)"

definition store_write :: "addr \<Rightarrow> (Allocation \<Rightarrow> Allocation) \<Rightarrow> SharedCache \<Rightarrow> SharedCache" where
  "store_write a f S = S\<lparr>cells := (cells S)(a := f (cells S a))\<rparr>"

definition store_set :: "addr \<Rightarrow> SharedCache \<Rightarrow> SharedCache" where
  "store_set a S = S\<lparr>index := Cache_Set (cells S) a (index S)\<rparr>"

definition store_delete :: "string \<Rightarrow> SharedCache \<Rightarrow> SharedCache" where
  "store_delete n S = S\<lparr>index := Cache_Delete (cells S) n (index S)\<rparr>"

definition store_len :: "SharedCache \<Rightarrow> int" where
  "store_len S = Cache_Len (index S)"

text \<open>The abstract view of a store: allocations by sandbox name, and by session.\<close>

definition registry :: "SharedCache \<Rightarrow> string \<Rightarrow> Allocation option" where
  "registry S n = map_option (cells S) (Cache_Get (index S) n)"

definition session_view :: "SharedCache \<Rightarrow> string \<Rightarrow> Allocation option" where
  "session_view S s = map_option (cells S) (Cache_GetBySession (index S) s)"

text \<open>
  The invariant: an object indexed under a name has that name, and the session index is exactly the
  index by session of the objects the name index holds that have a session.
\<close>

definition cache_ok :: "heap \<Rightarrow> AllocationCache \<Rightarrow> bool" where
  "cache_ok h c \<longleftrightarrow>
     gomap_ok (byName c) \<and> gomap_ok (bySession c) \<and>
     (\<forall>n a. Cache_Get c n = Some a \<longrightarrow> SandboxName (h a) = n) \<and>
     (\<forall>s a. Cache_GetBySession c s = Some a \<longleftrightarrow>
        s \<noteq> [] \<and> SessionID (h a) = s \<and> Cache_Get c (SandboxName (h a)) = Some a)"

definition store_ok :: "SharedCache \<Rightarrow> bool" where
  "store_ok S \<longleftrightarrow>
     cache_ok (cells S) (index S) \<and> (\<forall>n a. Cache_Get (index S) n = Some a \<longrightarrow> a < next_cell S)"

section \<open>The interface: an index of allocations by name and by session\<close>

text \<open>What the clients of the cache (pool manager, router, workflow) rely on.\<close>

locale session_index =
  fixes by_name :: "'c \<Rightarrow> string \<Rightarrow> Allocation option"
    and by_session :: "'c \<Rightarrow> string \<Rightarrow> Allocation option"
    and invar :: "'c \<Rightarrow> bool"
  assumes by_name_name: "invar c \<Longrightarrow> by_name c n = Some x \<Longrightarrow> SandboxName x = n"
    and by_session_iff: "invar c \<Longrightarrow> by_session c s = Some x \<longleftrightarrow>
          s \<noteq> [] \<and> SessionID x = s \<and> by_name c (SandboxName x) = Some x"
begin

lemma session_unique:
  assumes "invar c" and "by_name c m = Some x" and "by_name c n = Some y"
    and "SessionID x = SessionID y" and "SessionID x \<noteq> []"
  shows "m = n"
proof -
  have m: "SandboxName x = m" and n: "SandboxName y = n"
    using assms by_name_name by blast+
  have "by_session c (SessionID x) = Some x" and "by_session c (SessionID x) = Some y"
    using assms m n by (auto simp: by_session_iff)
  with m n show ?thesis by simp
qed

lemma by_session_None_iff:
  assumes "invar c"
  shows "by_session c s = None \<longleftrightarrow> s = [] \<or> (\<forall>n x. by_name c n = Some x \<longrightarrow> SessionID x \<noteq> s)"
proof
  assume none: "by_session c s = None"
  show "s = [] \<or> (\<forall>n x. by_name c n = Some x \<longrightarrow> SessionID x \<noteq> s)"
  proof (rule ccontr)
    assume "\<not> ?thesis"
    then obtain n x where "s \<noteq> []" and "by_name c n = Some x" and "SessionID x = s" by auto
    with assms have "by_session c s = Some x" by (auto simp: by_session_iff by_name_name)
    with none show False by simp
  qed
next
  assume "s = [] \<or> (\<forall>n x. by_name c n = Some x \<longrightarrow> SessionID x \<noteq> s)"
  then show "by_session c s = None"
    using by_session_iff [OF assms] by (metis not_None_eq)
qed

lemma by_session_cong:
  assumes "invar c" and "invar d" and "by_name c = by_name d"
  shows "by_session c = by_session d"
  using assms by (intro ext option_eqI) (simp add: by_session_iff)

end

locale mutable_session_index = session_index by_name by_session invar
  for by_name :: "'c \<Rightarrow> string \<Rightarrow> Allocation option"
    and by_session :: "'c \<Rightarrow> string \<Rightarrow> Allocation option"
    and invar :: "'c \<Rightarrow> bool" +
  fixes put :: "Allocation \<Rightarrow> 'c \<Rightarrow> 'c"
    and del :: "string \<Rightarrow> 'c \<Rightarrow> 'c"
    and size :: "'c \<Rightarrow> int"
  assumes put_invar: "invar c \<Longrightarrow> by_name c (SandboxName x) = None \<Longrightarrow>
            by_session c (SessionID x) = None \<Longrightarrow> invar (put x c)"
    and put_name: "invar c \<Longrightarrow> by_name c (SandboxName x) = None \<Longrightarrow>
            by_name (put x c) = (by_name c)(SandboxName x \<mapsto> x)"
    and put_size: "invar c \<Longrightarrow> by_name c (SandboxName x) = None \<Longrightarrow> size (put x c) = size c + 1"
    and del_invar: "invar c \<Longrightarrow> invar (del n c)"
    and del_name: "invar c \<Longrightarrow> by_name (del n c) = (by_name c)(n := None)"
    and del_size: "invar c \<Longrightarrow> size (del n c) = (if by_name c n = None then size c else size c - 1)"
begin

lemma put_session:
  assumes "invar c" and "by_name c (SandboxName x) = None" and "by_session c (SessionID x) = None"
  shows "by_session (put x c) s = (if s \<noteq> [] \<and> s = SessionID x then Some x else by_session c s)"
proof -
  note ok = put_invar [OF assms]
  show ?thesis
    using assms by (intro option_eqI)
      (auto simp: by_session_iff [OF ok] by_session_iff put_name by_session_None_iff split: if_splits)
qed

lemma del_session:
  assumes "invar c"
  shows "by_session (del n c) s =
    (case by_name c n of
       Some x \<Rightarrow> if SessionID x = s then None else by_session c s | None \<Rightarrow> by_session c s)"
proof -
  have del: "by_session (del n c) s = Some y \<longleftrightarrow>
      by_session c s = Some y \<and> SandboxName y \<noteq> n" for y
    by (simp add: by_session_iff [OF del_invar [OF assms]] by_session_iff [OF assms]
        del_name [OF assms])
  have drop: "SandboxName y \<noteq> n \<longleftrightarrow> SessionID x \<noteq> s"
    if x: "by_name c n = Some x" and y: "by_session c s = Some y" for x y
  proof -
    have ys: "s \<noteq> []" "SessionID y = s" "by_name c (SandboxName y) = Some y"
      using y by (simp_all add: by_session_iff [OF assms])
    show ?thesis
    proof (cases "SessionID x = s")
      case True
      then have "n = SandboxName y" using session_unique [OF assms x ys(3)] ys by simp
      with True show ?thesis by simp
    next
      case False
      with x ys have "SandboxName y \<noteq> n" by auto
      with False show ?thesis by simp
    qed
  qed
  have keep: "SandboxName y \<noteq> n" if "by_name c n = None" and "by_session c s = Some y" for y
    using that by (auto simp: by_session_iff [OF assms])
  show ?thesis
  proof (cases "by_name c n")
    case None
    with del keep show ?thesis by (intro option_eqI) auto
  next
    case (Some x)
    with del drop show ?thesis by (intro option_eqI) auto
  qed
qed

lemma del_idem:
  assumes "invar c"
  shows "by_name (del n (del n c)) = by_name (del n c)"
  using assms by (simp add: del_name del_invar)

end

section \<open>The cache implements the interface\<close>

lemma cache_okD:
  assumes "cache_ok h c"
  shows "gomap_ok (byName c)" and "gomap_ok (bySession c)"
    and "\<And>n a. Cache_Get c n = Some a \<Longrightarrow> SandboxName (h a) = n"
    and "\<And>s a. Cache_GetBySession c s = Some a \<longleftrightarrow>
           s \<noteq> [] \<and> SessionID (h a) = s \<and> Cache_Get c (SandboxName (h a)) = Some a"
  using assms by (simp_all add: cache_ok_def)

lemma Cache_Get_Set:
  "Cache_Get (Cache_Set h a c) n = (if n = SandboxName (h a) then Some a else Cache_Get c n)"
  by (auto simp: Cache_Get_def Cache_Set_def Let_def update_conv')

lemma Cache_GetBySession_Set:
  "Cache_GetBySession (Cache_Set h a c) s =
     (if s \<noteq> [] \<and> s = SessionID (h a) then Some a else Cache_GetBySession c s)"
  by (auto simp: Cache_GetBySession_def Cache_Set_def Let_def update_conv')

lemma Cache_Get_Delete:
  "Cache_Get (Cache_Delete h n c) m = (if m = n then None else Cache_Get c m)"
  by (auto simp: Cache_Get_def Cache_Delete_def Let_def delete_conv' split: option.splits)

lemma Cache_GetBySession_Delete:
  "Cache_GetBySession (Cache_Delete h n c) s =
     (case Cache_Get c n of
        Some a \<Rightarrow> if s \<noteq> [] \<and> SessionID (h a) = s then None else Cache_GetBySession c s
      | None \<Rightarrow> Cache_GetBySession c s)"
  by (auto simp: Cache_GetBySession_def Cache_Get_def Cache_Delete_def Let_def delete_conv'
      split: option.splits)

lemma gomap_ok_Set:
  "gomap_ok (byName c) \<Longrightarrow> gomap_ok (byName (Cache_Set h a c))"
  "gomap_ok (bySession c) \<Longrightarrow> gomap_ok (bySession (Cache_Set h a c))"
  by (simp_all add: Cache_Set_def Let_def)

lemma gomap_ok_Delete:
  "gomap_ok (byName c) \<Longrightarrow> gomap_ok (byName (Cache_Delete h n c))"
  "gomap_ok (bySession c) \<Longrightarrow> gomap_ok (bySession (Cache_Delete h n c))"
  by (simp_all add: Cache_Delete_def Let_def split: option.splits)

lemma Cache_Len_Set:
  "Cache_Len (Cache_Set h a c) =
     (if Cache_Get c (SandboxName (h a)) = None then Cache_Len c + 1 else Cache_Len c)"
  by (auto simp: Cache_Len_def Cache_Set_def Cache_Get_def Let_def gomap_length_update)

lemma Cache_Len_Delete:
  assumes "gomap_ok (byName c)"
  shows "Cache_Len (Cache_Delete h n c) =
     (if Cache_Get c n = None then Cache_Len c else Cache_Len c - 1)"
proof (cases "map_of (byName c) n")
  case (Some a)
  then have "byName c \<noteq> []" by auto
  with Some assms show ?thesis
    by (cases "byName c")
       (auto simp: Cache_Len_def Cache_Delete_def Cache_Get_def Let_def gomap_length_delete)
qed (simp add: Cache_Len_def Cache_Delete_def Cache_Get_def)

text \<open>The one lemma behind every \<^verbatim>\<open>Set\<close> of the pool manager: the object at \<open>a\<close> is written with \<open>x\<close> and
  then indexed.  It is new, or was indexed under the same name and had no session.\<close>

lemma cache_ok_Set:
  assumes ok: "cache_ok h c"
    and name: "Cache_Get c (SandboxName x) = None \<or> Cache_Get c (SandboxName x) = Some a"
    and used: "\<And>n. Cache_Get c n = Some a \<Longrightarrow> n = SandboxName x \<and> SessionID (h a) = []"
    and sess: "Cache_GetBySession c (SessionID x) = None"
  shows "cache_ok (h(a := x)) (Cache_Set (h(a := x)) a c)"
proof -
  let ?h = "h(a := x)" and ?c = "Cache_Set (h(a := x)) a c"
  have get: "Cache_Get ?c n = (if n = SandboxName x then Some a else Cache_Get c n)" for n
    by (simp add: Cache_Get_Set)
  have notin: "Cache_GetBySession c s \<noteq> Some a" for s
    using cache_okD(4) [OF ok, of s a] used by auto
  have "Cache_GetBySession ?c s = Some b \<longleftrightarrow>
      s \<noteq> [] \<and> SessionID (?h b) = s \<and> Cache_Get ?c (SandboxName (?h b)) = Some b" for s b
  proof (cases "b = a")
    case True
    then show ?thesis using notin by (auto simp: Cache_GetBySession_Set get)
  next
    case False
    have "Cache_Get ?c (SandboxName (h b)) = Some b \<longleftrightarrow> Cache_Get c (SandboxName (h b)) = Some b"
      using False name by (auto simp: get)
    moreover have "Cache_GetBySession ?c s = Some b \<longleftrightarrow> Cache_GetBySession c s = Some b"
      using False sess by (auto simp: Cache_GetBySession_Set)
    ultimately show ?thesis using False cache_okD(4) [OF ok, of s b] by simp
  qed
  moreover have "Cache_Get ?c n = Some b \<Longrightarrow> SandboxName (?h b) = n" for n b
    using used cache_okD(3) [OF ok] by (auto simp: get split: if_splits)
  ultimately show ?thesis
    using cache_okD(1,2) [OF ok] by (simp add: cache_ok_def gomap_ok_Set)
qed

lemma cache_ok_write:
  assumes "cache_ok h c" and "SandboxName x = SandboxName (h a)" and "SessionID x = SessionID (h a)"
  shows "cache_ok (h(a := x)) c"
  using assms unfolding cache_ok_def by auto

lemma cache_ok_Delete:
  assumes ok: "cache_ok h c"
  shows "cache_ok h (Cache_Delete h n c)"
proof -
  have "Cache_GetBySession (Cache_Delete h n c) s = Some b \<longleftrightarrow>
      s \<noteq> [] \<and> SessionID (h b) = s \<and> Cache_Get (Cache_Delete h n c) (SandboxName (h b)) = Some b" for s b
  proof (cases "Cache_Get c n")
    case None
    then show ?thesis
      using cache_okD(4) [OF ok, of s b] by (auto simp: Cache_Get_Delete Cache_GetBySession_Delete)
  next
    case (Some a)
    with cache_okD(3) [OF ok] have a: "SandboxName (h a) = n" by blast
    show ?thesis
      using Some a cache_okD(4) [OF ok, of s b] cache_okD(4) [OF ok, of s a]
      by (auto simp: Cache_Get_Delete Cache_GetBySession_Delete)
  qed
  with ok show ?thesis
    by (simp add: cache_ok_def Cache_Get_Delete gomap_ok_Delete)
qed

lemma store_ok_empty [simp]: "store_ok empty_store"
  by (simp add: store_ok_def cache_ok_def empty_store_def NewAllocationCache_def
      Cache_Get_def Cache_GetBySession_def)

lemma store_ok_new:
  assumes ok: "store_ok S" and name: "registry S (SandboxName x) = None"
    and sess: "session_view S (SessionID x) = None"
  shows "store_ok (store_new x S)"
proof -
  have fresh: "Cache_Get (index S) n \<noteq> Some (next_cell S)" for n
    using ok by (auto simp: store_ok_def)
  have "cache_ok (cells (store_new x S)) (index (store_new x S))"
    using ok name sess fresh
    by (auto simp: store_new_def Let_def store_ok_def registry_def session_view_def intro!: cache_ok_Set)
  moreover have "Cache_Get (index (store_new x S)) n = Some a \<Longrightarrow> a < next_cell (store_new x S)" for n a
    using ok by (auto simp: store_new_def Let_def Cache_Get_Set store_ok_def less_Suc_eq split: if_splits)
  ultimately show ?thesis by (simp add: store_ok_def)
qed

lemma registry_new:
  assumes ok: "store_ok S"
  shows "registry (store_new x S) = (registry S)(SandboxName x \<mapsto> x)"
proof
  fix n
  have "map_option ((cells S)(next_cell S := x)) (Cache_Get (index S) n)
      = map_option (cells S) (Cache_Get (index S) n)"
    using ok by (cases "Cache_Get (index S) n") (auto simp: store_ok_def)
  then show "registry (store_new x S) n = ((registry S)(SandboxName x \<mapsto> x)) n"
    by (simp add: registry_def store_new_def Let_def Cache_Get_Set)
qed

lemma store_ok_delete: "store_ok S \<Longrightarrow> store_ok (store_delete n S)"
  by (auto simp: store_ok_def store_delete_def cache_ok_Delete Cache_Get_Delete split: if_splits)

lemma registry_delete: "registry (store_delete n S) = (registry S)(n := None)"
  by (auto simp: registry_def store_delete_def Cache_Get_Delete)

lemma store_ok_write:
  assumes "store_ok S" and "SandboxName (f (cells S a)) = SandboxName (cells S a)"
    and "SessionID (f (cells S a)) = SessionID (cells S a)"
  shows "store_ok (store_write a f S)"
  using assms by (simp add: store_ok_def store_write_def cache_ok_write)

lemma registry_write:
  assumes ok: "store_ok S" and a: "Cache_Get (index S) n = Some a"
  shows "registry (store_write a f S) = (registry S)(n \<mapsto> f (cells S a))"
proof
  fix m
  have other: "b \<noteq> a" if "Cache_Get (index S) m = Some b" and "m \<noteq> n" for b
    using that ok a cache_okD(3) unfolding store_ok_def by blast
  show "registry (store_write a f S) m = ((registry S)(n \<mapsto> f (cells S a))) m"
    using a other
    by (cases "m = n"; cases "Cache_Get (index S) m") (auto simp: registry_def store_write_def)
qed

lemma store_len_write [simp]: "store_len (store_write a f S) = store_len S"
  by (simp add: store_len_def store_write_def)

lemma index_write [simp]: "index (store_write a f S) = index S"
  by (simp add: store_write_def)

lemma next_cell_write [simp]: "next_cell (store_write a f S) = next_cell S"
  by (simp add: store_write_def)

lemma store_claim:
  assumes ok: "store_ok S" and a: "Cache_Get (index S) n = Some a"
    and nosess: "SessionID (cells S a) = []"
    and name: "SandboxName (f (cells S a)) = SandboxName (cells S a)"
    and sess: "session_view S (SessionID (f (cells S a))) = None"
  shows "store_ok (store_set a (store_write a f S))"
    and "registry (store_set a (store_write a f S)) = (registry S)(n \<mapsto> f (cells S a))"
    and "store_len (store_set a (store_write a f S)) = store_len S"
proof -
  let ?S = "store_set a (store_write a f S)"
  have cok: "cache_ok (cells S) (index S)" using ok by (simp add: store_ok_def)
  have n: "SandboxName (cells S a) = n" using cache_okD(3) [OF cok a] .
  have get: "Cache_Get (index ?S) = Cache_Get (index S)"
    using a name n by (auto simp: store_set_def store_write_def Cache_Get_Set)
  have "cache_ok (cells ?S) (index ?S)"
    using cache_ok_Set [OF cok, of "f (cells S a)" a] a nosess name n sess cache_okD(3) [OF cok]
    by (auto simp: store_set_def store_write_def session_view_def)
  then show "store_ok ?S"
    using ok get by (simp add: store_ok_def) (simp add: store_set_def)
  show "registry ?S = (registry S)(n \<mapsto> f (cells S a))"
  proof -
    have "cells ?S = cells (store_write a f S)" by (simp add: store_set_def)
    then have "registry ?S = registry (store_write a f S)" by (intro ext) (simp add: registry_def get)
    then show ?thesis using registry_write [OF ok a, of f] by simp
  qed
  show "store_len ?S = store_len S"
    using a name n by (simp add: store_len_def store_set_def store_write_def Cache_Len_Set)
qed

lemma store_session_get:
  assumes "store_ok S" and "Cache_GetBySession (index S) s = Some a"
  shows "Cache_Get (index S) (SandboxName (cells S a)) = Some a" and "SessionID (cells S a) = s"
    and "s \<noteq> []"
  using assms cache_okD(4) [of "cells S" "index S" s a] by (simp_all add: store_ok_def)

interpretation shared_cache: mutable_session_index
  registry session_view store_ok store_new store_delete store_len
proof unfold_locales
  fix c :: SharedCache and n s x
  assume ok: "store_ok c"
  then have cok: "cache_ok (cells c) (index c)" by (simp add: store_ok_def)
  show "registry c n = Some x \<Longrightarrow> SandboxName x = n"
    using cache_okD(3) [OF cok] by (auto simp: registry_def)
  show "session_view c s = Some x \<longleftrightarrow>
      s \<noteq> [] \<and> SessionID x = s \<and> registry c (SandboxName x) = Some x"
    using cache_okD(4) [OF cok, of s] by (force simp: session_view_def registry_def)
  show "store_ok (store_delete n c)" using ok by (rule store_ok_delete)
  show "registry (store_delete n c) = (registry c)(n := None)" by (rule registry_delete)
  show "store_len (store_delete n c) = (if registry c n = None then store_len c else store_len c - 1)"
    using cache_okD(1) [OF cok]
    by (simp add: store_len_def store_delete_def Cache_Len_Delete registry_def)
  assume "registry c (SandboxName x) = None"
  then show "store_len (store_new x c) = store_len c + 1"
    by (simp add: store_len_def store_new_def Let_def Cache_Len_Set registry_def)
qed (simp_all add: store_ok_new registry_new)

section \<open>Listing\<close>

lemma Cache_List_set:
  assumes "range_order ord" and "gomap_ok (byName c)"
  shows "a \<in> set (Cache_List ord c) \<longleftrightarrow> (\<exists>n. Cache_Get c n = Some a)"
proof -
  have "a \<in> set (Cache_List ord c) \<longleftrightarrow> (\<exists>n. (n, a) \<in> set (byName c))"
    by (force simp: Cache_List_def range_order_set [OF assms(1)])
  then show ?thesis by (simp add: gomap_mem_iff [OF assms(2)] Cache_Get_def)
qed

lemma Cache_List_distinct:
  assumes "range_order ord" and "cache_ok h c"
  shows "distinct (Cache_List ord c)"
proof -
  have inj: "inj_on snd (set (byName c))"
    using cache_okD(1,3) [OF assms(2)] unfolding inj_on_def Cache_Get_def
    by (metis gomap_mem_iff prod.collapse)
  have "distinct (byName c)"
    using cache_okD(1) [OF assms(2)] by (simp add: gomap_ok_def distinct_map)
  with inj have "distinct (map snd (byName c))" by (simp add: distinct_map)
  with assms(1) show ?thesis by (simp add: Cache_List_def range_order_distinct)
qed

lemma Cache_ListByStatus_alt:
  "Cache_ListByStatus ord h st c = filter (\<lambda>a. Status (h a) = st) (Cache_List ord c)"
  by (simp add: Cache_ListByStatus_def Cache_List_def)

lemma Cache_ListByStatus_length:
  "range_order ord \<Longrightarrow>
     length (Cache_ListByStatus ord h st c) =
     length (Cache_ListByStatus (\<lambda>xs. xs) h st c)"
  unfolding Cache_ListByStatus_def by (rule range_order_filter_length)

end
