(* ===== verification/Sandbox_Provider.thy ===== *)
theory Sandbox_Provider
  imports Go_Prelude
begin

text \<open>
  The interface \<^verbatim>\<open>SandboxProvider\<close> of \<^verbatim>\<open>internal/pool/manager.go\<close> and its two implementations,
  \<^verbatim>\<open>internal/pool/mock_provider.go\<close> and \<^verbatim>\<open>internal/pool/k8s_provider.go\<close>.

  A provider is a record of two state-passing functions over a provider state.  The Kubernetes
  API client and \<^verbatim>\<open>wait.PollUntilContextTimeout\<close> are third-party code: they are arguments (\<open>ClaimAPI\<close>,
  \<open>poll\<close>), with their documented behaviour as the hypotheses \<open>claim_api_ok\<close> and \<open>poll_ok\<close>.
  A call's context is not a separate argument: what its cancellation changes is which results the
  API and the poll return, and those are arbitrary.
\<close>

section \<open>Definitions\<close>

record 'p SandboxProvider =
  CreateSandbox :: "'p \<Rightarrow> (go_error + string \<times> string) \<times> 'p"
  DeleteSandbox :: "string \<Rightarrow> 'p \<Rightarrow> go_error option \<times> 'p"

subsection \<open>The mock provider\<close>

record MockSandboxProvider =
  targetFQDN :: string
  counter :: int

definition NewMockSandboxProvider :: "string \<Rightarrow> MockSandboxProvider" where
  "NewMockSandboxProvider target = \<lparr>targetFQDN = target, counter = 0\<rparr>"

definition Mock_CreateSandbox ::
  "MockSandboxProvider \<Rightarrow> (go_error + string \<times> string) \<times> MockSandboxProvider" where
  "Mock_CreateSandbox m =
     (let n = wrap64 (counter m + 1); name = ''mock-sandbox-'' @ itoa n
      in (Inr (name, targetFQDN m), m\<lparr>counter := n\<rparr>))"

definition Mock_DeleteSandbox ::
  "string \<Rightarrow> MockSandboxProvider \<Rightarrow> go_error option \<times> MockSandboxProvider" where
  "Mock_DeleteSandbox name m = (None, m)"

definition mock_provider :: "MockSandboxProvider SandboxProvider" where
  "mock_provider = \<lparr>CreateSandbox = Mock_CreateSandbox, DeleteSandbox = Mock_DeleteSandbox\<rparr>"

subsection \<open>The Kubernetes provider\<close>

text \<open>The parts of a \<^verbatim>\<open>SandboxClaim\<close> object that the code writes or reads; a status field is \<open>None\<close> when
  \<^verbatim>\<open>unstructured.NestedString\<close> does not find it.\<close>

record SandboxClaim =
  claim_apiVersion :: string
  claim_kind :: string
  claim_name :: string
  claim_namespace :: string
  claim_labels :: "(string, string) gomap"
  claim_template :: string
  claim_phase :: "string option"
  claim_sandboxName :: "string option"
  claim_message :: "string option"
  claim_created :: int

record 's ClaimAPI =
  api_create :: "string \<Rightarrow> SandboxClaim \<Rightarrow> 's \<Rightarrow> go_error option \<times> 's"
  api_get :: "string \<Rightarrow> string \<Rightarrow> 's \<Rightarrow> (go_error + SandboxClaim) \<times> 's"
  api_list :: "string \<Rightarrow> string \<times> string \<Rightarrow> 's \<Rightarrow> (go_error + SandboxClaim list) \<times> 's"
  api_delete :: "string \<Rightarrow> string \<Rightarrow> 's \<Rightarrow> go_error option \<times> 's"

record K8sSandboxProvider =
  k8s_namespace :: string
  templateName :: string
  k8s_port :: int

definition NewK8sSandboxProvider :: "string \<Rightarrow> string \<Rightarrow> int \<Rightarrow> K8sSandboxProvider" where
  "NewK8sSandboxProvider ns tmpl port =
     \<lparr>k8s_namespace = ns, templateName = tmpl, k8s_port = port\<rparr>"

definition managed_label :: "string \<times> string" where
  "managed_label = (''app.kubernetes.io/managed-by'', ''opencode-scale'')"

text \<open>\<^verbatim>\<open>time.Now().UnixMilli()\<close> of a time in nanoseconds.\<close>

definition UnixMilli :: "int \<Rightarrow> int" where
  "UnixMilli t = t div 1000000"

definition new_claim :: "K8sSandboxProvider \<Rightarrow> string \<Rightarrow> SandboxClaim" where
  "new_claim p name =
     \<lparr>claim_apiVersion = ''agents.x-k8s.io/v1alpha1'', claim_kind = ''SandboxClaim'',
      claim_name = name, claim_namespace = k8s_namespace p, claim_labels = [managed_label],
      claim_template = templateName p, claim_phase = None, claim_sandboxName = None,
      claim_message = None, claim_created = 0\<rparr>"

text \<open>The condition function of the poll.  It returns \<open>(done, err)\<close>; the captured variable \<^verbatim>\<open>fqdn\<close> is the
  second half of its state.\<close>

definition ready_condition ::
  "'s ClaimAPI \<Rightarrow> K8sSandboxProvider \<Rightarrow> string \<Rightarrow> 's \<times> string \<Rightarrow>
   (bool \<times> go_error option) \<times> ('s \<times> string)" where
  "ready_condition api p name st =
     (case st of (s, fqdn) \<Rightarrow>
       (case api_get api (k8s_namespace p) name s of
          (Inl getErr, s') \<Rightarrow> ((False, None), (s', fqdn))
        | (Inr got, s') \<Rightarrow>
            (case claim_phase got of
               None \<Rightarrow> ((False, None), (s', fqdn))
             | Some phase \<Rightarrow>
                 if phase = ''Ready'' then
                   (let sb0 = (case claim_sandboxName got of None \<Rightarrow> [] | Some n \<Rightarrow> n);
                        sb = (if sb0 = [] then name else sb0)
                    in ((True, None),
                        (s', sb @ ''.'' @ k8s_namespace p @ ''.svc.cluster.local:'' @ itoa (k8s_port p))))
                 else if phase = ''Failed'' then
                   (let msg = (case claim_message got of None \<Rightarrow> [] | Some m \<Rightarrow> m)
                    in ((False, Some (Errorf (''sandbox claim failed: '' @ msg))), (s', fqdn)))
                 else ((False, None), (s', fqdn)))))"

type_synonym 's poller =
  "('s \<times> string \<Rightarrow> (bool \<times> go_error option) \<times> ('s \<times> string)) \<Rightarrow> 's \<times> string \<Rightarrow>
   go_error option \<times> ('s \<times> string)"

definition K8s_CreateSandbox ::
  "'s ClaimAPI \<Rightarrow> 's poller \<Rightarrow> K8sSandboxProvider \<Rightarrow> int \<Rightarrow> 's \<Rightarrow>
   (go_error + string \<times> string) \<times> 's" where
  "K8s_CreateSandbox api poll p now s =
     (let name = ''oc-'' @ itoa (UnixMilli now)
      in case api_create api (k8s_namespace p) (new_claim p name) s of
           (Some err, s1) \<Rightarrow> (Inl (Wrapf ''creating sandbox claim: '' err), s1)
         | (None, s1) \<Rightarrow>
             (case poll (ready_condition api p name) (s1, []) of
                (Some err, (s2, _)) \<Rightarrow>
                  (Inl (Wrapf ''waiting for sandbox ready: '' err),
                   snd (api_delete api (k8s_namespace p) name s2))
              | (None, (s2, fqdn)) \<Rightarrow> (Inr (name, fqdn), s2)))"

definition K8s_DeleteSandbox ::
  "'s ClaimAPI \<Rightarrow> K8sSandboxProvider \<Rightarrow> string \<Rightarrow> 's \<Rightarrow> go_error option \<times> 's" where
  "K8s_DeleteSandbox api p name s =
     (case api_delete api (k8s_namespace p) name s of
        (Some err, s') \<Rightarrow> (Some (Wrapf ''deleting sandbox claim: '' err), s')
      | (None, s') \<Rightarrow> (None, s'))"

text \<open>The provider as the pool manager sees it: its state is the world outside the process, of which
  \<open>clock\<close> reads the time.\<close>

definition k8s_provider ::
  "'s ClaimAPI \<Rightarrow> 's poller \<Rightarrow> ('s \<Rightarrow> int) \<Rightarrow> K8sSandboxProvider \<Rightarrow> 's SandboxProvider" where
  "k8s_provider api poll clock p =
     \<lparr>CreateSandbox = (\<lambda>s. K8s_CreateSandbox api poll p (clock s) s),
      DeleteSandbox = K8s_DeleteSandbox api p\<rparr>"

subsection \<open>Documented behaviour of the third-party code\<close>

text \<open>\<^verbatim>\<open>PollUntilContextTimeout\<close>: the condition is evaluated until it reports done or an error, or until
  the timeout or the context ends the poll with an error.\<close>

inductive poll_run ::
  "('a \<Rightarrow> (bool \<times> go_error option) \<times> 'a) \<Rightarrow> 'a \<Rightarrow> go_error option \<Rightarrow> 'a \<Rightarrow> bool"
  for cond where
  poll_done: "cond \<sigma> = ((True, None), \<sigma>') \<Longrightarrow> poll_run cond \<sigma> None \<sigma>'"
| poll_fail: "cond \<sigma> = ((b, Some e), \<sigma>') \<Longrightarrow> poll_run cond \<sigma> (Some e) \<sigma>'"
| poll_again: "cond \<sigma> = ((False, None), \<sigma>1) \<Longrightarrow> poll_run cond \<sigma>1 r \<sigma>' \<Longrightarrow> poll_run cond \<sigma> r \<sigma>'"
| poll_ended: "poll_run cond \<sigma> (Some e) \<sigma>"

definition poll_ok :: "'s poller \<Rightarrow> bool" where
  "poll_ok poll \<longleftrightarrow> (\<forall>cond \<sigma> r \<sigma>'. poll cond \<sigma> = (r, \<sigma>') \<longrightarrow> poll_run cond \<sigma> r \<sigma>')"

text \<open>The API server: \<open>names s\<close> are the claims it holds.  A create succeeds only on a name it does not
  hold, a read or a failed write loses no claim, and a delete loses no claim but the one it names.\<close>

definition claim_api_ok :: "'s ClaimAPI \<Rightarrow> ('s \<Rightarrow> string set) \<Rightarrow> bool" where
  "claim_api_ok api names \<longleftrightarrow>
     (\<forall>ns c s s'. api_create api ns c s = (None, s') \<longrightarrow>
        claim_name c \<notin> names s \<and> insert (claim_name c) (names s) \<subseteq> names s') \<and>
     (\<forall>ns c s e s'. api_create api ns c s = (Some e, s') \<longrightarrow> names s \<subseteq> names s') \<and>
     (\<forall>ns n s r s'. api_get api ns n s = (r, s') \<longrightarrow> names s \<subseteq> names s') \<and>
     (\<forall>ns n s s'. api_delete api ns n s = (None, s') \<longrightarrow> names s - {n} \<subseteq> names s') \<and>
     (\<forall>ns n s e s'. api_delete api ns n s = (Some e, s') \<longrightarrow> names s \<subseteq> names s')"

definition mock_live :: "MockSandboxProvider \<Rightarrow> string set" where
  "mock_live m = (\<lambda>k. ''mock-sandbox-'' @ itoa k) ` {1..counter m}"

definition mock_ready :: "nat \<Rightarrow> MockSandboxProvider \<Rightarrow> bool" where
  "mock_ready k m \<longleftrightarrow> 0 \<le> counter m \<and> counter m + int k < 9223372036854775808"

section \<open>The contract of a provider\<close>

text \<open>
  \<open>live p\<close> are the sandboxes that exist, \<open>ready k p\<close> says that the next \<open>k\<close> creations get names no
  live sandbox has.  The mock provider's names are unique until its 64-bit counter overflows.
\<close>

locale sandbox_provider =
  fixes P :: "'p SandboxProvider"
    and live :: "'p \<Rightarrow> string set"
    and ready :: "nat \<Rightarrow> 'p \<Rightarrow> bool"
  assumes create_fresh: "ready (Suc k) p \<Longrightarrow> CreateSandbox P p = (Inr (n, f), p') \<Longrightarrow>
            n \<notin> live p \<and> insert n (live p) \<subseteq> live p'"
    and create_error: "CreateSandbox P p = (Inl e, p') \<Longrightarrow> live p \<subseteq> live p'"
    and ready_less: "ready (Suc k) p \<Longrightarrow> ready k p"
    and create_ready: "ready (Suc k) p \<Longrightarrow> CreateSandbox P p = (r, p') \<Longrightarrow> ready k p'"
    and delete_done: "DeleteSandbox P n p = (None, p') \<Longrightarrow> live p - {n} \<subseteq> live p'"
    and delete_error: "DeleteSandbox P n p = (Some e, p') \<Longrightarrow> live p \<subseteq> live p'"
    and delete_ready: "ready k p \<Longrightarrow> DeleteSandbox P n p = (d, p') \<Longrightarrow> ready k p'"

section \<open>Both implementations satisfy it\<close>

lemma mock_live_mem: "''mock-sandbox-'' @ itoa k \<in> mock_live m \<longleftrightarrow> 1 \<le> k \<and> k \<le> counter m"
  by (auto simp: mock_live_def itoa_inject)

lemma Mock_Create_step:
  assumes "mock_ready (Suc k) m"
  shows "CreateSandbox mock_provider m =
    (Inr (''mock-sandbox-'' @ itoa (counter m + 1), targetFQDN m), m\<lparr>counter := counter m + 1\<rparr>)"
  using assms by (simp add: mock_provider_def Mock_CreateSandbox_def Let_def mock_ready_def in_int64_def)

lemma Mock_Delete_step: "DeleteSandbox mock_provider n m = (None, m)"
  by (simp add: mock_provider_def Mock_DeleteSandbox_def)

interpretation mock: sandbox_provider mock_provider mock_live mock_ready
proof unfold_locales
  fix k n f and p p' :: MockSandboxProvider
  assume r: "mock_ready (Suc k) p" and c: "CreateSandbox mock_provider p = (Inr (n, f), p')"
  then have n: "n = ''mock-sandbox-'' @ itoa (counter p + 1)" and p': "p' = p\<lparr>counter := counter p + 1\<rparr>"
    by (auto simp: Mock_Create_step)
  have "n \<notin> mock_live p" using n mock_live_mem [of "counter p + 1" p] by simp
  moreover have "insert n (mock_live p) \<subseteq> mock_live p'"
    using r n p' by (auto simp: mock_live_def mock_ready_def)
  ultimately show "n \<notin> mock_live p \<and> insert n (mock_live p) \<subseteq> mock_live p'" by simp
next
  fix p p' :: MockSandboxProvider and e
  assume "CreateSandbox mock_provider p = (Inl e, p')"
  then show "mock_live p \<subseteq> mock_live p'"
    by (simp add: mock_provider_def Mock_CreateSandbox_def Let_def)
next
  fix k r and p p' :: MockSandboxProvider
  assume "mock_ready (Suc k) p" and "CreateSandbox mock_provider p = (r, p')"
  then show "mock_ready k p'" by (auto simp: Mock_Create_step mock_ready_def)
qed (simp_all add: Mock_Delete_step mock_ready_def)

lemma claim_api_okD:
  assumes "claim_api_ok api names"
  shows "api_create api ns c s = (None, s') \<Longrightarrow>
      claim_name c \<notin> names s \<and> insert (claim_name c) (names s) \<subseteq> names s'"
    and "api_create api ns c s = (Some e, s') \<Longrightarrow> names s \<subseteq> names s'"
    and "names s \<subseteq> names (snd (api_get api ns n s))"
    and "api_delete api ns n s = (None, s') \<Longrightarrow> names s - {n} \<subseteq> names s'"
    and "api_delete api ns n s = (Some e, s') \<Longrightarrow> names s \<subseteq> names s'"
  using assms unfolding claim_api_ok_def by (metis prod.collapse)+

lemma ready_condition_state:
  "fst (snd (ready_condition api p name \<sigma>)) = snd (api_get api (k8s_namespace p) name (fst \<sigma>))"
  by (auto simp: ready_condition_def Let_def split: prod.splits sum.splits option.splits)

lemma ready_condition_mono:
  "claim_api_ok api names \<Longrightarrow> ready_condition api p name \<sigma> = (r, \<sigma>') \<Longrightarrow>
     names (fst \<sigma>) \<subseteq> names (fst \<sigma>')"
  by (metis claim_api_okD(3) ready_condition_state snd_conv)

lemma poll_names_mono:
  assumes api: "claim_api_ok api names" and run: "poll_run (ready_condition api p name) \<sigma> r \<sigma>'"
  shows "names (fst \<sigma>) \<subseteq> names (fst \<sigma>')"
  using run by induction (use ready_condition_mono [OF api] in blast)+

lemma K8s_Create_done:
  assumes api: "claim_api_ok api names" and poll: "poll_ok poll"
    and run: "K8s_CreateSandbox api poll p now s = (Inr (n, f), s')"
  shows "n \<notin> names s \<and> insert n (names s) \<subseteq> names s'"
proof -
  obtain s1 where c: "api_create api (k8s_namespace p) (new_claim p n) s = (None, s1)"
    and w: "poll (ready_condition api p n) (s1, []) = (None, (s', f))"
    using run by (auto simp: K8s_CreateSandbox_def Let_def split: prod.splits option.splits)
  have "n \<notin> names s \<and> insert n (names s) \<subseteq> names s1"
    using claim_api_okD(1) [OF api c] by (simp add: new_claim_def)
  moreover have "names s1 \<subseteq> names s'"
    using poll_names_mono [OF api] poll w unfolding poll_ok_def by (metis fst_conv)
  ultimately show ?thesis by blast
qed

lemma K8s_Create_error:
  assumes api: "claim_api_ok api names" and poll: "poll_ok poll"
    and run: "K8s_CreateSandbox api poll p now s = (Inl e, s')"
  shows "names s \<subseteq> names s'"
proof -
  let ?n = "''oc-'' @ itoa (UnixMilli now)"
  obtain r s1 where c: "api_create api (k8s_namespace p) (new_claim p ?n) s = (r, s1)"
    by (meson surj_pair)
  show ?thesis
  proof (cases r)
    case (Some err)
    with c run have "s1 = s'" by (simp add: K8s_CreateSandbox_def Let_def)
    with Some c show ?thesis using claim_api_okD(2) [OF api] by blast
  next
    case None
    with c run obtain err s2 g where w: "poll (ready_condition api p ?n) (s1, []) = (Some err, (s2, g))"
      and d: "s' = snd (api_delete api (k8s_namespace p) ?n s2)"
      by (auto simp: K8s_CreateSandbox_def Let_def split: prod.splits option.splits)
    have "?n \<notin> names s" "names s \<subseteq> names s1"
      using claim_api_okD(1) [OF api c [unfolded None]] by (simp_all add: new_claim_def)
    moreover have "names s1 \<subseteq> names s2"
      using poll_names_mono [OF api] poll w unfolding poll_ok_def by (metis fst_conv)
    moreover have "names s2 - {?n} \<subseteq> names s'"
    proof (cases "api_delete api (k8s_namespace p) ?n s2")
      case (Pair r3 s3)
      then show ?thesis
        using d claim_api_okD(4) [OF api, of "k8s_namespace p" ?n s2 s3]
          claim_api_okD(5) [OF api, of "k8s_namespace p" ?n s2 _ s3]
        by (cases r3) auto
    qed
    ultimately show ?thesis by blast
  qed
qed

text \<open>The Kubernetes provider satisfies the contract over any API server and poll that behave as
  documented.\<close>

lemma k8s_sandbox_provider:
  assumes api: "claim_api_ok api names" and poll: "poll_ok poll"
  shows "sandbox_provider (k8s_provider api poll clock p) names (\<lambda>_ _. True)"
proof unfold_locales
  fix n f e s s'
  show "CreateSandbox (k8s_provider api poll clock p) s = (Inr (n, f), s') \<Longrightarrow>
      n \<notin> names s \<and> insert n (names s) \<subseteq> names s'"
    using K8s_Create_done [OF api poll] by (auto simp: k8s_provider_def)
  show "CreateSandbox (k8s_provider api poll clock p) s = (Inl e, s') \<Longrightarrow> names s \<subseteq> names s'"
    using K8s_Create_error [OF api poll] by (auto simp: k8s_provider_def)
  show "DeleteSandbox (k8s_provider api poll clock p) n s = (None, s') \<Longrightarrow> names s - {n} \<subseteq> names s'"
    using claim_api_okD(4) [OF api]
    by (auto simp: k8s_provider_def K8s_DeleteSandbox_def split: prod.splits option.splits)
  show "DeleteSandbox (k8s_provider api poll clock p) n s = (Some e, s') \<Longrightarrow> names s \<subseteq> names s'"
    using claim_api_okD(5) [OF api]
    by (auto simp: k8s_provider_def K8s_DeleteSandbox_def split: prod.splits option.splits)
qed simp_all

end
