(* ===== verification/Pool_Manager.thy ===== *)
theory Pool_Manager
  imports Allocation_Cache Sandbox_Provider
begin

text \<open>
  The pool manager, \<^verbatim>\<open>internal/pool/manager.go\<close>, and its metrics, \<^verbatim>\<open>internal/pool/metrics.go\<close>.

  Each method is a function from the manager's state to a result and a new state, run without
  interleaving; the theory \<open>Pool_Concurrency\<close> interleaves the calls of several goroutines.  What a call reads
  from its surroundings is an argument: the clock readings and the fresh UUID (\<open>CallEnv\<close>), and the
  order in which a \<^verbatim>\<open>range\<close> over the name index visits it (\<open>ord\<close>).  Tracing spans and log lines are
  left out.
\<close>

section \<open>Definitions\<close>

definition ErrPoolExhausted :: go_error where
  "ErrPoolExhausted = Sentinel ''pool: all sandbox slots are in use''"

subsection \<open>Metrics\<close>

text \<open>An instrument is the list of values recorded on it, oldest first.  Durations stay in
  nanoseconds: the conversion to floating-point seconds is not modelled.\<close>

record PoolMetrics =
  poolSize :: "int list"
  allocatedCount :: "int list"
  waitQueueLength :: "int list"
  allocationLatency :: "int list"

text \<open>\<open>meter name\<close> is the error, if any, with which the meter refuses the instrument.\<close>

definition NewPoolMetrics :: "(string \<Rightarrow> go_error option) \<Rightarrow> go_error + PoolMetrics" where
  "NewPoolMetrics meter =
     (case meter ''opencode_scale_pool_size'' of Some err \<Rightarrow> Inl err | None \<Rightarrow>
     (case meter ''opencode_scale_allocated_count'' of Some err \<Rightarrow> Inl err | None \<Rightarrow>
     (case meter ''opencode_scale_wait_queue_length'' of Some err \<Rightarrow> Inl err | None \<Rightarrow>
     (case meter ''opencode_scale_allocation_latency'' of Some err \<Rightarrow> Inl err | None \<Rightarrow>
        Inr \<lparr>poolSize = [], allocatedCount = [], waitQueueLength = [], allocationLatency = []\<rparr>))))"

definition RecordAllocation :: "int \<Rightarrow> PoolMetrics \<Rightarrow> PoolMetrics" where
  "RecordAllocation duration m = m\<lparr>allocationLatency := allocationLatency m @ [duration]\<rparr>"

definition SetPoolSize :: "int \<Rightarrow> PoolMetrics \<Rightarrow> PoolMetrics" where
  "SetPoolSize sz m = m\<lparr>poolSize := poolSize m @ [sz]\<rparr>"

definition SetAllocatedCount :: "int \<Rightarrow> PoolMetrics \<Rightarrow> PoolMetrics" where
  "SetAllocatedCount cnt m = m\<lparr>allocatedCount := allocatedCount m @ [cnt]\<rparr>"

definition SetQueueLength :: "int \<Rightarrow> PoolMetrics \<Rightarrow> PoolMetrics" where
  "SetQueueLength len m = m\<lparr>waitQueueLength := waitQueueLength m @ [len]\<rparr>"

subsection \<open>The manager\<close>

record PoolStats =
  stat_Allocated :: int
  stat_MaxSize :: int

record 'p PoolManager =
  provider :: 'p
  store :: SharedCache
  metrics :: "PoolMetrics option"
  maxSize :: int
  namespace :: string

record CallEnv =
  env_start :: int
  env_now :: int
  env_done :: int
  env_uuid :: string

definition NewPoolManager ::
  "'p \<Rightarrow> int \<Rightarrow> string \<Rightarrow> SharedCache \<Rightarrow> PoolMetrics option \<Rightarrow> 'p PoolManager" where
  "NewPoolManager p maxSz ns cache m =
     \<lparr>provider = p, store = cache, metrics = m, maxSize = maxSz, namespace = ns\<rparr>"

type_synonym map_order = "(string \<times> addr) list \<Rightarrow> (string \<times> addr) list"

definition record_count :: "'p PoolManager \<Rightarrow> 'p PoolManager" where
  "record_count pm = pm\<lparr>metrics := map_option (SetAllocatedCount (store_len (store pm))) (metrics pm)\<rparr>"

definition claimIdle ::
  "map_order \<Rightarrow> CallEnv \<Rightarrow> string \<Rightarrow> 'p PoolManager \<Rightarrow> addr option \<times> 'p PoolManager" where
  "claimIdle ord e userID pm =
     (case Cache_ListByStatus ord (cells (store pm)) StatusIdle (index (store pm)) of
        [] \<Rightarrow> (None, pm)
      | alloc # _ \<Rightarrow>
          (let S = store_write alloc (\<lambda>x. x\<lparr>Status := StatusActive, UserID := userID,
                     SessionID := env_uuid e, LastActivity := env_now e\<rparr>) (store pm)
           in (Some alloc, pm\<lparr>store := store_set alloc S\<rparr>)))"

definition active_alloc :: "CallEnv \<Rightarrow> string \<Rightarrow> string \<Rightarrow> string \<Rightarrow> Allocation" where
  "active_alloc e userID name fqdn =
     \<lparr>SandboxName = name, ServiceFQDN = fqdn, SessionID = env_uuid e, UserID = userID,
      AllocatedAt = env_now e, LastActivity = env_now e, Status = StatusActive\<rparr>"

definition Allocate ::
  "'p SandboxProvider \<Rightarrow> map_order \<Rightarrow> CallEnv \<Rightarrow> string \<Rightarrow> 'p PoolManager \<Rightarrow>
   (go_error + addr) \<times> 'p PoolManager" where
  "Allocate P ord e userID pm =
     (case claimIdle ord e userID pm of
        (Some alloc, pm1) \<Rightarrow> (Inr alloc, pm1)
      | (None, pm1) \<Rightarrow>
          if store_len (store pm1) \<ge> maxSize pm1 then (Inl ErrPoolExhausted, pm1)
          else (case CreateSandbox P (provider pm1) of
                  (Inl err, p') \<Rightarrow> (Inl err, pm1\<lparr>provider := p'\<rparr>)
                | (Inr (name, fqdn), p') \<Rightarrow>
                    (let alloc = next_cell (store pm1);
                         pm2 = pm1\<lparr>provider := p',
                                   store := store_new (active_alloc e userID name fqdn) (store pm1)\<rparr>;
                         pm3 = record_count (pm2\<lparr>metrics :=
                                 map_option (RecordAllocation (time_sub (env_done e) (env_start e))) (metrics pm2)\<rparr>)
                     in (Inr alloc, pm3))))"

definition Release ::
  "'p SandboxProvider \<Rightarrow> string \<Rightarrow> 'p PoolManager \<Rightarrow> go_error option \<times> 'p PoolManager" where
  "Release P sandboxName pm =
     (case Cache_Get (index (store pm)) sandboxName of
        None \<Rightarrow> (None, pm)
      | Some alloc \<Rightarrow>
          (let pm1 = pm\<lparr>store := store_write alloc (\<lambda>x. x\<lparr>Status := StatusReleasing\<rparr>) (store pm)\<rparr>
           in case DeleteSandbox P sandboxName (provider pm1) of
                (Some err, p') \<Rightarrow> (Some err, pm1\<lparr>provider := p'\<rparr>)
              | (None, p') \<Rightarrow>
                  (None, record_count (pm1\<lparr>provider := p',
                           store := store_delete sandboxName (store pm1)\<rparr>))))"

definition Heartbeat :: "int \<Rightarrow> string \<Rightarrow> 'p PoolManager \<Rightarrow> go_error option \<times> 'p PoolManager" where
  "Heartbeat now sessionID pm =
     (case Cache_GetBySession (index (store pm)) sessionID of
        None \<Rightarrow> (Some (Errorf ''pool: session not found''), pm)
      | Some alloc \<Rightarrow>
          (None, pm\<lparr>store := store_write alloc (\<lambda>x. x\<lparr>LastActivity := now\<rparr>) (store pm)\<rparr>))"

fun gc_loop :: "'p SandboxProvider \<Rightarrow> int \<Rightarrow> addr list \<Rightarrow> 'p PoolManager \<Rightarrow> 'p PoolManager" where
  "gc_loop P cutoff [] pm = pm"
| "gc_loop P cutoff (alloc # rest) pm =
     (let x = cells (store pm) alloc
      in if Status x = StatusIdle \<or> Status x = StatusReleasing then gc_loop P cutoff rest pm
         else if LastActivity x < cutoff
         then gc_loop P cutoff rest (snd (Release P (SandboxName x) pm))
         else gc_loop P cutoff rest pm)"

definition RunGC ::
  "'p SandboxProvider \<Rightarrow> map_order \<Rightarrow> int \<Rightarrow> int \<Rightarrow> 'p PoolManager \<Rightarrow> 'p PoolManager" where
  "RunGC P ord now idleTimeout pm =
     (let cutoff = now + wrap64 (- idleTimeout)
      in gc_loop P cutoff (Cache_List ord (index (store pm))) pm)"

definition warm_alloc :: "int \<Rightarrow> string \<Rightarrow> string \<Rightarrow> Allocation" where
  "warm_alloc now name fqdn =
     \<lparr>SandboxName = name, ServiceFQDN = fqdn, SessionID = [], UserID = [],
      AllocatedAt = now, LastActivity = now, Status = StatusIdle\<rparr>"

definition AllocateWarm ::
  "'p SandboxProvider \<Rightarrow> int \<Rightarrow> 'p PoolManager \<Rightarrow> (go_error + addr) \<times> 'p PoolManager" where
  "AllocateWarm P now pm =
     (if store_len (store pm) \<ge> maxSize pm then (Inl ErrPoolExhausted, pm)
      else (case CreateSandbox P (provider pm) of
              (Inl err, p') \<Rightarrow> (Inl err, pm\<lparr>provider := p'\<rparr>)
            | (Inr (name, fqdn), p') \<Rightarrow>
                (Inr (next_cell (store pm)),
                 record_count (pm\<lparr>provider := p',
                   store := store_new (warm_alloc now name fqdn) (store pm)\<rparr>))))"

text \<open>The loop of \<^verbatim>\<open>replenishWarm\<close>: \<open>k\<close> iterations are left, \<open>clock k\<close> is the time of that iteration.\<close>

fun warm_loop :: "'p SandboxProvider \<Rightarrow> (nat \<Rightarrow> int) \<Rightarrow> nat \<Rightarrow> 'p PoolManager \<Rightarrow> 'p PoolManager" where
  "warm_loop P clock 0 pm = pm"
| "warm_loop P clock (Suc k) pm =
     (case AllocateWarm P (clock k) pm of
        (Inl err, pm') \<Rightarrow> pm'
      | (Inr alloc, pm') \<Rightarrow> warm_loop P clock k pm')"

definition replenishWarm ::
  "'p SandboxProvider \<Rightarrow> map_order \<Rightarrow> (nat \<Rightarrow> int) \<Rightarrow> int \<Rightarrow> 'p PoolManager \<Rightarrow> 'p PoolManager" where
  "replenishWarm P ord clock minReady pm =
     (let idle = Cache_ListByStatus ord (cells (store pm)) StatusIdle (index (store pm));
          deficit = wrap64 (minReady - int (length idle))
      in warm_loop P clock (nat deficit) pm)"

definition Stats :: "'p PoolManager \<Rightarrow> PoolStats" where
  "Stats pm = \<lparr>stat_Allocated = store_len (store pm), stat_MaxSize = maxSize pm\<rparr>"

subsection \<open>The background loops\<close>

text \<open>
  A loop over a ticker and a context is run on the sequence of events its \<^verbatim>\<open>select\<close> chooses.  It has
  panicked (\<^verbatim>\<open>time.NewTicker\<close> panics on a non-positive interval), has returned, or still runs.
\<close>

datatype 'e loop_event = Tick 'e | CtxDone

datatype 'a loop_result = Panic string | Returned 'a | Looping 'a

fun select_loop :: "('e \<Rightarrow> 'a \<Rightarrow> 'a) \<Rightarrow> 'e loop_event list \<Rightarrow> 'a \<Rightarrow> 'a loop_result" where
  "select_loop f [] s = Looping s"
| "select_loop f (CtxDone # evs) s = Returned s"
| "select_loop f (Tick e # evs) s = select_loop f evs (f e s)"

definition NewTicker :: "int \<Rightarrow> 'a loop_result \<Rightarrow> 'a loop_result" where
  "NewTicker interval body =
     (if interval \<le> 0 then Panic ''non-positive interval for NewTicker'' else body)"

record gc_tick =
  gc_ord :: map_order
  gc_now :: int

definition StartGCLoop ::
  "'p SandboxProvider \<Rightarrow> int \<Rightarrow> int \<Rightarrow> gc_tick loop_event list \<Rightarrow> 'p PoolManager \<Rightarrow>
   'p PoolManager loop_result" where
  "StartGCLoop P interval idleTimeout evs pm =
     NewTicker interval (select_loop (\<lambda>t. RunGC P (gc_ord t) (gc_now t) idleTimeout) evs pm)"

record warm_tick =
  warm_ord :: map_order
  warm_clock :: "nat \<Rightarrow> int"

definition StartWarmPool ::
  "'p SandboxProvider \<Rightarrow> int \<Rightarrow> int \<Rightarrow> warm_tick \<Rightarrow> warm_tick loop_event list \<Rightarrow> 'p PoolManager \<Rightarrow>
   'p PoolManager loop_result" where
  "StartWarmPool P minReady interval first evs pm =
     NewTicker interval
       (select_loop (\<lambda>t. replenishWarm P (warm_ord t) (warm_clock t) minReady) evs
          (replenishWarm P (warm_ord first) (warm_clock first) minReady pm))"

subsection \<open>Invariant and observations\<close>

text \<open>The status of an allocation and its session agree, and every cached sandbox is live.\<close>

definition alloc_ok :: "Allocation \<Rightarrow> bool" where
  "alloc_ok x \<longleftrightarrow> (Status x = StatusIdle \<longrightarrow> SessionID x = []) \<and>
                 (Status x = StatusActive \<longrightarrow> SessionID x \<noteq> [])"

definition pool_inv :: "('p \<Rightarrow> string set) \<Rightarrow> 'p PoolManager \<Rightarrow> bool" where
  "pool_inv live pm \<longleftrightarrow>
     store_ok (store pm) \<and>
     (\<forall>n x. registry (store pm) n = Some x \<longrightarrow> n \<in> live (provider pm) \<and> alloc_ok x)"

text \<open>The state invariant with its bound: the cache is within the pool size, and the provider can create
  \<open>k\<close> more sandboxes with fresh names.\<close>

definition pool_good ::
  "('p \<Rightarrow> string set) \<Rightarrow> (nat \<Rightarrow> 'p \<Rightarrow> bool) \<Rightarrow> nat \<Rightarrow> 'p PoolManager \<Rightarrow> bool" where
  "pool_good live ready k pm \<longleftrightarrow>
     pool_inv live pm \<and> ready k (provider pm) \<and> store_len (store pm) \<le> maxSize pm"

definition env_fresh :: "CallEnv \<Rightarrow> SharedCache \<Rightarrow> bool" where
  "env_fresh e S \<longleftrightarrow> env_uuid e \<noteq> [] \<and> session_view S (env_uuid e) = None"

definition idle_count :: "'p PoolManager \<Rightarrow> nat" where
  "idle_count pm =
     length (Cache_ListByStatus (\<lambda>xs. xs) (cells (store pm)) StatusIdle (index (store pm)))"

definition expired :: "int \<Rightarrow> Allocation \<Rightarrow> bool" where
  "expired cutoff x \<longleftrightarrow> Status x = StatusActive \<and> LastActivity x < cutoff"

text \<open>What a collection with the given cutoff may do to the allocation of sandbox \<open>n\<close>, if it visits the
  sandboxes \<open>D\<close>: \<open>R\<close> and \<open>R'\<close> are the registries before and after.\<close>

definition gc_effect ::
  "'p SandboxProvider \<Rightarrow> int \<Rightarrow> string set \<Rightarrow> (string \<Rightarrow> Allocation option) \<Rightarrow>
   (string \<Rightarrow> Allocation option) \<Rightarrow> string \<Rightarrow> bool" where
  "gc_effect P cutoff D R R' n \<longleftrightarrow>
     (case R n of
        None \<Rightarrow> R' n = None
      | Some x \<Rightarrow>
          if n \<in> D \<and> expired cutoff x
          then R' n = None \<or>
               R' n = Some (x\<lparr>Status := StatusReleasing\<rparr>) \<and> (\<exists>q. fst (DeleteSandbox P n q) \<noteq> None)
          else R' n = Some x)"

text \<open>What a claim writes into an idle allocation.\<close>

definition claimed :: "CallEnv \<Rightarrow> string \<Rightarrow> Allocation \<Rightarrow> Allocation" where
  "claimed e userID x = x\<lparr>Status := StatusActive, UserID := userID, SessionID := env_uuid e,
     LastActivity := env_now e\<rparr>"

text \<open>The allocation a successful call returned, read through the pointer.\<close>

definition alloc_at :: "'p PoolManager \<Rightarrow> addr \<Rightarrow> Allocation" where
  "alloc_at pm a = cells (store pm) a"

subsection \<open>Sample data\<close>

definition sample_env :: "int \<Rightarrow> string \<Rightarrow> CallEnv" where
  "sample_env t u = \<lparr>env_start = t, env_now = t, env_done = t, env_uuid = u\<rparr>"

definition sample_pool :: "int \<Rightarrow> MockSandboxProvider PoolManager" where
  "sample_pool maxSz =
     NewPoolManager (NewMockSandboxProvider ''localhost:4096'') maxSz ''opencode-scale'' empty_store None"

definition sample_alloc :: "int \<Rightarrow> string \<Rightarrow> MockSandboxProvider PoolManager \<Rightarrow>
    (go_error + addr) \<times> MockSandboxProvider PoolManager" where
  "sample_alloc t u pm = Allocate mock_provider (\<lambda>xs. xs) (sample_env t u) ''alice'' pm"

subsection \<open>Histories of a pool\<close>

text \<open>
  \<open>pool_trace P pm0 k pm\<close>: a sequence of calls leads from \<open>pm0\<close> to \<open>pm\<close>, in which at most \<open>k\<close>
  sandboxes were requested from the provider.  Calls may fail or succeed; the UUID of an allocation is
  one that no session has.
\<close>

inductive pool_trace ::
  "'p SandboxProvider \<Rightarrow> 'p PoolManager \<Rightarrow> nat \<Rightarrow> 'p PoolManager \<Rightarrow> bool"
  for P :: "'p SandboxProvider" and pm0 :: "'p PoolManager" where
  trace_new: "pool_trace P pm0 0 pm0"
| trace_allocate: "pool_trace P pm0 k pm \<Longrightarrow> range_order ord \<Longrightarrow> env_fresh e (store pm) \<Longrightarrow>
     pool_trace P pm0 (Suc k) (snd (Allocate P ord e userID pm))"
| trace_warm: "pool_trace P pm0 k pm \<Longrightarrow> pool_trace P pm0 (Suc k) (snd (AllocateWarm P now pm))"
| trace_replenish: "pool_trace P pm0 k pm \<Longrightarrow> range_order ord \<Longrightarrow>
     pool_trace P pm0 (nat (wrap64 (minReady - int (idle_count pm))) + k)
       (replenishWarm P ord clock minReady pm)"
| trace_release: "pool_trace P pm0 k pm \<Longrightarrow> pool_trace P pm0 k (snd (Release P n pm))"
| trace_heartbeat: "pool_trace P pm0 k pm \<Longrightarrow> pool_trace P pm0 k (snd (Heartbeat now s pm))"
| trace_gc: "pool_trace P pm0 k pm \<Longrightarrow> pool_trace P pm0 k (RunGC P ord now idleTimeout pm)"

section \<open>Claiming and allocating\<close>

lemma idle_count_new:
  assumes ok: "store_ok (store pm)" and none: "registry (store pm) (SandboxName x) = None"
    and st: "store pm' = store_new x (store pm)"
  shows "idle_count pm' = idle_count pm + (if Status x = StatusIdle then 1 else 0)"
proof -
  let ?S = "store pm"
  have app: "byName (index (store pm')) = byName (index ?S) @ [(SandboxName x, next_cell ?S)]"
    using none by (simp add: st store_new_def Let_def Cache_Set_def registry_def Cache_Get_def gomap_update_absent)
  have "next_cell ?S \<notin> snd ` set (byName (index ?S))"
    using ok gomap_mem_iff [of "byName (index ?S)"]
    by (fastforce simp: store_ok_def cache_ok_def Cache_Get_def)
  then have "filter (\<lambda>a. Status (cells (store pm') a) = StatusIdle) (map snd (byName (index ?S))) =
      filter (\<lambda>a. Status (cells ?S a) = StatusIdle) (map snd (byName (index ?S)))"
    by (intro filter_cong) (auto simp: st store_new_def Let_def image_iff)
  then show ?thesis
    by (simp add: idle_count_def Cache_ListByStatus_def app) (simp add: st store_new_def Let_def)
qed

lemma idle_count_le_len: "int (idle_count pm) \<le> store_len (store pm)"
  unfolding idle_count_def Cache_ListByStatus_def store_len_def Cache_Len_def
  by (metis length_filter_le length_map of_nat_mono)


lemma record_count_simps [simp]:
  "provider (record_count pm) = provider pm" "store (record_count pm) = store pm"
  "maxSize (record_count pm) = maxSize pm" "namespace (record_count pm) = namespace pm"
  by (simp_all add: record_count_def)

lemma idle_list_iff:
  assumes "range_order ord" and "store_ok S"
  shows "a \<in> set (Cache_ListByStatus ord (cells S) st (index S)) \<longleftrightarrow>
    Status (cells S a) = st \<and> (\<exists>n. Cache_Get (index S) n = Some a)"
  using assms by (simp add: Cache_ListByStatus_alt Cache_List_set store_ok_def cache_ok_def conj_commute)

lemma no_idle_iff:
  assumes "range_order ord" and "store_ok S"
  shows "Cache_ListByStatus ord (cells S) StatusIdle (index S) = [] \<longleftrightarrow>
    (\<forall>n x. registry S n = Some x \<longrightarrow> Status x \<noteq> StatusIdle)"
proof -
  have "Cache_ListByStatus ord (cells S) StatusIdle (index S) = [] \<longleftrightarrow>
      (\<forall>a. a \<notin> set (Cache_ListByStatus ord (cells S) StatusIdle (index S)))"
    by (metis empty_iff empty_set last_in_set)
  then show ?thesis by (auto simp: idle_list_iff [OF assms] registry_def)
qed

lemma claimIdle_None:
  "claimIdle ord e u pm = (None, pm') \<longleftrightarrow>
     pm' = pm \<and> Cache_ListByStatus ord (cells (store pm)) StatusIdle (index (store pm)) = []"
  by (auto simp: claimIdle_def Let_def split: list.splits)

lemma claimIdle_Some:
  assumes ord: "range_order ord" and inv: "pool_inv live pm" and fresh: "env_fresh e (store pm)"
    and claim: "claimIdle ord e u pm = (Some a, pm')"
  obtains n x where "registry (store pm) n = Some x" and "Status x = StatusIdle" and "SandboxName x = n"
    and "alloc_at pm' a = claimed e u x"
    and "registry (store pm') = (registry (store pm))(n \<mapsto> claimed e u x)"
    and "store_ok (store pm')" and "store_len (store pm') = store_len (store pm)"
    and "provider pm' = provider pm" and "maxSize pm' = maxSize pm" and "metrics pm' = metrics pm"
proof -
  let ?S = "store pm"
  have ok: "store_ok ?S" using inv by (simp add: pool_inv_def)
  obtain rest where l: "Cache_ListByStatus ord (cells ?S) StatusIdle (index ?S) = a # rest"
    using claim by (auto simp: claimIdle_def Let_def split: list.splits)
  then obtain n where a: "Cache_Get (index ?S) n = Some a" and idle: "Status (cells ?S a) = StatusIdle"
    using idle_list_iff [OF ord ok, of a StatusIdle] by auto
  have x: "registry ?S n = Some (cells ?S a)" using a by (simp add: registry_def)
  with inv idle have nosess: "SessionID (cells ?S a) = []" by (auto simp: pool_inv_def alloc_ok_def)
  have pm': "pm' = pm\<lparr>store := store_set a (store_write a (claimed e u) ?S)\<rparr>"
    using claim l by (simp add: claimIdle_def Let_def claimed_def [abs_def])
  note upd = store_claim [OF ok a nosess, of "claimed e u"]
  show ?thesis
    using that [OF x idle] x upd ok fresh shared_cache.by_name_name [OF ok x]
    by (simp add: pm' claimed_def env_fresh_def alloc_at_def store_set_def store_write_def)
qed

context sandbox_provider
begin

lemma Allocate_create:
  assumes inv: "pool_inv live pm" and r: "ready (Suc k) (provider pm)"
    and c: "CreateSandbox P (provider pm) = (Inr (n, f), p')"
    and x: "SandboxName x = n" "session_view (store pm) (SessionID x) = None" "alloc_ok x"
    and pm': "provider pm' = p'" "store pm' = store_new x (store pm)"
  shows "pool_inv live pm'" and "registry (store pm) n = None"
    and "registry (store pm') = (registry (store pm))(n \<mapsto> x)"
    and "store_len (store pm') = store_len (store pm) + 1"
    and "session_view (store pm') s =
           (if s \<noteq> [] \<and> s = SessionID x then Some x else session_view (store pm) s)"
proof -
  have ok: "store_ok (store pm)" using inv by (simp add: pool_inv_def)
  have fresh: "n \<notin> live (provider pm)" and sub: "insert n (live (provider pm)) \<subseteq> live p'"
    using create_fresh [OF r c] by auto
  show none: "registry (store pm) n = None"
    using inv fresh unfolding pool_inv_def by (metis not_None_eq)
  then have none': "registry (store pm) (SandboxName x) = None" using x by simp
  show reg: "registry (store pm') = (registry (store pm))(n \<mapsto> x)"
    using x shared_cache.put_name [OF ok none'] by (simp add: pm')
  show "store_len (store pm') = store_len (store pm) + 1"
    using shared_cache.put_size [OF ok none'] by (simp add: pm')
  show "session_view (store pm') s =
      (if s \<noteq> [] \<and> s = SessionID x then Some x else session_view (store pm) s)"
    using shared_cache.put_session [OF ok none' x(2)] by (simp add: pm')
  show "pool_inv live pm'"
    using inv x(3) sub reg shared_cache.put_invar [OF ok none' x(2)]
    by (auto simp: pool_inv_def pm' split: if_splits)
qed

lemma AllocateWarm_cases:
  assumes inv: "pool_inv live pm" and r: "ready (Suc k) (provider pm)"
    and w: "AllocateWarm P now pm = (res, pm')"
  shows "pool_inv live pm'" and "ready k (provider pm')" and "maxSize pm' = maxSize pm"
    and "store_len (store pm) \<le> maxSize pm \<Longrightarrow> store_len (store pm') \<le> maxSize pm"
proof -
  consider (full) "store_len (store pm) \<ge> maxSize pm" "pm' = pm"
    | (err) e p' where "store_len (store pm) < maxSize pm"
        "CreateSandbox P (provider pm) = (Inl e, p')" "pm' = pm\<lparr>provider := p'\<rparr>"
    | (new) n f p' where "store_len (store pm) < maxSize pm"
        "CreateSandbox P (provider pm) = (Inr (n, f), p')"
        "pm' = record_count (pm\<lparr>provider := p', store := store_new (warm_alloc now n f) (store pm)\<rparr>)"
    using w by (fastforce simp: AllocateWarm_def split: if_splits prod.splits sum.splits)
  then have "pool_inv live pm' \<and> ready k (provider pm') \<and> maxSize pm' = maxSize pm \<and>
      (store_len (store pm) \<le> maxSize pm \<longrightarrow> store_len (store pm') \<le> maxSize pm)"
  proof cases
    case full
    then show ?thesis using inv ready_less [OF r] by simp
  next
    case err
    then show ?thesis using inv create_error create_ready [OF r] by (fastforce simp: pool_inv_def)
  next
    case new
    have "session_view (store pm) [] = None"
      using inv by (simp add: pool_inv_def shared_cache.by_session_None_iff)
    then show ?thesis
      using Allocate_create [OF inv r new(2), of "warm_alloc now n f" pm'] new create_ready [OF r]
      by (simp add: warm_alloc_def alloc_ok_def)
  qed
  then show "pool_inv live pm'" and "ready k (provider pm')" and "maxSize pm' = maxSize pm"
    and "store_len (store pm) \<le> maxSize pm \<Longrightarrow> store_len (store pm') \<le> maxSize pm"
    by auto
qed

lemma Allocate_inv:
  assumes ord: "range_order ord" and inv: "pool_inv live pm" and r: "ready (Suc k) (provider pm)"
    and fresh: "env_fresh e (store pm)" and al: "Allocate P ord e u pm = (res, pm')"
  shows "pool_inv live pm'" and "ready k (provider pm')" and "maxSize pm' = maxSize pm"
    and "store_len (store pm) \<le> maxSize pm \<Longrightarrow> store_len (store pm') \<le> maxSize pm"
proof -
  consider (claim) a where "claimIdle ord e u pm = (Some a, pm')"
    | (full) "store_len (store pm) \<ge> maxSize pm" "pm' = pm"
    | (err) err p' where "CreateSandbox P (provider pm) = (Inl err, p')" "pm' = pm\<lparr>provider := p'\<rparr>"
    | (new) n f p' where "store_len (store pm) < maxSize pm"
        "CreateSandbox P (provider pm) = (Inr (n, f), p')"
        "provider pm' = p'" "store pm' = store_new (active_alloc e u n f) (store pm)"
        "maxSize pm' = maxSize pm"
    using al
    by (fastforce simp: Allocate_def claimIdle_None Let_def split: if_splits prod.splits sum.splits option.splits)
  then have "pool_inv live pm' \<and> ready k (provider pm') \<and> maxSize pm' = maxSize pm \<and>
      (store_len (store pm) \<le> maxSize pm \<longrightarrow> store_len (store pm') \<le> maxSize pm)"
  proof cases
    case claim
    then show ?thesis
      using claimIdle_Some [OF ord inv fresh claim] ready_less [OF r] inv fresh
      by (elim claimIdle_Some [OF ord inv fresh]) (auto simp: pool_inv_def claimed_def alloc_ok_def env_fresh_def)
  next
    case full
    then show ?thesis using inv ready_less [OF r] by simp
  next
    case err
    then show ?thesis using inv create_error create_ready [OF r] by (fastforce simp: pool_inv_def)
  next
    case new
    then show ?thesis
      using Allocate_create [OF inv r new(2), of "active_alloc e u n f" pm'] create_ready [OF r] fresh
      by (simp add: active_alloc_def alloc_ok_def env_fresh_def)
  qed
  then show "pool_inv live pm'" and "ready k (provider pm')" and "maxSize pm' = maxSize pm"
    and "store_len (store pm) \<le> maxSize pm \<Longrightarrow> store_len (store pm') \<le> maxSize pm"
    by auto
qed

end

section \<open>Releasing, heartbeats and garbage collection\<close>

lemma Release_absent: "registry (store pm) n = None \<Longrightarrow> Release P n pm = (None, pm)"
  by (simp add: Release_def registry_def)

lemma Release_present:
  assumes ok: "store_ok (store pm)" and x: "registry (store pm) n = Some x"
    and r: "Release P n pm = (res, pm')"
  shows "store_ok (store pm')" and "maxSize pm' = maxSize pm"
    and "(res, provider pm') = DeleteSandbox P n (provider pm)"
    and "registry (store pm') =
           (registry (store pm))(n := if res = None then None else Some (x\<lparr>Status := StatusReleasing\<rparr>))"
    and "Cache_Get (index (store pm')) m =
           (if res = None \<and> m = n then None else Cache_Get (index (store pm)) m)"
    and "store_len (store pm') = (if res = None then store_len (store pm) - 1 else store_len (store pm))"
    and "Cache_Get (index (store pm)) m = Some b \<Longrightarrow> m \<noteq> n \<Longrightarrow>
           cells (store pm') b = cells (store pm) b"
proof -
  obtain a where a: "Cache_Get (index (store pm)) n = Some a" and xa: "x = cells (store pm) a"
    using x by (auto simp: registry_def)
  define S1 where "S1 = store_write a (\<lambda>x. x\<lparr>Status := StatusReleasing\<rparr>) (store pm)"
  have ok1: "store_ok S1" unfolding S1_def by (rule store_ok_write [OF ok]) simp_all
  have reg1: "registry S1 = (registry (store pm))(n \<mapsto> x\<lparr>Status := StatusReleasing\<rparr>)"
    unfolding S1_def using registry_write [OF ok a] xa by simp
  have idx: "index S1 = index (store pm)" and len1: "store_len S1 = store_len (store pm)"
    by (simp_all add: S1_def)
  obtain d p' where d: "DeleteSandbox P n (provider pm) = (d, p')" by (meson surj_pair)
  have res: "res = d" and pv: "provider pm' = p'" and mx: "maxSize pm' = maxSize pm"
    and st: "store pm' = (if d = None then store_delete n S1 else S1)"
    using r a d by (auto simp: Release_def Let_def S1_def split: option.splits)
  show "store_ok (store pm')" using ok1 by (simp add: st store_ok_delete)
  show "maxSize pm' = maxSize pm" by (fact mx)
  show "(res, provider pm') = DeleteSandbox P n (provider pm)" by (simp add: res pv d)
  show "registry (store pm') =
      (registry (store pm))(n := if res = None then None else Some (x\<lparr>Status := StatusReleasing\<rparr>))"
    by (auto simp: st res registry_delete reg1)
  show "Cache_Get (index (store pm')) m =
      (if res = None \<and> m = n then None else Cache_Get (index (store pm)) m)"
    by (simp add: st res store_delete_def Cache_Get_Delete idx)
  show "store_len (store pm') = (if res = None then store_len (store pm) - 1 else store_len (store pm))"
    using shared_cache.del_size [OF ok1, of n] by (simp add: st res len1 reg1)
  assume b: "Cache_Get (index (store pm)) m = Some b" and "m \<noteq> n"
  then have "b \<noteq> a" using ok a cache_okD(3) unfolding store_ok_def by blast
  then show "cells (store pm') b = cells (store pm) b"
    by (simp add: st store_delete_def S1_def store_write_def)
qed

lemma alloc_ok_releasing [simp]: "alloc_ok (x\<lparr>Status := StatusReleasing\<rparr>)"
  by (simp add: alloc_ok_def)

context sandbox_provider
begin

lemma Release_inv:
  assumes inv: "pool_inv live pm" and r: "Release P n pm = (res, pm')"
  shows "pool_inv live pm'" and "ready k (provider pm) \<Longrightarrow> ready k (provider pm')"
    and "maxSize pm' = maxSize pm" and "store_len (store pm') \<le> store_len (store pm)"
proof -
  have ok: "store_ok (store pm)" using inv by (simp add: pool_inv_def)
  have "pool_inv live pm' \<and> (ready k (provider pm) \<longrightarrow> ready k (provider pm')) \<and>
      maxSize pm' = maxSize pm \<and> store_len (store pm') \<le> store_len (store pm)"
  proof (cases "registry (store pm) n")
    case None
    then show ?thesis using r inv by (simp add: Release_absent)
  next
    case (Some x)
    note p = Release_present [OF ok Some r]
    have del: "DeleteSandbox P n (provider pm) = (res, provider pm')" using p(3) by simp
    have "pool_inv live pm'"
    proof (cases res)
      case None
      then show ?thesis
        using inv p(1,4) delete_done [of n "provider pm" "provider pm'"] del
        by (auto simp: pool_inv_def)
    next
      case (Some e)
      then show ?thesis
        using inv p(1,4) delete_error [of n "provider pm" e "provider pm'"] del \<open>registry (store pm) n = Some x\<close>
        by (auto simp: pool_inv_def)
    qed
    then show ?thesis using p(2,6) delete_ready del by auto
  qed
  then show "pool_inv live pm'" and "ready k (provider pm) \<Longrightarrow> ready k (provider pm')"
    and "maxSize pm' = maxSize pm" and "store_len (store pm') \<le> store_len (store pm)"
    by auto
qed

lemma Release_good:
  assumes "pool_good live ready k pm"
  shows "pool_good live ready k (snd (Release P n pm))" and "maxSize (snd (Release P n pm)) = maxSize pm"
  using assms Release_inv [of pm n "fst (Release P n pm)" "snd (Release P n pm)"]
  by (auto simp: pool_good_def)

lemma gc_loop_good:
  "pool_good live ready k pm \<Longrightarrow>
     pool_good live ready k (gc_loop P c as pm) \<and> maxSize (gc_loop P c as pm) = maxSize pm"
proof (induction as arbitrary: pm)
  case (Cons a as)
  then show ?case using Release_good [OF Cons.prems] by (simp add: Let_def)
qed simp

lemma warm_loop_good:
  "pool_good live ready (k + j) pm \<Longrightarrow>
     pool_good live ready j (warm_loop P clock k pm) \<and> maxSize (warm_loop P clock k pm) = maxSize pm"
proof (induction k arbitrary: pm)
  case (Suc k)
  obtain r q where q: "AllocateWarm P (clock k) pm = (r, q)" by (meson surj_pair)
  have "pool_good live ready (k + j) q" and "maxSize q = maxSize pm"
    using AllocateWarm_cases [OF _ _ q] Suc.prems by (auto simp: pool_good_def)
  moreover from this have "pool_good live ready j q" by (induction k) (auto simp: pool_good_def ready_less)
  ultimately show ?case using Suc.IH by (cases r) (simp_all add: q)
qed simp

lemma replenishWarm_good:
  assumes "pool_good live ready (nat (wrap64 (minReady - int (idle_count pm))) + j) pm" and "range_order ord"
  shows "pool_good live ready j (replenishWarm P ord clock minReady pm)"
    and "maxSize (replenishWarm P ord clock minReady pm) = maxSize pm"
  using warm_loop_good [OF assms(1)] Cache_ListByStatus_length [OF assms(2)]
  by (simp_all add: replenishWarm_def Let_def idle_count_def)

lemma Heartbeat_good:
  assumes "pool_good live ready k pm"
  shows "pool_good live ready k (snd (Heartbeat now s pm))" and "maxSize (snd (Heartbeat now s pm)) = maxSize pm"
proof -
  have ok: "store_ok (store pm)" using assms by (simp add: pool_good_def pool_inv_def)
  have "pool_good live ready k (snd (Heartbeat now s pm)) \<and> maxSize (snd (Heartbeat now s pm)) = maxSize pm"
  proof (cases "Cache_GetBySession (index (store pm)) s")
    case (Some a)
    then have a: "Cache_Get (index (store pm)) (SandboxName (cells (store pm) a)) = Some a"
      by (rule store_session_get [OF ok])
    then have "alloc_ok (cells (store pm) a)" and "SandboxName (cells (store pm) a) \<in> live (provider pm)"
      using assms by (auto simp: pool_good_def pool_inv_def registry_def)
    then show ?thesis
      using assms Some registry_write [OF ok a, of "\<lambda>x. x\<lparr>LastActivity := now\<rparr>"] store_ok_write [OF ok, of "\<lambda>x. x\<lparr>LastActivity := now\<rparr>"]
      by (auto simp: Heartbeat_def pool_good_def pool_inv_def alloc_ok_def split: if_splits)
  qed (use assms in \<open>simp add: Heartbeat_def\<close>)
  then show "pool_good live ready k (snd (Heartbeat now s pm))"
    and "maxSize (snd (Heartbeat now s pm)) = maxSize pm" by auto
qed

lemma warm_loop_idle:
  assumes "\<forall>p. \<exists>n f p'. CreateSandbox P p = (Inr (n, f), p')"
    and "pool_good live ready (k + j) pm"
  shows "idle_count (warm_loop P clock k pm) = idle_count pm + min k (nat (maxSize pm - store_len (store pm)))"
  using assms(2)
proof (induction k arbitrary: pm)
  case (Suc k)
  have inv: "pool_inv live pm" and r: "ready (Suc (k + j)) (provider pm)"
    using Suc.prems by (simp_all add: pool_good_def)
  show ?case
  proof (cases "store_len (store pm) \<ge> maxSize pm")
    case True
    then show ?thesis by (simp add: AllocateWarm_def)
  next
    case False
    obtain n f p' where c: "CreateSandbox P (provider pm) = (Inr (n, f), p')" using assms(1) by metis
    obtain res q where w: "AllocateWarm P (clock k) pm = (res, q)" by (meson surj_pair)
    have q: "provider q = p'" "store q = store_new (warm_alloc (clock k) n f) (store pm)" "maxSize q = maxSize pm"
      and res: "\<exists>a. res = Inr a"
      using w c False by (auto simp: AllocateWarm_def)
    have sess: "session_view (store pm) [] = None"
      using inv by (simp add: pool_inv_def shared_cache.by_session_None_iff)
    note new = Allocate_create [OF inv r c, of "warm_alloc (clock k) n f" q]
    have "registry (store pm) n = None" and len: "store_len (store q) = store_len (store pm) + 1"
      using new q sess by (simp_all add: warm_alloc_def alloc_ok_def)
    then have idle: "idle_count q = Suc (idle_count pm)"
      using idle_count_new [OF _ _ q(2)] inv by (simp add: pool_inv_def warm_alloc_def)
    have "pool_good live ready (k + j) q"
      using AllocateWarm_cases [OF inv r w] Suc.prems by (simp add: pool_good_def)
    from Suc.IH [OF this] show ?thesis
      using res w len idle q(3) False by auto
  qed
qed simp

lemma pool_trace_good:
  assumes "pool_trace P pm0 k pm" and "pool_good live ready (k + j) pm0"
  shows "pool_good live ready j pm \<and> maxSize pm = maxSize pm0"
  using assms
proof (induction arbitrary: j rule: pool_trace.induct)
  case (trace_allocate k pm ord e userID)
  then have "pool_good live ready (Suc j) pm" and "maxSize pm = maxSize pm0"
    using trace_allocate.IH [of "Suc j"] by simp_all
  then show ?case
    using Allocate_inv [OF trace_allocate(2) _ _ trace_allocate(3),
        of j userID "fst (Allocate P ord e userID pm)" "snd (Allocate P ord e userID pm)"]
    by (auto simp: pool_good_def)
next
  case (trace_warm k pm now)
  then have "pool_good live ready (Suc j) pm" and "maxSize pm = maxSize pm0"
    using trace_warm.IH [of "Suc j"] by simp_all
  then show ?case
    using AllocateWarm_cases [of pm j now "fst (AllocateWarm P now pm)" "snd (AllocateWarm P now pm)"]
    by (auto simp: pool_good_def)
next
  case (trace_replenish k pm ord minReady clock)
  let ?d = "nat (wrap64 (minReady - int (idle_count pm)))"
  have "pool_good live ready (?d + j) pm" and "maxSize pm = maxSize pm0"
    using trace_replenish.IH [of "?d + j"] trace_replenish.prems by (simp_all add: ac_simps)
  then show ?case using replenishWarm_good trace_replenish.hyps by simp
next
  case (trace_gc k pm ord now idleTimeout)
  then have "pool_good live ready j pm" and "maxSize pm = maxSize pm0" by simp_all
  then show ?case using gc_loop_good [of j pm] by (simp add: RunGC_def Let_def)
next
  case (trace_release k pm n)
  then have "pool_good live ready j pm" and "maxSize pm = maxSize pm0" by simp_all
  then show ?case using Release_good [of j pm n] by simp
next
  case (trace_heartbeat k pm now s)
  then have "pool_good live ready j pm" and "maxSize pm = maxSize pm0" by simp_all
  then show ?case using Heartbeat_good [of j pm now s] by simp
qed simp

end

subsection \<open>What garbage collection does\<close>

text \<open>The effect of the loop on the registry, for a loop that visits \<open>as\<close>: an expired allocation is
  gone, or, if the provider refused to delete it, is marked as releasing; nothing else changes.\<close>

lemma gc_effect_insert:
  assumes "gc_effect P c D R R' n" and "R m = Some x" and "\<not> expired c x"
  shows "gc_effect P c (insert m D) R R' n"
  using assms by (cases "n = m"; cases "R n") (simp_all add: gc_effect_def)

lemma gc_loop_effect:
  assumes "store_ok (store pm)" and "distinct as"
    and "\<And>a. a \<in> set as \<Longrightarrow> Cache_Get (index (store pm)) (SandboxName (cells (store pm) a)) = Some a"
  shows "store_ok (store (gc_loop P c as pm)) \<and>
    (\<forall>n. gc_effect P c ((\<lambda>a. SandboxName (cells (store pm) a)) ` set as)
         (registry (store pm)) (registry (store (gc_loop P c as pm))) n)"
  using assms
proof (induction as arbitrary: pm)
  case Nil
  then show ?case by (auto simp: gc_effect_def split: option.splits)
next
  case (Cons a as)
  let ?x = "cells (store pm) a"
  let ?n = "SandboxName ?x"
  have get: "Cache_Get (index (store pm)) ?n = Some a" using Cons.prems(3) by simp
  have reg: "registry (store pm) ?n = Some ?x" by (simp add: registry_def get)
  have other: "SandboxName (cells (store pm) b) \<noteq> ?n" if "b \<in> set as" for b
    using that Cons.prems(2,3) get by (metis distinct.simps(2) list.set_intros(2) option.inject)
  show ?case
  proof (cases "expired c ?x")
    case False
    have step: "gc_loop P c (a # as) pm = gc_loop P c as pm"
      using False by (cases "Status ?x") (auto simp: expired_def Let_def)
    have IH: "store_ok (store (gc_loop P c as pm)) \<and>
      (\<forall>n. gc_effect P c ((\<lambda>a. SandboxName (cells (store pm) a)) ` set as)
         (registry (store pm)) (registry (store (gc_loop P c as pm))) n)"
      using Cons.IH [OF Cons.prems(1)] Cons.prems(2,3) by simp
    show ?thesis
      unfolding step using IH gc_effect_insert [of P c _ "registry (store pm)" _ _ ?n ?x] reg False by simp
  next
    case True
    obtain r pm1 where rel: "Release P ?n pm = (r, pm1)" by (meson surj_pair)
    note p1 = Release_present [OF Cons.prems(1) reg rel]
    have step: "gc_loop P c (a # as) pm = gc_loop P c as pm1"
      using True rel by (simp add: expired_def Let_def)
    have same: "cells (store pm1) b = cells (store pm) b" if "b \<in> set as" for b
      using p1(7) other [OF that] Cons.prems(3) that by (meson list.set_intros(2))
    have names: "(\<lambda>a. SandboxName (cells (store pm1) a)) ` set as = (\<lambda>a. SandboxName (cells (store pm) a)) ` set as"
      by (intro image_cong) (simp_all add: same)
    have "Cache_Get (index (store pm1)) (SandboxName (cells (store pm1) b)) = Some b" if "b \<in> set as" for b
      using p1(5) other [OF that] Cons.prems(3) that by (simp add: same)
    then have IH: "store_ok (store (gc_loop P c as pm1)) \<and>
      (\<forall>n. gc_effect P c ((\<lambda>a. SandboxName (cells (store pm1) a)) ` set as)
         (registry (store pm1)) (registry (store (gc_loop P c as pm1))) n)"
      using Cons.IH [OF p1(1)] Cons.prems(2) by simp
    have failed: "\<exists>q. fst (DeleteSandbox P ?n q) \<noteq> None" if "r \<noteq> None"
      using p1(3) that by (metis fst_conv)
    have not_exp: "\<not> expired c (?x\<lparr>Status := StatusReleasing\<rparr>)" by (simp add: expired_def)
    show ?thesis
    proof (intro conjI allI)
      show "store_ok (store (gc_loop P c (a # as) pm))" unfolding step using IH by simp
      fix n
      show "gc_effect P c ((\<lambda>a. SandboxName (cells (store pm) a)) ` set (a # as))
         (registry (store pm)) (registry (store (gc_loop P c (a # as) pm))) n"
      proof (cases "n = ?n")
        case True
        then show ?thesis
          using IH [THEN conjunct2, rule_format, of ?n] reg p1(4) failed not_exp \<open>expired c ?x\<close>
          unfolding step by (auto simp: gc_effect_def split: if_splits)
      next
        case False
        then show ?thesis
          using IH [THEN conjunct2, rule_format, of n] p1(4) names
          unfolding step by (auto simp: gc_effect_def split: option.splits)
      qed
    qed
  qed
qed

lemma RunGC_effect:
  assumes "range_order ord" and "store_ok (store pm)"
  shows "store_ok (store (RunGC P ord now d pm))"
    and "gc_effect P (now + wrap64 (- d)) UNIV (registry (store pm)) (registry (store (RunGC P ord now d pm))) n"
proof -
  let ?as = "Cache_List ord (index (store pm))"
  have cok: "cache_ok (cells (store pm)) (index (store pm))" using assms by (simp add: store_ok_def)
  have mem: "a \<in> set ?as \<longleftrightarrow> (\<exists>n. Cache_Get (index (store pm)) n = Some a)" for a
    by (rule Cache_List_set [OF assms(1) cache_okD(1) [OF cok]])
  have get: "Cache_Get (index (store pm)) (SandboxName (cells (store pm) a)) = Some a" if "a \<in> set ?as" for a
    using that cache_okD(3) [OF cok] by (auto simp: mem)
  note eff = gc_loop_effect [OF assms(2) Cache_List_distinct [OF assms(1) cok] get, of P "now + wrap64 (- d)"]
  show "store_ok (store (RunGC P ord now d pm))" using eff by (simp add: RunGC_def)
  have vis: "n \<in> (\<lambda>a. SandboxName (cells (store pm) a)) ` set ?as" if "registry (store pm) n = Some x" for x
    using that cache_okD(3) [OF cok] mem by (fastforce simp: registry_def)
  show "gc_effect P (now + wrap64 (- d)) UNIV (registry (store pm)) (registry (store (RunGC P ord now d pm))) n"
    using eff [THEN conjunct2, rule_format, of n] vis
    by (cases "registry (store pm) n") (auto simp: RunGC_def Let_def gc_effect_def)
qed

lemma registry_empty [simp]: "registry empty_store n = None"
  by (simp add: registry_def empty_store_def NewAllocationCache_def Cache_Get_def)

lemma store_len_empty [simp]: "store_len empty_store = 0"
  by (simp add: store_len_def empty_store_def NewAllocationCache_def Cache_Len_def)

lemma new_pool_good:
  "ready k p \<Longrightarrow> 0 \<le> maxSz \<Longrightarrow> pool_good live ready k (NewPoolManager p maxSz ns empty_store m)"
  by (simp add: pool_good_def pool_inv_def NewPoolManager_def)

lemma session_view_empty [simp]: "session_view empty_store s = None"
  by (simp add: session_view_def empty_store_def NewAllocationCache_def Cache_GetBySession_def)

lemma pool_invD:
  assumes "pool_inv live pm"
  shows "store_ok (store pm)"
    and "registry (store pm) n = Some x \<Longrightarrow> n \<in> live (provider pm) \<and> alloc_ok x"
  using assms by (simp_all add: pool_inv_def)

lemma session_after_claim:
  assumes ok: "store_ok S" "store_ok S'" and reg: "registry S' = (registry S)(n \<mapsto> y)"
    and x: "registry S n = Some x" "SessionID x = []"
    and y: "SandboxName y = n" "SessionID y \<noteq> []" and fresh: "session_view S (SessionID y) = None"
  shows "session_view S' s = (if s = SessionID y then Some y else session_view S s)"
proof (rule option_eqI)
  fix z
  have none: "registry S m = Some w \<Longrightarrow> SessionID w \<noteq> SessionID y" for m w
    using fresh shared_cache.by_session_None_iff [OF ok(1)] y(2) by blast
  show "session_view S' s = Some z \<longleftrightarrow> (if s = SessionID y then Some y else session_view S s) = Some z"
    using x y none shared_cache.by_name_name [OF ok(1)]
    by (auto simp: shared_cache.by_session_iff [OF ok(1)] shared_cache.by_session_iff [OF ok(2)] reg split: if_splits)
qed

text \<open>The shape of a successful allocation, whether it claims or creates.\<close>

lemma Allocate_success_cases:
  assumes "Allocate P ord e u pm = (Inr a, pm')"
  obtains (claim) "claimIdle ord e u pm = (Some a, pm')"
  | (new) n f p' where "Cache_ListByStatus ord (cells (store pm)) StatusIdle (index (store pm)) = []"
      "store_len (store pm) < maxSize pm" "CreateSandbox P (provider pm) = (Inr (n, f), p')"
      "provider pm' = p'" "store pm' = store_new (active_alloc e u n f) (store pm)"
      "maxSize pm' = maxSize pm" "a = next_cell (store pm)"
  using assms
  by (fastforce simp: Allocate_def claimIdle_None Let_def split: if_splits prod.splits sum.splits option.splits)

text \<open>The sample pool, and the sample pool after one allocation.\<close>

lemma sample_pool_inv: "pool_inv mock_live (sample_pool n)"
  by (simp add: sample_pool_def pool_inv_def NewPoolManager_def)

lemma sample_pool_ready: "mock_ready (Suc 4) (provider (sample_pool n))"
  by (simp add: sample_pool_def NewPoolManager_def mock_ready_def NewMockSandboxProvider_def)

lemma sample_alloc_eq:
  assumes "0 < n"
  shows "sample_alloc t u (sample_pool n) =
    (Inr 0, (sample_pool n)\<lparr>provider := \<lparr>targetFQDN = ''localhost:4096'', counter = 1\<rparr>,
       store := store_new (active_alloc (sample_env t u) ''alice'' ''mock-sandbox-1'' ''localhost:4096'') empty_store\<rparr>)"
proof -
  have "itoa 1 = ''1''" by code_simp
  with assms show ?thesis
    by (simp add: sample_alloc_def Allocate_def claimIdle_def sample_pool_def NewPoolManager_def empty_store_def
      NewAllocationCache_def Cache_ListByStatus_def store_len_def Cache_Len_def mock_provider_def
      Mock_CreateSandbox_def NewMockSandboxProvider_def Let_def in_int64_def record_count_def)
qed

lemma sample_warm_eq:
  assumes "0 < n"
  shows "AllocateWarm mock_provider t (sample_pool n) =
    (Inr 0, (sample_pool n)\<lparr>provider := \<lparr>targetFQDN = ''localhost:4096'', counter = 1\<rparr>,
       store := store_new (warm_alloc t ''mock-sandbox-1'' ''localhost:4096'') empty_store\<rparr>)"
proof -
  have "itoa 1 = ''1''" by code_simp
  with assms show ?thesis
    by (simp add: AllocateWarm_def sample_pool_def NewPoolManager_def empty_store_def
      NewAllocationCache_def store_len_def Cache_Len_def mock_provider_def
      Mock_CreateSandbox_def NewMockSandboxProvider_def Let_def in_int64_def record_count_def)
qed

lemma sample_warm_inv: "0 < n \<Longrightarrow> pool_inv mock_live (snd (AllocateWarm mock_provider t (sample_pool n)))"
  using mock.AllocateWarm_cases(1) [OF sample_pool_inv sample_pool_ready] by (metis prod.collapse)

text \<open>What a successful allocation does to the store.\<close>

lemma Allocate_returns:
  assumes "sandbox_provider P live ready" and "range_order ord" and "pool_inv live pm"
    and "ready (Suc k) (provider pm)" and "env_fresh e (store pm)"
    and "Allocate P ord e u pm = (Inr a, pm')"
  shows "Status (alloc_at pm' a) = StatusActive \<and> UserID (alloc_at pm' a) = u \<and>
    SessionID (alloc_at pm' a) = env_uuid e \<and> LastActivity (alloc_at pm' a) = env_now e \<and>
    registry (store pm') = (registry (store pm))(SandboxName (alloc_at pm' a) \<mapsto> alloc_at pm' a) \<and>
    session_view (store pm') =
      (session_view (store pm))(env_uuid e \<mapsto> alloc_at pm' a)"
  using assms(6)
proof (cases rule: Allocate_success_cases)
  case claim
  obtain n x where x: "registry (store pm) n = Some x" "Status x = StatusIdle" "SandboxName x = n"
    and at: "alloc_at pm' a = claimed e u x"
    and reg: "registry (store pm') = (registry (store pm))(n \<mapsto> claimed e u x)"
    and ok': "store_ok (store pm')"
    by (rule claimIdle_Some [OF assms(2,3,5) claim])
  have "SessionID x = []" using x assms(3) by (auto simp: pool_inv_def alloc_ok_def)
  with session_after_claim [OF pool_invD(1) [OF assms(3)] ok' reg x(1)] x at reg assms(5)
  show ?thesis by (auto simp: claimed_def env_fresh_def)
next
  case (new n f p')
  have at: "alloc_at pm' a = active_alloc e u n f"
    using new by (simp add: alloc_at_def store_new_def Let_def)
  show ?thesis
    using sandbox_provider.Allocate_create [OF assms(1,3,4) new(3), of "active_alloc e u n f" pm'] new at assms(5)
    by (auto simp: active_alloc_def alloc_ok_def env_fresh_def)
qed

text \<open>A collection does not touch an allocation that is marked as releasing.\<close>

lemma releasing_stays:
  assumes "store_ok (store pm)" and "registry (store pm) n = Some x" "Status x = StatusReleasing" and "range_order ord"
  shows "registry (store (RunGC P ord now idleTimeout pm)) n = Some x"
  using RunGC_effect(2) [OF assms(4,1), of P now idleTimeout n] assms(2,3) by (simp add: gc_effect_def expired_def)

section \<open>Properties\<close>

text \<open>C1: Every history of calls on a new pool, over any provider that honours its contract, leaves at most
  \<^verbatim>\<open>maxSize\<close> allocations in the cache; the session index is exactly the index by session of the
  allocations in the name index; and every allocation is filed under its own name, has a live sandbox,
  and has a session if it is active and none if it is idle.\<close>

theorem pool_safety:
  assumes "sandbox_provider P live ready"
    and "pool_trace P (NewPoolManager p maxSz ns empty_store m) k pm"
    and "ready k p" and "0 \<le> maxSz"
  shows "store_len (store pm) \<le> maxSz \<and>
    (\<forall>s x. session_view (store pm) s = Some x \<longleftrightarrow>
       s \<noteq> [] \<and> SessionID x = s \<and> registry (store pm) (SandboxName x) = Some x) \<and>
    (\<forall>n x. registry (store pm) n = Some x \<longrightarrow>
       SandboxName x = n \<and> n \<in> live (provider pm) \<and>
       (Status x = StatusIdle \<longrightarrow> SessionID x = []) \<and> (Status x = StatusActive \<longrightarrow> SessionID x \<noteq> []))"
proof -
  have "pool_good live ready (k + 0) (NewPoolManager p maxSz ns empty_store m)"
    using assms(3,4) by (simp add: new_pool_good)
  then have good: "pool_good live ready 0 pm" and sz: "maxSize pm = maxSz"
    using sandbox_provider.pool_trace_good [OF assms(1,2), of 0] by (simp_all add: NewPoolManager_def)
  have ok: "store_ok (store pm)" using good by (simp add: pool_good_def pool_inv_def)
  have "\<forall>s x. session_view (store pm) s = Some x \<longleftrightarrow>
      s \<noteq> [] \<and> SessionID x = s \<and> registry (store pm) (SandboxName x) = Some x"
    using shared_cache.by_session_iff [OF ok] by blast
  with good sz shared_cache.by_name_name [OF ok] show ?thesis
    by (simp add: pool_good_def pool_inv_def alloc_ok_def)
qed

theorem pool_safety_witness: "store_len (store (snd (sample_alloc 1 ''u1'' (sample_pool 1)))) \<le> 1"
proof -
  have "pool_trace mock_provider (sample_pool 1) (Suc 0) (snd (sample_alloc 1 ''u1'' (sample_pool 1)))"
    unfolding sample_alloc_def
    by (rule trace_allocate [OF trace_new]) (simp_all add: env_fresh_def sample_pool_def sample_env_def NewPoolManager_def)
  then show ?thesis
    using pool_safety [OF mock.sandbox_provider_axioms, of "NewMockSandboxProvider ''localhost:4096''" 1]
    by (simp add: sample_pool_def mock_ready_def NewMockSandboxProvider_def)
qed

text \<open>C7: A successful \<^verbatim>\<open>Allocate\<close> returns an active allocation of the calling user under the fresh session
  ID; from then on that session resolves to exactly this allocation, and no other session and no other
  sandbox is affected.\<close>

theorem Allocate_success:
  assumes "sandbox_provider P live ready" and "range_order ord" and "pool_inv live pm"
    and "ready (Suc k) (provider pm)" and "env_fresh e (store pm)"
    and "Allocate P ord e u pm = (Inr a, pm')"
  shows "Status (alloc_at pm' a) = StatusActive \<and> UserID (alloc_at pm' a) = u \<and>
    SessionID (alloc_at pm' a) = env_uuid e \<and> LastActivity (alloc_at pm' a) = env_now e \<and>
    registry (store pm') = (registry (store pm))(SandboxName (alloc_at pm' a) \<mapsto> alloc_at pm' a) \<and>
    session_view (store pm') =
      (session_view (store pm))(env_uuid e \<mapsto> alloc_at pm' a)"
  using assms by (rule Allocate_returns)

theorem Allocate_success_witness:
  "session_view (store (snd (sample_alloc 1 ''u1'' (sample_pool 1)))) ''u1'' =
     Some (alloc_at (snd (sample_alloc 1 ''u1'' (sample_pool 1))) 0)"
proof -
  have f: "env_fresh (sample_env 1 ''u1'') (store (sample_pool 1))"
    by (simp add: env_fresh_def sample_env_def sample_pool_def NewPoolManager_def)
  have al: "Allocate mock_provider (\<lambda>xs. xs) (sample_env 1 ''u1'') ''alice'' (sample_pool 1)
      = (Inr 0, snd (sample_alloc 1 ''u1'' (sample_pool 1)))"
    using sample_alloc_eq [of 1 1 "''u1''"] by (simp add: sample_alloc_def)
  show ?thesis
    using Allocate_success [OF mock.sandbox_provider_axioms range_order_id sample_pool_inv sample_pool_ready f al]
    by (simp add: sample_env_def)
qed

text \<open>C8: \<^verbatim>\<open>Allocate\<close> fails exactly when no allocation is idle and either the cache has reached
  \<^verbatim>\<open>maxSize\<close> or \<^verbatim>\<open>CreateSandbox\<close> fails. In the first case the error is \<^verbatim>\<open>ErrPoolExhausted\<close> and nothing
  changes (the provider is not asked); in the second the error is the provider's own, returned as it
  is, and only the provider's state changes. So a failed allocation loses none and leaves none behind.\<close>

theorem Allocate_failure:
  assumes "range_order ord" and "store_ok (store pm)"
  shows "Allocate P ord e u pm = (Inl err, pm') \<longleftrightarrow>
    (\<forall>n x. registry (store pm) n = Some x \<longrightarrow> Status x \<noteq> StatusIdle) \<and>
    (if maxSize pm \<le> store_len (store pm) then err = ErrPoolExhausted \<and> pm' = pm
     else fst (CreateSandbox P (provider pm)) = Inl err \<and>
          pm' = pm\<lparr>provider := snd (CreateSandbox P (provider pm))\<rparr>)"
proof (cases "Cache_ListByStatus ord (cells (store pm)) StatusIdle (index (store pm)) = []")
  case True
  with no_idle_iff [OF assms] show ?thesis
    by (auto simp: Allocate_def claimIdle_def Let_def split: if_splits prod.splits sum.splits)
next
  case False
  then have "fst (Allocate P ord e u pm) \<noteq> Inl err"
    by (auto simp: Allocate_def claimIdle_None Let_def split: if_splits prod.splits sum.splits option.splits)
  with False no_idle_iff [OF assms] show ?thesis by auto
qed

theorem Allocate_failure_witness:
  "Allocate mock_provider (\<lambda>xs. xs) (sample_env 1 ''u1'') ''bob'' (sample_pool 0) =
     (Inl ErrPoolExhausted, sample_pool 0) \<and>
   fst (Allocate mock_provider (\<lambda>xs. xs) (sample_env 1 ''u1'') ''bob'' (sample_pool 1)) \<noteq> Inl ErrPoolExhausted"
proof -
  note iff = Allocate_failure [OF range_order_id pool_invD(1) [OF sample_pool_inv]]
  have empty: "registry (store (sample_pool k)) n = None" for k n
    by (simp add: sample_pool_def NewPoolManager_def)
  have len: "store_len (store (sample_pool k)) = 0" and max: "maxSize (sample_pool k) = k" for k
    by (simp_all add: sample_pool_def NewPoolManager_def)
  have "\<nexists>pm'. Allocate mock_provider (\<lambda>xs. xs) (sample_env 1 ''u1'') ''bob'' (sample_pool 1) =
      (Inl ErrPoolExhausted, pm')"
    unfolding iff by (simp add: len max) (simp add: mock_provider_def Mock_CreateSandbox_def Let_def)
  then have "fst (Allocate mock_provider (\<lambda>xs. xs) (sample_env 1 ''u1'') ''bob'' (sample_pool 1)) \<noteq> Inl ErrPoolExhausted"
    by (metis prod.collapse)
  then show ?thesis by (simp add: iff empty len max)
qed

text \<open>When an idle (warm) sandbox is cached, \<^verbatim>\<open>Allocate\<close> always succeeds, even in a full pool: it hands
  out one of the idle sandboxes without calling the provider and without changing the number of
  allocations.\<close>

theorem Allocate_prefers_warm:
  assumes "range_order ord" and "pool_inv live pm" and "env_fresh e (store pm)"
    and "registry (store pm) n0 = Some x0" and "Status x0 = StatusIdle"
  shows "\<exists>a pm' n x. Allocate P ord e u pm = (Inr a, pm') \<and>
    registry (store pm) n = Some x \<and> Status x = StatusIdle \<and>
    registry (store pm') = (registry (store pm))(n \<mapsto> x\<lparr>Status := StatusActive, UserID := u,
      SessionID := env_uuid e, LastActivity := env_now e\<rparr>) \<and>
    provider pm' = provider pm \<and> store_len (store pm') = store_len (store pm)"
proof -
  obtain a pm' where claim: "claimIdle ord e u pm = (Some a, pm')"
    using no_idle_iff [OF assms(1) pool_invD(1) [OF assms(2)]] assms(4,5)
    by (fastforce simp: claimIdle_def Let_def split: list.splits)
  then have "Allocate P ord e u pm = (Inr a, pm')" by (simp add: Allocate_def)
  with claimIdle_Some [OF assms(1-3) claim] show ?thesis unfolding claimed_def by metis
qed

theorem Allocate_prefers_warm_witness:
  "\<exists>a pm'. Allocate mock_provider (\<lambda>xs. xs) (sample_env 2 ''u2'') ''bob''
     (snd (AllocateWarm mock_provider 1 (sample_pool 1))) = (Inr a, pm') \<and> store_len (store pm') = 1"
proof -
  let ?pm = "snd (AllocateWarm mock_provider 1 (sample_pool 1))"
  have st: "store ?pm = store_new (warm_alloc 1 ''mock-sandbox-1'' ''localhost:4096'') empty_store"
    by (simp add: sample_warm_eq)
  have x: "registry (store ?pm) ''mock-sandbox-1'' = Some (warm_alloc 1 ''mock-sandbox-1'' ''localhost:4096'')"
    unfolding st by (simp add: registry_new warm_alloc_def)
  have f: "env_fresh (sample_env 2 ''u2'') (store ?pm)"
    unfolding st env_fresh_def
    by (simp add: sample_env_def warm_alloc_def shared_cache.put_session)
  have len: "store_len (store ?pm) = 1" unfolding st by (simp add: shared_cache.put_size)
  show ?thesis
    using Allocate_prefers_warm [OF range_order_id sample_warm_inv f x, where P = mock_provider] len
    by (fastforce simp: warm_alloc_def)
qed

text \<open>C9: \<^verbatim>\<open>Release\<close> of a sandbox the cache does not hold succeeds and changes nothing; the provider is
  not asked. \<^verbatim>\<open>Release\<close> of a cached sandbox asks the provider to delete it; if the provider does, the
  sandbox is gone from both indexes, the count drops by one and a second release is a no-op that
  succeeds; if it refuses, its error is returned and the allocation stays, marked as releasing.\<close>

theorem Release_outcome:
  assumes "store_ok (store pm)" and "Release P n pm = (res, pm')"
  shows "case registry (store pm) n of
      None \<Rightarrow> res = None \<and> pm' = pm
    | Some x \<Rightarrow> res = fst (DeleteSandbox P n (provider pm)) \<and>
       (if res = None
        then registry (store pm') = (registry (store pm))(n := None) \<and>
             (\<forall>s. session_view (store pm') s = (if s = SessionID x then None else session_view (store pm) s)) \<and>
             store_len (store pm') = store_len (store pm) - 1 \<and> Release P n pm' = (None, pm')
        else registry (store pm') = (registry (store pm))(n \<mapsto> x\<lparr>Status := StatusReleasing\<rparr>) \<and>
             store_len (store pm') = store_len (store pm))"
proof (cases "registry (store pm) n")
  case None
  with assms(2) show ?thesis by (simp add: Release_absent)
next
  case (Some x)
  note p = Release_present [OF assms(1) Some assms(2)]
  have res: "res = fst (DeleteSandbox P n (provider pm))" using p(3) by (metis fst_conv)
  show ?thesis
  proof (cases res)
    case None
    then have reg: "registry (store pm') = (registry (store pm))(n := None)" using p(4) by simp
    have "session_view (store pm') s = (if s = SessionID x then None else session_view (store pm) s)" for s
      using shared_cache.del_session [OF assms(1), of n s] Some
        shared_cache.by_session_cong [OF p(1) store_ok_delete [OF assms(1), of n]]
      by (simp add: reg registry_delete split: if_splits)
    with None Some reg res p(6) show ?thesis by (simp add: Release_absent)
  qed (use p(4,6) res Some in simp)
qed

theorem Release_outcome_witness:
  "registry (store (snd (Release mock_provider ''mock-sandbox-1'' (snd (sample_alloc 1 ''u1'' (sample_pool 1))))))
     ''mock-sandbox-1'' = None \<and>
   Release mock_provider ''mock-sandbox-2'' (sample_pool 1) = (None, sample_pool 1)"
proof -
  let ?pm = "snd (sample_alloc 1 ''u1'' (sample_pool 1))"
  let ?x = "active_alloc (sample_env 1 ''u1'') ''alice'' ''mock-sandbox-1'' ''localhost:4096''"
  have ok: "store_ok (store ?pm)"
    by (simp add: sample_alloc_eq store_ok_new)
  have x: "registry (store ?pm) ''mock-sandbox-1'' = Some ?x"
    by (simp add: sample_alloc_eq registry_new active_alloc_def)
  have empty: "registry (store (sample_pool 1)) n = None" for n
    by (simp add: sample_pool_def NewPoolManager_def)
  obtain r1 p1 where r1: "Release mock_provider ''mock-sandbox-1'' ?pm = (r1, p1)" by (meson surj_pair)
  obtain r2 p2 where r2: "Release mock_provider ''mock-sandbox-2'' (sample_pool 1) = (r2, p2)" by (meson surj_pair)
  have "registry (store p1) ''mock-sandbox-1'' = None"
    using Release_outcome [OF ok r1] x by (simp add: Mock_Delete_step)
  moreover have "r2 = None \<and> p2 = sample_pool 1"
    using Release_outcome [OF pool_invD(1) [OF sample_pool_inv] r2] empty by simp
  ultimately show ?thesis using r1 r2 by simp
qed

text \<open>C10: A collection releases exactly the active allocations whose last activity is before the cutoff
  \<^verbatim>\<open>now - idleTimeout\<close>: with a provider that deletes what it is asked to, precisely these are gone
  afterwards and every other allocation, idle and releasing ones included, is unchanged, in whatever
  order the map is visited.\<close>

theorem RunGC_exact:
  assumes "range_order ord" and "store_ok (store pm)"
    and "\<forall>n p. fst (DeleteSandbox P n p) = None"
    and "in_int64 idleTimeout" and "idleTimeout \<noteq> - 9223372036854775808"
  shows "registry (store (RunGC P ord now idleTimeout pm)) n =
    (case registry (store pm) n of
       None \<Rightarrow> None
     | Some x \<Rightarrow>
         if Status x = StatusActive \<and> LastActivity x < now - idleTimeout then None else Some x)"
proof -
  have "wrap64 (- idleTimeout) = - idleTimeout"
    using assms(4,5) by (intro wrap64_id) (auto simp: in_int64_def)
  then show ?thesis
    using RunGC_effect(2) [OF assms(1,2), of P now idleTimeout n] assms(3)
    by (auto simp: gc_effect_def expired_def split: option.splits if_splits)
qed

theorem RunGC_exact_witness:
  "registry (store (RunGC mock_provider rev 601 600 (snd (sample_alloc 0 ''u1'' (sample_pool 1)))))
     ''mock-sandbox-1'' = None"
proof -
  let ?pm = "snd (sample_alloc 0 ''u1'' (sample_pool 1))"
  have ok: "store_ok (store ?pm)" by (simp add: sample_alloc_eq store_ok_new)
  have ord: "range_order rev" by (simp add: range_order_def)
  show ?thesis
    using RunGC_exact [OF ord ok, of mock_provider 600 601 "''mock-sandbox-1''"]
    by (simp add: sample_alloc_eq registry_new active_alloc_def sample_env_def Mock_Delete_step in_int64_def)
qed

text \<open>An allocation whose deletion the provider refused is lost to the collector: the failed
  \<^verbatim>\<open>Release\<close> leaves it marked as releasing, it keeps counting against \<^verbatim>\<open>maxSize\<close>, and no later
  collection, at whatever time and with whatever timeout, touches it again.\<close>

theorem Release_failure_leaks_slot:
  assumes "store_ok (store pm)" and "registry (store pm) n = Some x"
    and "Release P n pm = (Some err, pm')" and "range_order ord"
  shows "registry (store (RunGC Q ord now idleTimeout pm')) n = Some (x\<lparr>Status := StatusReleasing\<rparr>) \<and>
    store_len (store pm') = store_len (store pm)"
proof -
  note p = Release_present [OF assms(1-3)]
  then have "registry (store pm') n = Some (x\<lparr>Status := StatusReleasing\<rparr>)" by simp
  from releasing_stays [OF p(1) this _ assms(4)] p(6) show ?thesis by simp
qed

text \<open>A provider that creates but refuses every deletion, for the witness.\<close>

theorem Release_failure_leaks_slot_witness:
  "registry (store (RunGC mock_provider (\<lambda>xs. xs) 1000000 0
      (snd (Release (mock_provider\<lparr>DeleteSandbox := \<lambda>n p. (Some (Errorf ''forbidden''), p)\<rparr>)
         ''mock-sandbox-1'' (snd (sample_alloc 0 ''u1'' (sample_pool 1))))))) ''mock-sandbox-1'' \<noteq> None"
proof -
  let ?pm = "snd (sample_alloc 0 ''u1'' (sample_pool 1))"
  let ?P = "mock_provider\<lparr>DeleteSandbox := \<lambda>n p. (Some (Errorf ''forbidden''), p)\<rparr>"
  let ?x = "active_alloc (sample_env 0 ''u1'') ''alice'' ''mock-sandbox-1'' ''localhost:4096''"
  have ok: "store_ok (store ?pm)" by (simp add: sample_alloc_eq store_ok_new)
  have x: "registry (store ?pm) ''mock-sandbox-1'' = Some ?x"
    by (simp add: sample_alloc_eq registry_new active_alloc_def)
  obtain r q where r: "Release ?P ''mock-sandbox-1'' ?pm = (r, q)" by (meson surj_pair)
  have "r = Some (Errorf ''forbidden'')" using Release_present(3) [OF ok x r] by simp
  with Release_failure_leaks_slot [OF ok x _ range_order_id, of ?P "Errorf ''forbidden''" q mock_provider 1000000 0] r
  show ?thesis by simp
qed

text \<open>A heartbeat keeps a session alive: after a successful \<^verbatim>\<open>Heartbeat\<close> at time \<open>t\<close>, the session's
  allocation survives every collection that runs no later than \<open>t + idleTimeout\<close>.\<close>

theorem Heartbeat_protects:
  assumes "store_ok (store pm)" and "Heartbeat t s pm = (None, pm')" and "range_order ord"
    and "0 \<le> idleTimeout" and "in_int64 idleTimeout" and "now \<le> t + idleTimeout"
  shows "\<exists>x. session_view (store pm) s = Some x \<and>
    session_view (store (RunGC P ord now idleTimeout pm')) s = Some (x\<lparr>LastActivity := t\<rparr>)"
proof -
  let ?f = "\<lambda>x. x\<lparr>LastActivity := t\<rparr>"
  obtain a where a: "Cache_GetBySession (index (store pm)) s = Some a"
    and pm': "store pm' = store_write a ?f (store pm)"
    using assms(2) by (auto simp: Heartbeat_def split: option.splits)
  let ?x = "cells (store pm) a"
  note sg = store_session_get [OF assms(1) a]
  have ok: "store_ok (store pm')" unfolding pm' by (rule store_ok_write [OF assms(1)]) simp_all
  have reg: "registry (store pm') (SandboxName ?x) = Some (?f ?x)"
    unfolding pm' using registry_write [OF assms(1) sg(1), of ?f] by simp
  have "wrap64 (- idleTimeout) = - idleTimeout"
    using assms(4,5) by (intro wrap64_id) (auto simp: in_int64_def)
  then have keep: "registry (store (RunGC P ord now idleTimeout pm')) (SandboxName ?x) = Some (?f ?x)"
    using RunGC_effect(2) [OF assms(3) ok, of P now idleTimeout "SandboxName ?x"] reg assms(6)
    by (simp add: gc_effect_def expired_def)
  have "session_view (store (RunGC P ord now idleTimeout pm')) s = Some (?f ?x)"
    using keep sg by (simp add: shared_cache.by_session_iff [OF RunGC_effect(1) [OF assms(3) ok]])
  moreover have "session_view (store pm) s = Some ?x" using a by (simp add: session_view_def)
  ultimately show ?thesis by blast
qed

theorem Heartbeat_protects_witness:
  "session_view (store (RunGC mock_provider rev 700 600
     (snd (Heartbeat 100 ''u1'' (snd (sample_alloc 0 ''u1'' (sample_pool 1))))))) ''u1'' \<noteq> None"
proof -
  let ?pm = "snd (sample_alloc 0 ''u1'' (sample_pool 1))"
  have ok: "store_ok (store ?pm)" by (simp add: sample_alloc_eq store_ok_new)
  have ord: "range_order rev" by (simp add: range_order_def)
  have "fst (Heartbeat 100 ''u1'' ?pm) = None"
    by (simp add: Heartbeat_def sample_alloc_eq store_new_def Let_def Cache_GetBySession_Set active_alloc_def sample_env_def)
  then have hb: "Heartbeat 100 ''u1'' ?pm = (None, snd (Heartbeat 100 ''u1'' ?pm))"
    by (metis prod.collapse)
  show ?thesis
    using Heartbeat_protects [OF ok hb ord, of 600 700 mock_provider] by (auto simp: in_int64_def)
qed

text \<open>\<^verbatim>\<open>replenishWarm\<close> tops the idle sandboxes up to \<^verbatim>\<open>minReady\<close>, or as far as the pool size allows,
  and never beyond; with a provider that does not fail it reaches that number.\<close>

theorem replenishWarm_target:
  assumes "sandbox_provider P live ready" and "range_order ord"
    and "\<forall>p. \<exists>n f p'. CreateSandbox P p = (Inr (n, f), p')"
    and "pool_good live ready (nat minReady) pm" and "0 \<le> minReady"
    and "in_int64 minReady" and "in_int64 (maxSize pm)"
  shows "int (idle_count (replenishWarm P ord clock minReady pm)) =
    max (int (idle_count pm))
        (min minReady (int (idle_count pm) + (maxSize pm - store_len (store pm))))"
proof -
  let ?i = "int (idle_count pm)" and ?d = "minReady - int (idle_count pm)"
  have "?i \<le> maxSize pm" and len: "store_len (store pm) \<le> maxSize pm"
    using assms(4) idle_count_le_len [of pm] by (auto simp: pool_good_def)
  then have d: "wrap64 ?d = ?d" using assms(5-7) by (intro wrap64_id) (auto simp: in_int64_def)
  have "nat minReady = nat ?d + (nat minReady - nat ?d)" by simp
  then have good: "pool_good live ready (nat ?d + (nat minReady - nat ?d)) pm" using assms(4) by metis
  have "replenishWarm P ord clock minReady pm = warm_loop P clock (nat ?d) pm"
    using Cache_ListByStatus_length [OF assms(2)] d by (simp add: replenishWarm_def Let_def idle_count_def)
  then show ?thesis
    using sandbox_provider.warm_loop_idle [OF assms(1,3) good, of clock] len by auto
qed

theorem replenishWarm_target_witness:
  "idle_count (replenishWarm mock_provider rev (\<lambda>_. 0) 3 (sample_pool 2)) = 2"
proof -
  have ord: "range_order rev" by (simp add: range_order_def)
  have rel: "\<forall>p. \<exists>n f p'. CreateSandbox mock_provider p = (Inr (n, f), p')"
    by (simp add: mock_provider_def Mock_CreateSandbox_def Let_def)
  have good: "pool_good mock_live mock_ready (nat 3) (sample_pool 2)"
    unfolding sample_pool_def by (rule new_pool_good) (simp_all add: mock_ready_def NewMockSandboxProvider_def)
  have "idle_count (sample_pool 2) = 0"
    by (simp add: idle_count_def sample_pool_def NewPoolManager_def empty_store_def NewAllocationCache_def
        Cache_ListByStatus_def)
  then show ?thesis
    using replenishWarm_target [OF mock.sandbox_provider_axioms ord rel good, of "\<lambda>_. 0"]
    by (simp add: in_int64_def) (simp add: sample_pool_def NewPoolManager_def)
qed

end
