(* ===== verification/Pool_Concurrency.thy ===== *)
theory Pool_Concurrency
  imports Pool_Manager
begin

text \<open>
  Concurrent calls of the pool manager, \<^verbatim>\<open>internal/pool/manager.go\<close>.

  Requests, activities, the garbage collector and the warm pool run on goroutines of their own, so calls
  of \<^verbatim>\<open>Allocate\<close>, \<^verbatim>\<open>AllocateWarm\<close>, \<^verbatim>\<open>Release\<close>, \<^verbatim>\<open>Heartbeat\<close> and \<^verbatim>\<open>RunGC\<close> interleave.  A goroutine runs one call, with its own
  clock readings and UUID.  A step of a goroutine is what it does without being observable in between: one
  operation of the cache (which takes the lock of the cache), one call of the provider, one assignment or read of a
  field of an \<^verbatim>\<open>Allocation\<close>, one use of the metrics.  The mutex of the manager, \<^verbatim>\<open>mu\<close>, is part of the state: \<^verbatim>\<open>claimIdle\<close>
  keeps it from its look at the cache to its end, the capacity checks and \<^verbatim>\<open>Heartbeat\<close> take it for a single
  step, and \<^verbatim>\<open>Release\<close> and \<^verbatim>\<open>RunGC\<close> never take it.  Field accesses take effect in program order.

  \<open>thread_step\<close> is a step of one goroutine, \<open>conc_step\<close> a step of any, \<open>conc_reach\<close> any interleaving.
  The calls of \<open>Pool_Manager\<close> are the runs of a single goroutine (\<open>solo_call_is_sequential\<close>).
\<close>

section \<open>Definitions\<close>

subsection \<open>Calls and program points\<close>

datatype pool_call =
    CallAllocate string
  | CallWarm
  | CallRelease string
  | CallHeartbeat string
  | CallGC int

datatype call_result =
    Allocated "go_error + addr"
  | Warmed "go_error + addr"
  | Done "go_error option"

text \<open>Where a \<^verbatim>\<open>Release\<close> returns to: its caller, or a collection with its cutoff and the allocations it has
  still to visit.  \<open>Claiming k u a\<close>: \<open>k\<close> of the four fields of \<open>a\<close> are assigned.  The user of an
  \<^verbatim>\<open>Allocate\<close> is \<open>Some u\<close>, that of an \<^verbatim>\<open>AllocateWarm\<close> is \<open>None\<close>.\<close>

type_synonym return_to = "(int \<times> addr list) option"

datatype call_pc =
    ClaimList string
  | Claiming nat string addr
  | Checking "string option"
  | Creating "string option"
  | Created "string option" string string
  | Inserted "string option" addr
  | RelGet string return_to
  | RelMark addr string return_to
  | RelDelete string return_to
  | RelDrop string return_to
  | RelCount return_to
  | HbGet string
  | HbWrite addr
  | GCStart int
  | GCScan int "addr list"
  | GCRead int addr "addr list"
  | Finished call_result

fun entry :: "pool_call \<Rightarrow> call_pc" where
  "entry (CallAllocate u) = ClaimList u"
| "entry CallWarm = Checking None"
| "entry (CallRelease n) = RelGet n None"
| "entry (CallHeartbeat s) = HbGet s"
| "entry (CallGC d) = GCStart d"

subsection \<open>Steps\<close>

definition alloc_result :: "string option \<Rightarrow> go_error + addr \<Rightarrow> call_result" where
  "alloc_result w r = (case w of Some u \<Rightarrow> Allocated r | None \<Rightarrow> Warmed r)"

definition after_release :: "return_to \<Rightarrow> go_error option \<Rightarrow> call_pc" where
  "after_release k r = (case k of None \<Rightarrow> Finished (Done r) | Some (cutoff, rest) \<Rightarrow> GCScan cutoff rest)"

text \<open>The assignments of \<^verbatim>\<open>claimIdle\<close>, in their order.\<close>

definition claim_write :: "nat \<Rightarrow> CallEnv \<Rightarrow> string \<Rightarrow> Allocation \<Rightarrow> Allocation" where
  "claim_write k e userID x =
     (if k = 0 then x\<lparr>Status := StatusActive\<rparr>
      else if k = 1 then x\<lparr>UserID := userID\<rparr>
      else if k = 2 then x\<lparr>SessionID := env_uuid e\<rparr>
      else x\<lparr>LastActivity := env_now e\<rparr>)"

definition new_alloc :: "CallEnv \<Rightarrow> string option \<Rightarrow> string \<Rightarrow> string \<Rightarrow> Allocation" where
  "new_alloc e w name fqdn =
     (case w of Some u \<Rightarrow> active_alloc e u name fqdn | None \<Rightarrow> warm_alloc (env_now e) name fqdn)"

definition record_new :: "CallEnv \<Rightarrow> string option \<Rightarrow> 'p PoolManager \<Rightarrow> 'p PoolManager" where
  "record_new e w pm =
     record_count (case w of
        Some u \<Rightarrow> pm\<lparr>metrics := map_option (RecordAllocation (time_sub (env_done e) (env_start e))) (metrics pm)\<rparr>
      | None \<Rightarrow> pm)"

text \<open>\<open>mu\<close> is the goroutine that holds the mutex; a goroutine that waits for the mutex has no step.\<close>

fun thread_step ::
  "'p SandboxProvider \<Rightarrow> CallEnv \<Rightarrow> map_order \<Rightarrow> nat \<Rightarrow> call_pc \<Rightarrow> nat option \<Rightarrow> 'p PoolManager \<Rightarrow>
   (call_pc \<times> nat option \<times> 'p PoolManager) option" where
  "thread_step P e ord t (ClaimList u) mu pm =
     (if mu \<noteq> None then None
      else case Cache_ListByStatus ord (cells (store pm)) StatusIdle (index (store pm)) of
             [] \<Rightarrow> Some (Checking (Some u), None, pm)
           | a # _ \<Rightarrow> Some (Claiming 0 u a, Some t, pm))"
| "thread_step P e ord t (Claiming k u a) mu pm =
     (if k < 4 then Some (Claiming (Suc k) u a, mu, pm\<lparr>store := store_write a (claim_write k e u) (store pm)\<rparr>)
      else Some (Finished (Allocated (Inr a)), None, pm\<lparr>store := store_set a (store pm)\<rparr>))"
| "thread_step P e ord t (Checking w) mu pm =
     (if mu \<noteq> None then None
      else if store_len (store pm) \<ge> maxSize pm then Some (Finished (alloc_result w (Inl ErrPoolExhausted)), None, pm)
      else Some (Creating w, None, pm))"
| "thread_step P e ord t (Creating w) mu pm =
     (case CreateSandbox P (provider pm) of
        (Inl err, p') \<Rightarrow> Some (Finished (alloc_result w (Inl err)), mu, pm\<lparr>provider := p'\<rparr>)
      | (Inr (name, fqdn), p') \<Rightarrow> Some (Created w name fqdn, mu, pm\<lparr>provider := p'\<rparr>))"
| "thread_step P e ord t (Created w name fqdn) mu pm =
     Some (Inserted w (next_cell (store pm)), mu, pm\<lparr>store := store_new (new_alloc e w name fqdn) (store pm)\<rparr>)"
| "thread_step P e ord t (Inserted w a) mu pm = Some (Finished (alloc_result w (Inr a)), mu, record_new e w pm)"
| "thread_step P e ord t (RelGet n k) mu pm =
     (case Cache_Get (index (store pm)) n of
        None \<Rightarrow> Some (after_release k None, mu, pm)
      | Some a \<Rightarrow> Some (RelMark a n k, mu, pm))"
| "thread_step P e ord t (RelMark a n k) mu pm =
     Some (RelDelete n k, mu, pm\<lparr>store := store_write a (\<lambda>x. x\<lparr>Status := StatusReleasing\<rparr>) (store pm)\<rparr>)"
| "thread_step P e ord t (RelDelete n k) mu pm =
     (case DeleteSandbox P n (provider pm) of
        (Some err, p') \<Rightarrow> Some (after_release k (Some err), mu, pm\<lparr>provider := p'\<rparr>)
      | (None, p') \<Rightarrow> Some (RelDrop n k, mu, pm\<lparr>provider := p'\<rparr>))"
| "thread_step P e ord t (RelDrop n k) mu pm = Some (RelCount k, mu, pm\<lparr>store := store_delete n (store pm)\<rparr>)"
| "thread_step P e ord t (RelCount k) mu pm = Some (after_release k None, mu, record_count pm)"
| "thread_step P e ord t (HbGet s) mu pm =
     (case Cache_GetBySession (index (store pm)) s of
        None \<Rightarrow> Some (Finished (Done (Some (Errorf ''pool: session not found''))), mu, pm)
      | Some a \<Rightarrow> Some (HbWrite a, mu, pm))"
| "thread_step P e ord t (HbWrite a) mu pm =
     (if mu \<noteq> None then None
      else Some (Finished (Done None), None, pm\<lparr>store := store_write a (\<lambda>x. x\<lparr>LastActivity := env_now e\<rparr>) (store pm)\<rparr>))"
| "thread_step P e ord t (GCStart d) mu pm =
     Some (GCScan (env_now e + wrap64 (- d)) (Cache_List ord (index (store pm))), mu, pm)"
| "thread_step P e ord t (GCScan cutoff []) mu pm = Some (Finished (Done None), mu, pm)"
| "thread_step P e ord t (GCScan cutoff (a # rest)) mu pm =
     (if Status (cells (store pm) a) = StatusIdle \<or> Status (cells (store pm) a) = StatusReleasing
      then Some (GCScan cutoff rest, mu, pm) else Some (GCRead cutoff a rest, mu, pm))"
| "thread_step P e ord t (GCRead cutoff a rest) mu pm =
     (if LastActivity (cells (store pm) a) < cutoff
      then Some (RelGet (SandboxName (cells (store pm) a)) (Some (cutoff, rest)), mu, pm)
      else Some (GCScan cutoff rest, mu, pm))"
| "thread_step P e ord t (Finished r) mu pm = None"

subsection \<open>Interleavings\<close>

record 'p Goroutines =
  pool :: "'p PoolManager"
  mutex :: "nat option"
  pcs :: "nat \<Rightarrow> call_pc"

definition goto :: "nat \<Rightarrow> call_pc \<times> nat option \<times> 'p PoolManager \<Rightarrow> 'p Goroutines \<Rightarrow> 'p Goroutines" where
  "goto t s G = (case s of (pc, m, pm) \<Rightarrow> \<lparr>pool = pm, mutex = m, pcs = (pcs G)(t := pc)\<rparr>)"

definition start_calls :: "(nat \<Rightarrow> pool_call) \<Rightarrow> 'p PoolManager \<Rightarrow> 'p Goroutines" where
  "start_calls calls pm = \<lparr>pool = pm, mutex = None, pcs = (\<lambda>t. entry (calls t))\<rparr>"

inductive conc_step ::
  "'p SandboxProvider \<Rightarrow> (nat \<Rightarrow> CallEnv) \<Rightarrow> nat set \<Rightarrow> 'p Goroutines \<Rightarrow> 'p Goroutines \<Rightarrow> bool"
  for P :: "'p SandboxProvider" and env :: "nat \<Rightarrow> CallEnv" and T :: "nat set" where
  conc_move: "t \<in> T \<Longrightarrow> range_order ord \<Longrightarrow>
     thread_step P (env t) ord t (pcs G t) (mutex G) (pool G) = Some s \<Longrightarrow> conc_step P env T G (goto t s G)"

inductive conc_reach ::
  "'p SandboxProvider \<Rightarrow> (nat \<Rightarrow> CallEnv) \<Rightarrow> nat set \<Rightarrow> 'p Goroutines \<Rightarrow> 'p Goroutines \<Rightarrow> bool"
  for P :: "'p SandboxProvider" and env :: "nat \<Rightarrow> CallEnv" and T :: "nat set" and G0 :: "'p Goroutines" where
  reach_start: "conc_reach P env T G0 G0"
| reach_step: "conc_reach P env T G0 G \<Longrightarrow> conc_step P env T G G' \<Longrightarrow> conc_reach P env T G0 G'"

text \<open>The goroutines of a schedule move in turn; one that cannot move is passed over.\<close>

fun run_schedule ::
  "'p SandboxProvider \<Rightarrow> (nat \<Rightarrow> CallEnv) \<Rightarrow> nat list \<Rightarrow> 'p Goroutines \<Rightarrow> 'p Goroutines" where
  "run_schedule P env [] G = G"
| "run_schedule P env (t # ts) G =
     run_schedule P env ts
       (case thread_step P (env t) (\<lambda>xs. xs) t (pcs G t) (mutex G) (pool G) of None \<Rightarrow> G | Some s \<Rightarrow> goto t s G)"

subsection \<open>The same calls, one at a time\<close>

fun sequential_call ::
  "'p SandboxProvider \<Rightarrow> map_order \<Rightarrow> CallEnv \<Rightarrow> pool_call \<Rightarrow> 'p PoolManager \<Rightarrow> call_result \<times> 'p PoolManager" where
  "sequential_call P ord e (CallAllocate u) pm = map_prod Allocated id (Allocate P ord e u pm)"
| "sequential_call P ord e CallWarm pm = map_prod Warmed id (AllocateWarm P (env_now e) pm)"
| "sequential_call P ord e (CallRelease n) pm = map_prod Done id (Release P n pm)"
| "sequential_call P ord e (CallHeartbeat s) pm = map_prod Done id (Heartbeat (env_now e) s pm)"
| "sequential_call P ord e (CallGC d) pm = (Done None, RunGC P ord (env_now e) d pm)"

text \<open>What is left of a call at a program point, run without interruption.\<close>

definition claim_rest :: "nat \<Rightarrow> CallEnv \<Rightarrow> string \<Rightarrow> Allocation \<Rightarrow> Allocation" where
  "claim_rest k e u = fold (\<lambda>i. claim_write i e u) [k..<4]"

definition finish_create ::
  "'p SandboxProvider \<Rightarrow> CallEnv \<Rightarrow> string option \<Rightarrow> 'p PoolManager \<Rightarrow> call_result \<times> 'p PoolManager" where
  "finish_create P e w pm =
     (case CreateSandbox P (provider pm) of
        (Inl err, p') \<Rightarrow> (alloc_result w (Inl err), pm\<lparr>provider := p'\<rparr>)
      | (Inr (name, fqdn), p') \<Rightarrow>
          (alloc_result w (Inr (next_cell (store pm))),
           record_new e w (pm\<lparr>provider := p', store := store_new (new_alloc e w name fqdn) (store pm)\<rparr>)))"

definition finish_release :: "'p SandboxProvider \<Rightarrow> return_to \<Rightarrow> go_error option \<times> 'p PoolManager \<Rightarrow> call_result \<times> 'p PoolManager" where
  "finish_release P k s =
     (case k of None \<Rightarrow> (Done (fst s), snd s) | Some (cutoff, rest) \<Rightarrow> (Done None, gc_loop P cutoff rest (snd s)))"

definition finish_delete :: "'p SandboxProvider \<Rightarrow> string \<Rightarrow> return_to \<Rightarrow> 'p PoolManager \<Rightarrow> call_result \<times> 'p PoolManager" where
  "finish_delete P n k pm =
     finish_release P k
       (case DeleteSandbox P n (provider pm) of
          (Some err, p') \<Rightarrow> (Some err, pm\<lparr>provider := p'\<rparr>)
        | (None, p') \<Rightarrow> (None, record_count (pm\<lparr>provider := p', store := store_delete n (store pm)\<rparr>)))"

fun complete ::
  "'p SandboxProvider \<Rightarrow> map_order \<Rightarrow> CallEnv \<Rightarrow> call_pc \<Rightarrow> 'p PoolManager \<Rightarrow> call_result \<times> 'p PoolManager" where
  "complete P ord e (ClaimList u) pm = map_prod Allocated id (Allocate P ord e u pm)"
| "complete P ord e (Claiming k u a) pm =
     (Allocated (Inr a), pm\<lparr>store := store_set a (store_write a (claim_rest k e u) (store pm))\<rparr>)"
| "complete P ord e (Checking w) pm =
     (if store_len (store pm) \<ge> maxSize pm then (alloc_result w (Inl ErrPoolExhausted), pm) else finish_create P e w pm)"
| "complete P ord e (Creating w) pm = finish_create P e w pm"
| "complete P ord e (Created w name fqdn) pm =
     (alloc_result w (Inr (next_cell (store pm))),
      record_new e w (pm\<lparr>store := store_new (new_alloc e w name fqdn) (store pm)\<rparr>))"
| "complete P ord e (Inserted w a) pm = (alloc_result w (Inr a), record_new e w pm)"
| "complete P ord e (RelGet n k) pm = finish_release P k (Release P n pm)"
| "complete P ord e (RelMark a n k) pm =
     finish_delete P n k (pm\<lparr>store := store_write a (\<lambda>x. x\<lparr>Status := StatusReleasing\<rparr>) (store pm)\<rparr>)"
| "complete P ord e (RelDelete n k) pm = finish_delete P n k pm"
| "complete P ord e (RelDrop n k) pm =
     finish_release P k (None, record_count (pm\<lparr>store := store_delete n (store pm)\<rparr>))"
| "complete P ord e (RelCount k) pm = finish_release P k (None, record_count pm)"
| "complete P ord e (HbGet s) pm = map_prod Done id (Heartbeat (env_now e) s pm)"
| "complete P ord e (HbWrite a) pm =
     (Done None, pm\<lparr>store := store_write a (\<lambda>x. x\<lparr>LastActivity := env_now e\<rparr>) (store pm)\<rparr>)"
| "complete P ord e (GCStart d) pm = (Done None, RunGC P ord (env_now e) d pm)"
| "complete P ord e (GCScan cutoff rest) pm = (Done None, gc_loop P cutoff rest pm)"
| "complete P ord e (GCRead cutoff a rest) pm =
     (if LastActivity (cells (store pm) a) < cutoff
      then finish_release P (Some (cutoff, rest)) (Release P (SandboxName (cells (store pm) a)) pm)
      else (Done None, gc_loop P cutoff rest pm))"
| "complete P ord e (Finished r) pm = (r, pm)"

subsection \<open>Observations\<close>

fun is_claiming :: "call_pc \<Rightarrow> bool" where
  "is_claiming (Claiming k u a) = True"
| "is_claiming _ = False"

definition lock_inv :: "nat set \<Rightarrow> 'p Goroutines \<Rightarrow> bool" where
  "lock_inv T G \<longleftrightarrow> (\<forall>t. mutex G = Some t \<longleftrightarrow> is_claiming (pcs G t)) \<and> (\<forall>t. mutex G = Some t \<longrightarrow> t \<in> T)"

text \<open>How many steps a goroutine has at most left, once a collection has read the list it goes through.\<close>

definition return_steps :: "return_to \<Rightarrow> nat" where
  "return_steps k = (case k of None \<Rightarrow> 0 | Some (c, rest) \<Rightarrow> 1 + 8 * length rest)"

fun steps_left :: "call_pc \<Rightarrow> nat" where
  "steps_left (ClaimList u) = 6"
| "steps_left (Claiming k u a) = Suc (4 - k)"
| "steps_left (Checking w) = 4"
| "steps_left (Creating w) = 3"
| "steps_left (Created w n f) = 2"
| "steps_left (Inserted w a) = 1"
| "steps_left (RelGet n k) = 5 + return_steps k"
| "steps_left (RelMark a n k) = 4 + return_steps k"
| "steps_left (RelDelete n k) = 3 + return_steps k"
| "steps_left (RelDrop n k) = 2 + return_steps k"
| "steps_left (RelCount k) = 1 + return_steps k"
| "steps_left (HbGet s) = 2"
| "steps_left (HbWrite a) = 1"
| "steps_left (GCStart d) = 0"
| "steps_left (GCScan c rest) = 1 + 8 * length rest"
| "steps_left (GCRead c a rest) = 8 + 8 * length rest"
| "steps_left (Finished r) = 0"

fun is_GCStart :: "call_pc \<Rightarrow> bool" where
  "is_GCStart (GCStart d) = True"
| "is_GCStart _ = False"

definition work_left :: "nat set \<Rightarrow> 'p Goroutines \<Rightarrow> nat \<times> nat" where
  "work_left T G = (card {t \<in> T. is_GCStart (pcs G t)}, \<Sum>t\<in>T. steps_left (pcs G t))"

text \<open>How many steps a call takes at most, when a collection finds at most \<open>m\<close> allocations in the cache.\<close>

fun call_steps :: "nat \<Rightarrow> pool_call \<Rightarrow> nat" where
  "call_steps m (CallAllocate u) = 6"
| "call_steps m CallWarm = 4"
| "call_steps m (CallRelease n) = 5"
| "call_steps m (CallHeartbeat s) = 2"
| "call_steps m (CallGC d) = 2 + 8 * m"

definition steps_max :: "nat \<Rightarrow> call_pc \<Rightarrow> nat" where
  "steps_max m pc = (if is_GCStart pc then 2 + 8 * m else steps_left pc)"

text \<open>The part of the cache invariant that survives all interleavings, whatever the provider does: entries of the
  name index are objects of that name.  (The session index can keep sessions of released allocations.)\<close>

definition filed :: "SharedCache \<Rightarrow> bool" where
  "filed S \<longleftrightarrow> gomap_ok (byName (index S)) \<and>
     (\<forall>n a. Cache_Get (index S) n = Some a \<longrightarrow> SandboxName (cells S a) = n \<and> a < next_cell S)"

text \<open>The allocation that an \<^verbatim>\<open>Allocate\<close> is about to return or has returned.\<close>

fun owns :: "call_pc \<Rightarrow> addr \<Rightarrow> bool" where
  "owns (Claiming k u b) a = (a = b)"
| "owns (Inserted (Some u) b) a = (a = b)"
| "owns (Finished (Allocated (Inr b))) a = (a = b)"
| "owns _ a = False"

definition own_inv :: "'p Goroutines \<Rightarrow> bool" where
  "own_inv G \<longleftrightarrow>
     (\<forall>t a. owns (pcs G t) a \<longrightarrow> a < next_cell (store (pool G)) \<and>
        (Status (cells (store (pool G)) a) = StatusIdle \<longrightarrow> (\<exists>u. pcs G t = Claiming 0 u a))) \<and>
     (\<forall>t u a. owns (pcs G t) a \<longrightarrow> owns (pcs G u) a \<longrightarrow> t = u)"

text \<open>The goroutines that can still add an entry to the cache: those between the capacity check and the
  insertion, and a claim whose sandbox has been dropped from the cache meanwhile.\<close>

fun adds_entry :: "SharedCache \<Rightarrow> call_pc \<Rightarrow> bool" where
  "adds_entry S (Creating w) = True"
| "adds_entry S (Created w n f) = True"
| "adds_entry S (Claiming k u a) = (Cache_Get (index S) (SandboxName (cells S a)) = None)"
| "adds_entry S _ = False"

definition adders :: "nat set \<Rightarrow> 'p Goroutines \<Rightarrow> nat set" where
  "adders T G = {t \<in> T. adds_entry (store (pool G)) (pcs G t)}"

definition no_overshoot :: "nat set \<Rightarrow> 'p Goroutines \<Rightarrow> bool" where
  "no_overshoot T G \<longleftrightarrow>
     store_len (store (pool G)) + int (card (adders T G)) \<le> maxSize (pool G) + int (card T) - 1"

text \<open>Goroutines that allocate for a user, on the sample pool.\<close>

definition sample_envs :: "nat \<Rightarrow> CallEnv" where
  "sample_envs t = sample_env 0 (itoa (int t))"

definition sample_goroutines :: "int \<Rightarrow> MockSandboxProvider Goroutines" where
  "sample_goroutines maxSz = start_calls (\<lambda>t. CallAllocate ''alice'') (sample_pool maxSz)"

definition sample_run :: "int \<Rightarrow> nat list \<Rightarrow> MockSandboxProvider Goroutines" where
  "sample_run maxSz ts = run_schedule mock_provider sample_envs ts (sample_goroutines maxSz)"

section \<open>Lemmas\<close>

subsection \<open>A single goroutine runs the sequential call\<close>

lemma claim_rest_simps:
  "claim_rest 0 e u = claimed e u" "k < 4 \<Longrightarrow> claim_rest k e u = (\<lambda>x. claim_rest (Suc k) e u (claim_write k e u x))"
  "4 \<le> k \<Longrightarrow> claim_rest k e u = (\<lambda>x. x)"
  by (rule ext, simp add: claim_rest_def upt_conv_Cons claim_write_def claimed_def numeral_eq_Suc)+

lemma store_write_write [simp]: "store_write a f (store_write a g S) = store_write a (\<lambda>x. f (g x)) S"
  by (simp add: store_write_def)

lemma store_write_id [simp]: "store_write a (\<lambda>x. x) S = S"
  by (simp add: store_write_def)

lemma complete_Allocate:
  "map_prod Allocated id (Allocate P ord e u pm) =
     (case Cache_ListByStatus ord (cells (store pm)) StatusIdle (index (store pm)) of
        [] \<Rightarrow> complete P ord e (Checking (Some u)) pm
      | a # _ \<Rightarrow> complete P ord e (Claiming 0 u a) pm)"
  by (auto simp: Allocate_def claimIdle_def Let_def claimed_def [abs_def] claim_rest_simps(1) finish_create_def
      alloc_result_def new_alloc_def record_new_def split: list.split sum.split prod.split)

lemma complete_warm: "complete P ord e (Checking None) pm = map_prod Warmed id (AllocateWarm P (env_now e) pm)"
  by (auto simp: AllocateWarm_def finish_create_def alloc_result_def new_alloc_def record_new_def
      split: sum.split prod.split)

lemma complete_after_release [simp]: "complete P ord e (after_release k r) pm = finish_release P k (r, pm)"
  by (simp add: after_release_def finish_release_def split: option.split prod.split)

lemma complete_step:
  assumes "thread_step P e ord t pc mu pm = Some (pc', mu', pm')"
  shows "complete P ord' e pc' pm' = complete P ord e pc pm"
proof (cases pc)
  case (ClaimList u)
  then show ?thesis using assms
    by (auto simp: complete_Allocate split: list.splits if_splits)
next
  case (Claiming k u a)
  then show ?thesis using assms by (auto simp: claim_rest_simps(2,3) split: if_splits)
next
  case (RelGet n k)
  then show ?thesis using assms
    by (auto simp: Release_def Let_def finish_delete_def split: option.splits prod.splits)
next
  case (HbGet s)
  then show ?thesis using assms by (auto simp: Heartbeat_def split: option.splits)
next
  case (GCStart d)
  then show ?thesis using assms by (auto simp: RunGC_def Let_def)
next
  case (GCScan c as)
  then show ?thesis using assms by (cases as) (auto simp: Let_def finish_release_def split: if_splits)
qed (use assms in \<open>auto simp: finish_create_def finish_delete_def split: if_splits sum.splits prod.splits option.splits\<close>)

lemma entry_complete: "complete P ord e (entry c) pm = sequential_call P ord e c pm"
  by (cases c) (simp_all only: entry.simps sequential_call.simps complete_warm, simp_all add: finish_release_def prod_eq_iff)

lemma goto_simps [simp]:
  "pool (goto t (pc, m, pm) G) = pm" "mutex (goto t (pc, m, pm) G) = m" "pcs (goto t (pc, m, pm) G) = (pcs G)(t := pc)"
  by (simp_all add: goto_def)

lemma conc_stepE:
  assumes "conc_step P env T G G'"
  obtains t ord pc m pm where "t \<in> T" "range_order ord"
    "thread_step P (env t) ord t (pcs G t) (mutex G) (pool G) = Some (pc, m, pm)" "G' = goto t (pc, m, pm) G"
  using assms by cases (metis prod_cases3)

lemma solo_reach:
  assumes "conc_reach P env {t} (start_calls calls pm0) G"
  shows "G = start_calls calls pm0 \<or>
    (\<exists>ord. range_order ord \<and> (\<forall>ord'. complete P ord' (env t) (pcs G t) (pool G) = sequential_call P ord (env t) (calls t) pm0))"
  using assms
proof induction
  case (reach_step G G')
  from reach_step.hyps(2) obtain ord pc m pm where ord: "range_order ord"
    and s: "thread_step P (env t) ord t (pcs G t) (mutex G) (pool G) = Some (pc, m, pm)" and G': "G' = goto t (pc, m, pm) G"
    by (elim conc_stepE) auto
  note c = complete_step [OF s]
  from reach_step.IH show ?case
  proof
    assume "G = start_calls calls pm0"
    then have "\<forall>ord'. complete P ord' (env t) pc pm = sequential_call P ord (env t) (calls t) pm0"
      using c by (simp add: start_calls_def entry_complete)
    then show ?thesis using ord G' by auto
  next
    assume "\<exists>ord. range_order ord \<and> (\<forall>ord'. complete P ord' (env t) (pcs G t) (pool G) = sequential_call P ord (env t) (calls t) pm0)"
    then show ?thesis using c G' by auto
  qed
qed simp

subsection \<open>The mutex, and the end of all calls\<close>

lemma thread_step_lock:
  assumes "thread_step P e ord t pc mu pm = Some (pc', mu', pm')" and "mu = Some t \<longleftrightarrow> is_claiming pc"
  shows "mu' = Some t \<longleftrightarrow> is_claiming pc'" and "u \<noteq> t \<Longrightarrow> mu' = Some u \<longleftrightarrow> mu = Some u"
proof -
  have "(mu' = Some t \<longleftrightarrow> is_claiming pc') \<and> (u \<noteq> t \<longrightarrow> mu' = Some u \<longleftrightarrow> mu = Some u)"
  proof (cases pc)
    case (GCScan c as)
    then show ?thesis using assms by (cases as) (auto split: if_splits)
  qed (use assms in \<open>auto simp: after_release_def split: if_splits list.splits option.splits prod.splits sum.splits\<close>)
  then show "mu' = Some t \<longleftrightarrow> is_claiming pc'" and "u \<noteq> t \<Longrightarrow> mu' = Some u \<longleftrightarrow> mu = Some u" by auto
qed

lemma lock_inv_step:
  assumes "conc_step P env T G G'" "lock_inv T G"
  shows "lock_inv T G'"
proof -
  from assms(1) obtain t ord pc m pm where t: "t \<in> T"
    and s: "thread_step P (env t) ord t (pcs G t) (mutex G) (pool G) = Some (pc, m, pm)" and G': "G' = goto t (pc, m, pm) G"
    by (rule conc_stepE)
  have "mutex G = Some t \<longleftrightarrow> is_claiming (pcs G t)" using assms(2) by (simp add: lock_inv_def)
  note l = thread_step_lock [OF s this]
  have "m = Some u \<longleftrightarrow> is_claiming (pcs G' u)" for u
    using assms(2) l by (cases "u = t") (simp_all add: G' lock_inv_def)
  moreover have "m = Some u \<Longrightarrow> u \<in> T" for u
    using assms(2) t l(2) [of u] by (cases "u = t") (simp_all add: lock_inv_def)
  ultimately show ?thesis by (simp add: lock_inv_def G')
qed

lemma lock_inv_reach:
  "conc_reach P env T (start_calls calls pm0) G \<Longrightarrow> lock_inv T G"
proof (induction rule: conc_reach.induct)
  case reach_start
  have "\<not> is_claiming (entry c)" for c by (cases c) simp_all
  then show ?case by (simp add: lock_inv_def start_calls_def)
qed (rule lock_inv_step)

lemma thread_step_left:
  assumes "thread_step P e ord t pc mu pm = Some (pc', mu', pm')"
  shows "\<not> is_GCStart pc'" and "\<not> is_GCStart pc \<Longrightarrow> steps_left pc' < steps_left pc"
proof -
  have "\<not> is_GCStart pc' \<and> (\<not> is_GCStart pc \<longrightarrow> steps_left pc' < steps_left pc)"
  proof (cases pc)
    case (GCScan c as)
    then show ?thesis using assms by (cases as) (auto simp: return_steps_def split: if_splits)
  qed (use assms in \<open>auto simp: after_release_def return_steps_def split: if_splits list.splits option.splits prod.splits sum.splits\<close>)
  then show "\<not> is_GCStart pc'" and "\<not> is_GCStart pc \<Longrightarrow> steps_left pc' < steps_left pc" by auto
qed

lemma conc_step_work:
  assumes "conc_step P env T G G'" "finite T"
  shows "(work_left T G', work_left T G) \<in> less_than <*lex*> less_than"
proof -
  from assms(1) obtain t ord pc m pm where t: "t \<in> T"
    and s: "thread_step P (env t) ord t (pcs G t) (mutex G) (pool G) = Some (pc, m, pm)" and G': "G' = goto t (pc, m, pm) G"
    by (rule conc_stepE)
  note l = thread_step_left [OF s]
  show ?thesis
  proof (cases "is_GCStart (pcs G t)")
    case True
    then have "{u \<in> T. is_GCStart (pcs G' u)} \<subset> {u \<in> T. is_GCStart (pcs G u)}" using l(1) t by (auto simp: G' split: if_splits)
    then show ?thesis using assms(2) by (auto simp: work_left_def intro!: psubset_card_mono)
  next
    case False
    then have "{u \<in> T. is_GCStart (pcs G' u)} = {u \<in> T. is_GCStart (pcs G u)}" using l(1) by (auto simp: G' split: if_splits)
    moreover have "(\<Sum>u\<in>T. steps_left (pcs G' u)) < (\<Sum>u\<in>T. steps_left (pcs G u))"
      using assms(2) t l(2) [OF False] by (intro sum_strict_mono_ex1) (auto simp: G')
    ultimately show ?thesis by (simp add: work_left_def)
  qed
qed

lemma conc_step_wf: "finite T \<Longrightarrow> wf {(G', G). conc_step P env T G G'}"
  by (rule wf_subset [OF wf_inv_image [where f = "work_left T", OF wf_lex_prod [OF wf_less_than wf_less_than]]])
    (auto simp: inv_image_def conc_step_work)

lemma thread_can_move:
  assumes "is_claiming pc \<or> mu = None" "\<forall>r. pc \<noteq> Finished r"
  shows "\<exists>s. thread_step P e ord t pc mu pm = Some s"
proof (cases pc)
  case (GCScan c as)
  then show ?thesis by (cases as) auto
qed (use assms in \<open>auto split: list.split option.split prod.split sum.split\<close>)

lemma conc_progress:
  assumes "lock_inv T G" "t \<in> T" "\<forall>r. pcs G t \<noteq> Finished r"
  shows "\<exists>G'. conc_step P env T G G'"
proof -
  obtain u where "u \<in> T" "is_claiming (pcs G u) \<or> mutex G = None" "\<forall>r. pcs G u \<noteq> Finished r"
  proof (cases "mutex G")
    case (Some u)
    then have u: "is_claiming (pcs G u)" "u \<in> T" using assms(1) unfolding lock_inv_def by blast+
    from u(1) have "\<forall>r. pcs G u \<noteq> Finished r" by auto
    with u that show ?thesis by blast
  qed (use assms(2,3) that in blast)
  moreover then obtain s where "thread_step P (env u) (\<lambda>xs. xs) u (pcs G u) (mutex G) (pool G) = Some s"
    using thread_can_move by blast
  ultimately show ?thesis using conc_move [of u T "\<lambda>xs. xs"] range_order_id by blast
qed

lemma reach_schedule: "set ts \<subseteq> T \<Longrightarrow> conc_reach P env T G0 G \<Longrightarrow> conc_reach P env T G0 (run_schedule P env ts G)"
proof (induction ts arbitrary: G)
  case (Cons t ts)
  then show ?case
    using reach_step [OF Cons.prems(2)] conc_move [of t T "\<lambda>xs. xs" P env G] range_order_id
    by (auto split: option.split)
qed simp

subsection \<open>What a step does to the objects\<close>

lemma claim_write_simps [simp]:
  "SandboxName (claim_write k e u x) = SandboxName x" "Status (claim_write k e u x) = (if k = 0 then StatusActive else Status x)"
  by (simp_all add: claim_write_def)

lemma record_new_simps [simp]:
  "store (record_new e w pm) = store pm" "provider (record_new e w pm) = provider pm" "maxSize (record_new e w pm) = maxSize pm"
  by (simp_all add: record_new_def split: option.split)

lemma new_alloc_simps [simp]:
  "SandboxName (new_alloc e w n f) = n" "LastActivity (new_alloc e w n f) = env_now e"
  "Status (new_alloc e w n f) = (if w = None then StatusIdle else StatusActive)"
  by (simp_all add: new_alloc_def active_alloc_def warm_alloc_def split: option.split)

lemma store_simps [simp]:
  "cells (store_write a f S) = (cells S)(a := f (cells S a))" "cells (store_set a S) = cells S" "cells (store_delete n S) = cells S"
  "cells (store_new x S) = (cells S)(next_cell S := x)" "next_cell (store_set a S) = next_cell S"
  "next_cell (store_delete n S) = next_cell S" "next_cell (store_new x S) = Suc (next_cell S)"
  "index (store_set a S) = Cache_Set (cells S) a (index S)" "index (store_delete n S) = Cache_Delete (cells S) n (index S)"
  "index (store_new x S) = Cache_Set ((cells S)(next_cell S := x)) (next_cell S) (index S)"
  by (simp_all add: store_write_def store_set_def store_delete_def store_new_def Let_def)

lemma thread_step_cells:
  assumes "thread_step P e ord t pc mu pm = Some (pc', mu', pm')"
  shows "next_cell (store pm) \<le> next_cell (store pm')" "maxSize pm' = maxSize pm"
    and "b < next_cell (store pm) \<Longrightarrow> SandboxName (cells (store pm') b) = SandboxName (cells (store pm) b)"
    and "b < next_cell (store pm) \<Longrightarrow> Status (cells (store pm') b) = StatusIdle \<Longrightarrow> Status (cells (store pm) b) = StatusIdle"
proof -
  have "next_cell (store pm) \<le> next_cell (store pm') \<and> maxSize pm' = maxSize pm \<and>
    (b < next_cell (store pm) \<longrightarrow> SandboxName (cells (store pm') b) = SandboxName (cells (store pm) b) \<and>
      (Status (cells (store pm') b) = StatusIdle \<longrightarrow> Status (cells (store pm) b) = StatusIdle))"
  proof (cases pc)
    case (GCScan c as)
    then show ?thesis using assms by (cases as) (auto split: if_splits)
  qed (use assms in \<open>auto split: if_splits list.splits option.splits prod.splits sum.splits\<close>)
  then show "next_cell (store pm) \<le> next_cell (store pm')" "maxSize pm' = maxSize pm"
    and "b < next_cell (store pm) \<Longrightarrow> SandboxName (cells (store pm') b) = SandboxName (cells (store pm) b)"
    and "b < next_cell (store pm) \<Longrightarrow> Status (cells (store pm') b) = StatusIdle \<Longrightarrow> Status (cells (store pm) b) = StatusIdle"
    by auto
qed

lemma filed_list:
  assumes "filed S" "range_order ord" "a \<in> set (Cache_List ord (index S))"
  shows "a < next_cell S" "Cache_Get (index S) (SandboxName (cells S a)) = Some a"
  using assms Cache_List_set [OF assms(2), of "index S" a] by (auto simp: filed_def)

lemma thread_step_filed:
  assumes "thread_step P e ord t pc mu pm = Some (pc', mu', pm')" "filed (store pm)"
    and "\<And>a. owns pc a \<Longrightarrow> a < next_cell (store pm)"
  shows "filed (store pm')"
proof (cases pc)
  case (GCScan c as)
  then show ?thesis using assms by (cases as) (auto split: if_splits)
next
  case (Created w n f)
  have "Cache_Get (index (store pm)) m \<noteq> Some (next_cell (store pm))" for m using assms(2) unfolding filed_def by blast
  with Created assms(1,2) show ?thesis
    by (auto simp: filed_def gomap_ok_Set Cache_Get_Set less_Suc_eq split: if_splits)
next
  case (Claiming k u a)
  with assms show ?thesis by (auto simp: filed_def gomap_ok_Set Cache_Get_Set split: if_splits)
qed (use assms in \<open>auto simp: filed_def gomap_ok_Delete Cache_Get_Delete
    split: if_splits list.splits option.splits prod.splits sum.splits\<close>)

lemma owns_after_release [simp]: "\<not> owns (after_release k r) a"
  by (simp add: after_release_def split: option.split prod.split)

lemma thread_step_owns:
  assumes "thread_step P e ord t pc mu pm = Some (pc', mu', pm')" "owns pc' a" "filed (store pm)" "range_order ord"
  shows "owns pc a \<and> (\<forall>k u. pc' \<noteq> Claiming 0 u a) \<or>
    a = next_cell (store pm) \<and> a < next_cell (store pm') \<and> Status (cells (store pm') a) \<noteq> StatusIdle \<or>
    mu = None \<and> (\<exists>u. pc' = Claiming 0 u a) \<and> a < next_cell (store pm) \<and> Status (cells (store pm) a) = StatusIdle \<and>
      Cache_Get (index (store pm)) (SandboxName (cells (store pm) a)) = Some a \<and> store pm' = store pm"
proof (cases pc)
  case (ClaimList u)
  have "a \<in> set (Cache_ListByStatus ord (cells (store pm)) StatusIdle (index (store pm)))" "mu = None" "\<exists>u. pc' = Claiming 0 u a" "store pm' = store pm"
    using assms(1,2) ClaimList by (auto split: if_splits list.splits)
  then show ?thesis using filed_list [OF assms(3,4), of a] by (simp add: Cache_ListByStatus_alt)
next
  case (GCScan c as)
  then show ?thesis using assms(1,2) by (cases as) (auto split: if_splits)
next
  case (Inserted w b)
  then show ?thesis using assms(1,2) by (cases w) (auto simp: alloc_result_def)
next
  case (Created w n f)
  then show ?thesis using assms(1,2) by (cases w) auto
qed (use assms(1,2) in \<open>auto simp: alloc_result_def split: if_splits option.splits prod.splits sum.splits\<close>)

lemma owner_not_idle:
  assumes "thread_step P e ord t pc mu pm = Some (pc', mu', pm')" "owns pc a" "a < next_cell (store pm)"
    and "Status (cells (store pm) a) = StatusIdle \<longrightarrow> (\<exists>u. pc = Claiming 0 u a)"
  shows "Status (cells (store pm') a) \<noteq> StatusIdle"
proof (cases "\<exists>u. pc = Claiming 0 u a")
  case True
  with assms(1) show ?thesis by auto
next
  case False
  with assms thread_step_cells(4) [OF assms(1,3)] show ?thesis by blast
qed

subsection \<open>Invariants of all interleavings\<close>

lemma own_inv_step:
  assumes "conc_step P env T G G'" "lock_inv T G" "filed (store (pool G))" "own_inv G"
  shows "own_inv G'" "filed (store (pool G'))" "maxSize (pool G') = maxSize (pool G)"
proof -
  from assms(1) obtain t ord pc m pm where ord: "range_order ord"
    and s: "thread_step P (env t) ord t (pcs G t) (mutex G) (pool G) = Some (pc, m, pm)" and G': "G' = goto t (pc, m, pm) G"
    by (rule conc_stepE)
  let ?S = "store (pool G)" and ?S' = "store pm"
  have own: "owns (pcs G u) a \<Longrightarrow> a < next_cell ?S \<and> (Status (cells ?S a) = StatusIdle \<longrightarrow> (\<exists>v. pcs G u = Claiming 0 v a))"
    and uniq: "owns (pcs G u) a \<Longrightarrow> owns (pcs G v) a \<Longrightarrow> u = v" for u v a using assms(4) unfolding own_inv_def by blast+
  note c = thread_step_cells [OF s]
  show "filed (store (pool G'))" "maxSize (pool G') = maxSize (pool G)"
    using thread_step_filed [OF s assms(3)] own c(2) by (auto simp: G')
  have other: "a < next_cell ?S'" "Status (cells ?S' a) = StatusIdle \<Longrightarrow> \<exists>v. pcs G u = Claiming 0 v a" if "owns (pcs G u) a" for u a
    using own [OF that] c(1) c(4) [of a] by auto
  have new: "a < next_cell ?S' \<and> (Status (cells ?S' a) = StatusIdle \<longrightarrow> (\<exists>v. pc = Claiming 0 v a)) \<and>
      (\<forall>u. u \<noteq> t \<longrightarrow> \<not> owns (pcs G u) a)" if a: "owns pc a" for a
    using thread_step_owns [OF s a assms(3) ord]
  proof (elim disjE conjE)
    assume "owns (pcs G t) a"
    then show ?thesis using owner_not_idle [OF s] own c(1) uniq by (metis order_less_le_trans)
  next
    assume "a = next_cell ?S" "a < next_cell ?S'" "Status (cells ?S' a) \<noteq> StatusIdle"
    then show ?thesis using own by blast
  next
    assume free: "mutex G = None" and "\<exists>v. pc = Claiming 0 v a" "a < next_cell ?S" and idle: "Status (cells ?S a) = StatusIdle"
    moreover have "\<not> owns (pcs G u) a" for u
    proof
      assume "owns (pcs G u) a"
      then obtain v where "pcs G u = Claiming 0 v a" using own idle by blast
      then have "is_claiming (pcs G u)" by simp
      then show False using free assms(2) by (simp add: lock_inv_def)
    qed
    ultimately show ?thesis using c(1) by auto
  qed
  show "own_inv G'"
    unfolding own_inv_def G' using new other uniq by (auto split: if_splits)
qed

lemma card_adders:
  assumes "finite T" "t \<in> T" "\<And>u. u \<in> T \<Longrightarrow> u \<noteq> t \<Longrightarrow> Q' u \<Longrightarrow> Q u"
  shows "card {u \<in> T. Q' u} + (if Q t then 1 else 0) \<le> card {u \<in> T. Q u} + (if Q' t then 1 else 0)"
proof -
  let ?A = "{u \<in> T. u \<noteq> t \<and> Q' u}" and ?B = "{u \<in> T. u \<noteq> t \<and> Q u}"
  have "card ?A \<le> card ?B" using assms by (intro card_mono) auto
  moreover have "{u \<in> T. Q' u} = (if Q' t then insert t ?A else ?A)" "{u \<in> T. Q u} = (if Q t then insert t ?B else ?B)"
    using assms(2) by auto
  ultimately show ?thesis using assms(1) by auto
qed

lemma adds_after_release [simp]: "\<not> adds_entry S (after_release k r)"
  by (simp add: after_release_def split: option.split prod.split)

lemma thread_step_weight:
  assumes "thread_step P e ord t pc mu pm = Some (pc', mu', pm')" "filed (store pm)" "range_order ord"
    and "\<And>w. pc \<noteq> Checking w" "\<And>n k. pc \<noteq> RelDrop n k"
  shows "store_len (store pm') + (if adds_entry (store pm') pc' then 1 else 0) \<le>
           store_len (store pm) + (if adds_entry (store pm) pc then 1 else 0)"
    and "Cache_Get (index (store pm')) n = None \<Longrightarrow> Cache_Get (index (store pm)) n = None"
proof -
  have "store_len (store pm') + (if adds_entry (store pm') pc' then 1 else 0) \<le>
           store_len (store pm) + (if adds_entry (store pm) pc then 1 else 0) \<and>
    (Cache_Get (index (store pm')) n = None \<longrightarrow> Cache_Get (index (store pm)) n = None)"
  proof (cases pc)
    case (ClaimList u)
    show ?thesis
    proof (cases "is_claiming pc'")
      case True
      then obtain k v a where pc': "pc' = Claiming k v a" by (cases pc') auto
      with thread_step_owns [OF assms(1) _ assms(2,3), of a] ClaimList
      have "store pm' = store pm \<and> Cache_Get (index (store pm)) (SandboxName (cells (store pm) a)) = Some a"
        using assms(1) by (auto split: if_splits list.splits)
      then show ?thesis by (simp add: pc')
    qed (use assms(1) ClaimList in \<open>auto split: if_splits list.splits\<close>)
  next
    case (GCScan c as)
    then show ?thesis using assms(1) by (cases as) (auto split: if_splits)
  next
    case (Claiming k u a)
    then show ?thesis using assms(1) by (auto simp: Cache_Get_Set store_len_def Cache_Len_Set split: if_splits)
  next
    case (Created w name f)
    then show ?thesis using assms(1) by (auto simp: Cache_Get_Set store_len_def Cache_Len_Set split: if_splits)
  qed (use assms in \<open>auto split: if_splits option.splits prod.splits sum.splits\<close>)
  then show "store_len (store pm') + (if adds_entry (store pm') pc' then 1 else 0) \<le>
           store_len (store pm) + (if adds_entry (store pm) pc then 1 else 0)"
    and "Cache_Get (index (store pm')) n = None \<Longrightarrow> Cache_Get (index (store pm)) n = None" by auto
qed

lemma adders_goto: "adders T (goto t (pc, m, pm) G) = {u \<in> T. adds_entry (store pm) (((pcs G)(t := pc)) u)}"
  by (auto simp: adders_def)

lemma adds_entry_keep:
  assumes "thread_step P e ord t pc mu pm = Some (pc', mu', pm')" "\<And>a. owns q a \<Longrightarrow> a < next_cell (store pm)"
    and "\<And>n. Cache_Get (index (store pm')) n = None \<Longrightarrow> Cache_Get (index (store pm)) n = None"
    and "adds_entry (store pm') q"
  shows "adds_entry (store pm) q"
  using thread_step_cells(3) [OF assms(1)] assms(2-4) by (cases q) auto

lemma no_overshoot_check:
  assumes "pcs G t = Checking w" "thread_step P e ord t (Checking w) (mutex G) (pool G) = Some (pc, m, pm)" "finite T" "no_overshoot T G"
  shows "no_overshoot T (goto t (pc, m, pm) G)"
proof (cases "pc = Creating w")
  case True
  then have "store_len (store pm) < maxSize pm" using assms(2) by (auto split: if_splits)
  moreover have "card (adders T (goto t (pc, m, pm) G)) \<le> card T" using assms(3) by (auto simp: adders_def intro!: card_mono)
  ultimately show ?thesis by (simp add: no_overshoot_def)
next
  case False
  then have "pm = pool G" "\<not> adds_entry (store pm) pc" using assms(2) by (auto split: if_splits)
  moreover have "adders T (goto t (pc, m, pm) G) \<subseteq> adders T G" using calculation by (auto simp: adders_def split: if_splits)
  then have "card (adders T (goto t (pc, m, pm) G)) \<le> card (adders T G)" using assms(3) by (intro card_mono) (simp_all add: adders_def)
  ultimately show ?thesis using assms(4) by (simp add: no_overshoot_def)
qed

text \<open>Dropping an entry turns at most one goroutine into one that adds it again: the holder of the mutex.\<close>

lemma no_overshoot_drop:
  assumes "lock_inv T G" "filed (store (pool G))" "finite T" "no_overshoot T G"
  shows "no_overshoot T (goto t (RelCount k, m, (pool G)\<lparr>store := store_delete n (store (pool G))\<rparr>) G)" (is "no_overshoot T ?G'")
proof -
  let ?S = "store (pool G)" and ?S' = "store_delete n (store (pool G))"
  have len: "store_len ?S' = (if Cache_Get (index ?S) n = None then store_len ?S else store_len ?S - 1)"
    using assms(2) by (simp add: store_len_def Cache_Len_Delete filed_def)
  have fin: "finite (adders T G)" using assms(3) by (simp add: adders_def)
  have "card (adders T ?G') \<le> card (adders T G) + (if Cache_Get (index ?S) n = None then 0 else 1)"
  proof (cases "Cache_Get (index ?S) n")
    case None
    then have "Cache_Get (index ?S') x = Cache_Get (index ?S) x" for x by (simp add: Cache_Get_Delete)
    then have "adds_entry ?S' q \<longleftrightarrow> adds_entry ?S q" for q by (cases q) simp_all
    then have "adders T ?G' \<subseteq> adders T G" by (auto simp: adders_def split: if_splits)
    then show ?thesis using card_mono [OF fin] None by simp
  next
    case (Some b)
    have one: "u = v" if "is_claiming (pcs G u)" "is_claiming (pcs G v)" for u v
      using that assms(1) unfolding lock_inv_def by (metis option.inject)
    have "u \<in> adders T G \<or> is_claiming (pcs G u)" if "u \<in> adders T ?G'" for u
      using that by (cases "pcs G u") (auto simp: adders_def split: if_splits)
    then obtain c where "adders T ?G' \<subseteq> insert c (adders T G)" using one by blast
    then have "card (adders T ?G') \<le> card (insert c (adders T G))" using fin by (intro card_mono) auto
    then show ?thesis using fin Some by (simp add: card_insert_if split: if_splits)
  qed
  then show ?thesis using assms(4) len by (cases "Cache_Get (index ?S) n = None") (simp_all add: no_overshoot_def)
qed

lemma no_overshoot_step:
  assumes "conc_step P env T G G'" "finite T" "lock_inv T G" "filed (store (pool G))" "own_inv G" "no_overshoot T G"
  shows "no_overshoot T G'"
proof -
  from assms(1) obtain t ord pc m pm where t: "t \<in> T" and ord: "range_order ord"
    and s: "thread_step P (env t) ord t (pcs G t) (mutex G) (pool G) = Some (pc, m, pm)" and G': "G' = goto t (pc, m, pm) G"
    by (rule conc_stepE)
  let ?S = "store (pool G)" and ?S' = "store pm"
  consider (check) w where "pcs G t = Checking w" | (drop) n k where "pcs G t = RelDrop n k"
    | (other) "\<And>w. pcs G t \<noteq> Checking w" "\<And>n k. pcs G t \<noteq> RelDrop n k" by blast
  then show ?thesis
  proof cases
    case check
    then show ?thesis using no_overshoot_check [OF check _ assms(2,6)] s by (simp add: G')
  next
    case drop
    then show ?thesis using no_overshoot_drop [OF assms(3,4,2,6), of t k m n] s by (auto simp: G')
  next
    case other
    note w = thread_step_weight [OF s assms(4) ord other]
    have "owns (pcs G u) a \<Longrightarrow> a < next_cell ?S" for u a using assms(5) unfolding own_inv_def by blast
    then have "adds_entry ?S' (pcs G u) \<Longrightarrow> adds_entry ?S (pcs G u)" for u using adds_entry_keep [OF s _ w(2)] by blast
    then have "card (adders T G') + (if adds_entry ?S (pcs G t) then 1 else 0) \<le> card (adders T G) + (if adds_entry ?S' pc then 1 else 0)"
      using card_adders [OF assms(2) t, of "\<lambda>u. adds_entry ?S' (((pcs G)(t := pc)) u)" "\<lambda>u. adds_entry ?S (pcs G u)"]
      by (simp add: adders_goto G' adders_def)
    then show ?thesis using w(1) assms(6) thread_step_cells(2) [OF s] by (simp add: no_overshoot_def G' split: if_splits)
  qed
qed

lemma conc_reach_inv:
  assumes "conc_reach P env T (start_calls calls pm0) G" "finite T" "T \<noteq> {}" "filed (store pm0)" "store_len (store pm0) \<le> maxSize pm0"
  shows "filed (store (pool G)) \<and> own_inv G \<and> no_overshoot T G \<and> maxSize (pool G) = maxSize pm0"
  using assms(1)
proof induction
  case reach_start
  have e: "\<not> owns (entry c) a" "\<not> adds_entry S (entry c)" for c a S by (cases c; simp)+
  have "0 < card T" using assms(2,3) by (simp add: card_gt_0_iff)
  then show ?case using assms(4,5) by (simp add: start_calls_def own_inv_def no_overshoot_def adders_def e)
next
  case (reach_step G G')
  then show ?case
    using own_inv_step [OF reach_step.hyps(2) lock_inv_reach [OF reach_step.hyps(1)]]
      no_overshoot_step [OF reach_step.hyps(2) assms(2) lock_inv_reach [OF reach_step.hyps(1)]] by auto
qed

lemma filed_if_ok: "store_ok S \<Longrightarrow> filed S"
  by (simp add: filed_def store_ok_def cache_ok_def)

subsection \<open>The number of steps\<close>

lemma thread_step_max:
  assumes "thread_step P e ord t pc mu pm = Some (pc', mu', pm')" "range_order ord" "store_len (store pm) \<le> int m"
  shows "steps_max m pc' < steps_max m pc"
proof (cases "is_GCStart pc")
  case True
  then obtain d where pc: "pc = GCStart d" by (cases pc) auto
  have "length (Cache_List ord (index (store pm))) \<le> m"
    using assms(3) range_order_length [OF assms(2)] by (simp add: Cache_List_def store_len_def Cache_Len_def)
  with pc assms(1) show ?thesis by (auto simp: steps_max_def)
qed (use thread_step_left [OF assms(1)] in \<open>simp add: steps_max_def\<close>)

lemma conc_reach_steps:
  assumes "(conc_step P env T ^^ n) G0 G" "finite T"
    and "\<And>H. conc_reach P env T G0 H \<Longrightarrow> store_len (store (pool H)) \<le> int m"
  shows "conc_reach P env T G0 G \<and> n + (\<Sum>t\<in>T. steps_max m (pcs G t)) \<le> (\<Sum>t\<in>T. steps_max m (pcs G0 t))"
  using assms(1)
proof (induction n arbitrary: G)
  case 0
  then show ?case by (simp add: reach_start)
next
  case (Suc n)
  then obtain H where "(conc_step P env T ^^ n) G0 H" and step: "conc_step P env T H G" by auto
  with Suc.IH have H: "conc_reach P env T G0 H" and le: "n + (\<Sum>t\<in>T. steps_max m (pcs H t)) \<le> (\<Sum>t\<in>T. steps_max m (pcs G0 t))"
    by auto
  from step obtain t ord pc mu pm where t: "t \<in> T" and ord: "range_order ord"
    and s: "thread_step P (env t) ord t (pcs H t) (mutex H) (pool H) = Some (pc, mu, pm)" and G: "G = goto t (pc, mu, pm) H"
    by (rule conc_stepE)
  have "(\<Sum>u\<in>T. steps_max m (pcs G u)) < (\<Sum>u\<in>T. steps_max m (pcs H u))"
    using assms(2) t thread_step_max [OF s ord assms(3) [OF H]] by (intro sum_strict_mono_ex1) (auto simp: G)
  with le reach_step [OF H step] show ?case by simp
qed

lemma steps_max_entry: "steps_max m (entry c) = call_steps m c"
  by (cases c) (simp_all add: steps_max_def return_steps_def)

text \<open>Two goroutines that move in turn on a pool of size one: both pass the capacity check, then both create.\<close>

lemma sample_reach: "set ts \<subseteq> T \<Longrightarrow> conc_reach mock_provider sample_envs T (sample_goroutines n) (sample_run n ts)"
  unfolding sample_run_def by (rule reach_schedule) (simp_all add: reach_start)

lemma sample_overshoot:
  "store_len (store (pool (sample_run 1 [0, 1, 0, 1, 0, 1, 0, 1, 0, 1]))) = 2"
  "pcs (sample_run 1 [0, 1, 0, 1, 0, 1, 0, 1, 0, 1]) 0 = Finished (Allocated (Inr 0))"
  "pcs (sample_run 1 [0, 1, 0, 1, 0, 1, 0, 1, 0, 1]) 1 = Finished (Allocated (Inr 1))"
  "maxSize (pool (sample_run 1 [0, 1, 0, 1, 0, 1, 0, 1, 0, 1])) = 1"
  by code_simp+

lemma sample_pool_start: "filed (store (sample_pool n))" "store_ok (store (sample_pool n))" "store_len (store (sample_pool n)) = 0"
    "maxSize (sample_pool n) = n"
  by (simp_all add: filed_if_ok sample_pool_def NewPoolManager_def)

section \<open>Properties\<close>

text \<open>C31: A call that runs alone behaves like the sequential function of \<open>Pool_Manager\<close>: when the only goroutine
  has finished, its result and the state of the pool, metrics included, are those of \<open>Allocate\<close>, \<open>AllocateWarm\<close>,
  \<open>Release\<close>, \<open>Heartbeat\<close> or \<open>RunGC\<close>, for one of the orders in which Go may visit the map.\<close>

theorem solo_call_is_sequential:
  assumes "conc_reach P env {t} (start_calls calls pm0) G" "pcs G t = Finished r"
  shows "\<exists>ord. range_order ord \<and> sequential_call P ord (env t) (calls t) pm0 = (r, pool G)"
proof -
  have "entry c \<noteq> Finished r" for c by (cases c) simp_all
  then have "G \<noteq> start_calls calls pm0" using assms(2) by (auto simp: start_calls_def)
  with solo_reach [OF assms(1)] assms(2) show ?thesis by auto
qed

theorem solo_call_is_sequential_witness:
  "\<exists>ord. range_order ord \<and> sequential_call mock_provider ord (sample_envs 0) (CallAllocate ''alice'') (sample_pool 1) =
     (Allocated (Inr 0), pool (sample_run 1 [0, 0, 0, 0, 0]))"
proof -
  have "pcs (sample_run 1 [0, 0, 0, 0, 0]) 0 = Finished (Allocated (Inr 0))" by code_simp
  then show ?thesis
    using solo_call_is_sequential [of mock_provider sample_envs 0 "\<lambda>t. CallAllocate ''alice''" "sample_pool 1"]
      sample_reach [of "[0, 0, 0, 0, 0]" "{0}" 1] by (simp add: sample_goroutines_def)
qed

text \<open>C32: However calls interleave, they all end: no run of finitely many goroutines goes on forever, and a
  state in which none can move is one in which all have returned, so the mutex never leads to a deadlock. From a
  consistent pool that is not overfull, no schedule of the calls has more steps than the sum of their bounds: 6
  for an \<^verbatim>\<open>Allocate\<close>, 4 for an \<^verbatim>\<open>AllocateWarm\<close>, 5 for a \<^verbatim>\<open>Release\<close>, 2 for a \<^verbatim>\<open>Heartbeat\<close>, and 2 + 8m for a \<^verbatim>\<open>RunGC\<close>, where
  m = \<^verbatim>\<open>maxSize + |T| - 1\<close> bounds what a collection can find in the cache.\<close>

theorem concurrent_calls_finish:
  assumes "finite T"
  shows "(\<nexists>f. \<forall>i. conc_step P env T (f i) (f (Suc i))) \<and>
    (\<forall>G. conc_reach P env T (start_calls calls pm0) G \<longrightarrow> (\<nexists>G'. conc_step P env T G G') \<longrightarrow>
       (\<forall>t \<in> T. \<exists>r. pcs G t = Finished r)) \<and>
    (store_ok (store pm0) \<longrightarrow> store_len (store pm0) \<le> maxSize pm0 \<longrightarrow>
       (\<forall>n G. (conc_step P env T ^^ n) (start_calls calls pm0) G \<longrightarrow>
          n \<le> (\<Sum>t\<in>T. call_steps (nat (maxSize pm0 + int (card T) - 1)) (calls t))))"
proof (intro conjI impI)
  show "\<nexists>f. \<forall>i. conc_step P env T (f i) (f (Suc i))"
    using conc_step_wf [OF assms, of P env] by (simp add: wf_iff_no_infinite_down_chain)
  show "\<forall>G. conc_reach P env T (start_calls calls pm0) G \<longrightarrow> (\<nexists>G'. conc_step P env T G G') \<longrightarrow>
       (\<forall>t \<in> T. \<exists>r. pcs G t = Finished r)"
    using conc_progress [OF lock_inv_reach] by blast
  assume ok: "store_ok (store pm0)" and len: "store_len (store pm0) \<le> maxSize pm0"
  let ?m = "nat (maxSize pm0 + int (card T) - 1)" and ?G0 = "start_calls calls pm0"
  show "\<forall>n G. (conc_step P env T ^^ n) ?G0 G \<longrightarrow> n \<le> (\<Sum>t\<in>T. call_steps ?m (calls t))"
  proof (cases "T = {}")
    case True
    have none: "\<not> conc_step P env {} H G" for H G by (auto elim: conc_stepE)
    have "n = 0" if "(conc_step P env {} ^^ n) ?G0 G" for n G using that none by (cases n) auto
    with True show ?thesis by simp
  next
    case False
    have "store_len (store (pool H)) \<le> int ?m" if "conc_reach P env T ?G0 H" for H
      using conc_reach_inv [OF that assms False filed_if_ok [OF ok] len] by (simp add: no_overshoot_def)
    from conc_reach_steps [OF _ assms this] have "n + (\<Sum>t\<in>T. steps_max ?m (pcs G t)) \<le> (\<Sum>t\<in>T. call_steps ?m (calls t))"
      if "(conc_step P env T ^^ n) ?G0 G" for n G using that by (fastforce simp: start_calls_def steps_max_entry)
    then show ?thesis by (meson add_leD1)
  qed
qed

theorem concurrent_calls_finish_witness:
  "\<nexists>G. (conc_step mock_provider sample_envs {0, 1} ^^ 13) (start_calls (\<lambda>t. CallAllocate ''alice'') (sample_pool 1)) G"
proof
  let ?G0 = "start_calls (\<lambda>t. CallAllocate ''alice'') (sample_pool 1)" and ?m = "nat (maxSize (sample_pool 1) + int (card {0 :: nat, 1}) - 1)"
  have "finite {0 :: nat, 1}" by simp
  note fin = concurrent_calls_finish [OF this, of mock_provider sample_envs "\<lambda>t. CallAllocate ''alice''" "sample_pool 1"]
  have "store_ok (store (sample_pool 1))" "store_len (store (sample_pool 1)) \<le> maxSize (sample_pool 1)"
    by (simp_all add: sample_pool_start)
  with fin have all: "\<forall>n G. (conc_step mock_provider sample_envs {0, 1} ^^ n) ?G0 G \<longrightarrow>
      n \<le> (\<Sum>t \<in> {0 :: nat, 1}. call_steps ?m (CallAllocate ''alice''))" by blast
  assume "\<exists>G. (conc_step mock_provider sample_envs {0, 1} ^^ 13) ?G0 G"
  with all have "13 \<le> (\<Sum>t \<in> {0 :: nat, 1}. call_steps ?m (CallAllocate ''alice''))" by blast
  then show False by simp
qed

text \<open>C11: However the goroutines of a non-empty set \<open>T\<close> interleave, whatever calls they make, the cache holds at most
  \<^verbatim>\<open>maxSize + |T| - 1\<close> allocations: each call but one can overshoot by one, and a single caller never
  exceeds \<^verbatim>\<open>maxSize\<close>.\<close>

theorem concurrent_allocate_bound:
  assumes "conc_reach P env T (start_calls calls pm0) G" "finite T" "T \<noteq> {}"
    and "store_ok (store pm0)" "store_len (store pm0) \<le> maxSize pm0"
  shows "store_len (store (pool G)) \<le> maxSize pm0 + int (card T) - 1"
  using conc_reach_inv [OF assms(1-3) filed_if_ok [OF assms(4)] assms(5)] by (simp add: no_overshoot_def)

theorem concurrent_allocate_bound_witness:
  "store_len (store (pool (sample_run 1 [0, 1, 0, 1, 0, 1, 0, 1, 0, 1]))) \<le> 1 + int (card {0 :: nat, 1}) - 1"
  using concurrent_allocate_bound [OF sample_reach [of "[0, 1, 0, 1, 0, 1, 0, 1, 0, 1]" "{0, 1}" 1, unfolded sample_goroutines_def]]
  by (simp add: sample_pool_start)

text \<open>The bound \<^verbatim>\<open>maxSize\<close> itself does not hold under concurrency, because the mutex is released
  between the capacity check and the insertion: two goroutines that both pass the check on an empty
  pool of size one leave it with two allocations.\<close>

theorem concurrent_allocate_exceeds_max:
  "\<exists>G. conc_reach mock_provider sample_envs {0, 1} (start_calls (\<lambda>t. CallAllocate ''alice'') (sample_pool 1)) G \<and>
     maxSize (pool G) = 1 \<and> store_len (store (pool G)) = 2"
  using sample_reach [of "[0, 1, 0, 1, 0, 1, 0, 1, 0, 1]" "{0, 1}" 1] sample_overshoot
  by (auto simp: sample_goroutines_def)

end
