(* ===== verification/Config.thy ===== *)
theory Config
  imports Pool_Manager
begin

text \<open>
  The configuration, \<^verbatim>\<open>internal/config/config.go\<close>: defaults, YAML file, environment overrides, validation.

  Reading the file and the YAML decoder are arguments (the decoder is third-party code: it overwrites fields of a
  given configuration or fails), as is the environment, a function that returns the empty string for a
  variable that is not set.  \<^verbatim>\<open>time.ParseDuration\<close> is modelled up to the floating-point product it
  uses for the fraction of a number, which is an argument: \<open>frac f k unit\<close> stands for
  \<^verbatim>\<open>uint64(float64(f) * (float64(unit) / 1e<k>))\<close>.
\<close>

section \<open>Definitions\<close>

subsection \<open>Data\<close>

record PoolConfig =
  pc_MinReady :: int
  pc_MaxSize :: int
  pc_IdleTimeout :: int
  pc_GCInterval :: int
  pc_WarmPoolName :: string
  pc_Namespace :: string
  pc_Mode :: string
  pc_MockTarget :: string

record RouterConfig =
  rc_ListenAddr :: string
  rc_SessionHeader :: string
  rc_SessionCookie :: string
  rc_SessionQuery :: string
  rc_APIKeys :: "string list"
  rc_MaxBodyBytes :: int

record TemporalConfig =
  tc_HostPort :: string
  tc_Namespace :: string
  tc_TaskQueue :: string

record TelemetryConfig =
  lc_ServiceName :: string
  lc_OTelEndpoint :: string
  lc_PrometheusPort :: int
  lc_LogLevel :: string

record LiteLLMConfig =
  llm_Endpoint :: string
  llm_APIKey :: string

record Config =
  cfg_Pool :: PoolConfig
  cfg_Router :: RouterConfig
  cfg_Temporal :: TemporalConfig
  cfg_Telemetry :: TelemetryConfig
  cfg_LiteLLM :: LiteLLMConfig

definition DefaultConfig :: Config where
  "DefaultConfig =
     \<lparr>cfg_Pool = \<lparr>pc_MinReady = 3, pc_MaxSize = 50, pc_IdleTimeout = 10 * Minute, pc_GCInterval = 30 * Second,
        pc_WarmPoolName = ''default'', pc_Namespace = ''opencode-scale'', pc_Mode = ''local'', pc_MockTarget = ''localhost:4096''\<rparr>,
      cfg_Router = \<lparr>rc_ListenAddr = '':8080'', rc_SessionHeader = ''X-Session-ID'', rc_SessionCookie = ''session_id'',
        rc_SessionQuery = ''session_id'', rc_APIKeys = [], rc_MaxBodyBytes = 1048576\<rparr>,
      cfg_Temporal = \<lparr>tc_HostPort = ''localhost:7233'', tc_Namespace = ''opencode-scale'', tc_TaskQueue = ''coding-tasks''\<rparr>,
      cfg_Telemetry = \<lparr>lc_ServiceName = ''opencode-scale'', lc_OTelEndpoint = ''localhost:4317'', lc_PrometheusPort = 9090,
        lc_LogLevel = ''info''\<rparr>,
      cfg_LiteLLM = \<lparr>llm_Endpoint = ''http://localhost:4000'', llm_APIKey = []\<rparr>\<rparr>"

subsection \<open>Durations\<close>

definition dur_units :: "(string \<times> nat) list" where
  "dur_units =
     [(''ns'', 1), (''us'', 1000), ([CHR 0xC2, CHR 0xB5, CHR ''s''], 1000), ([CHR 0xCE, CHR 0xBC, CHR ''s''], 1000),
      (''ms'', 1000000), (''s'', 1000000000), (''m'', 60000000000), (''h'', 3600000000000)]"

definition dur_num :: "char \<Rightarrow> bool" where
  "dur_num c \<longleftrightarrow> c = CHR ''.'' \<or> digit_val c \<noteq> None"

text \<open>\<^verbatim>\<open>leadingInt\<close>: the value of the digits at the head and the rest, \<open>None\<close> on overflow.\<close>

fun leadingInt :: "nat \<Rightarrow> string \<Rightarrow> (nat \<times> string) option" where
  "leadingInt x [] = Some (x, [])"
| "leadingInt x (c # cs) =
     (case digit_val c of
        None \<Rightarrow> Some (x, c # cs)
      | Some d \<Rightarrow>
          if x > 2 ^ 63 div 10 then None
          else if x * 10 + d > 2 ^ 63 then None else leadingInt (x * 10 + d) cs)"

text \<open>\<^verbatim>\<open>leadingFraction\<close>: the digits of the fraction as an integer, their number, and the rest; digits that do
  not fit are skipped.\<close>

fun leadingFraction :: "nat \<Rightarrow> nat \<Rightarrow> bool \<Rightarrow> string \<Rightarrow> nat \<times> nat \<times> string" where
  "leadingFraction x k overflow [] = (x, k, [])"
| "leadingFraction x k overflow (c # cs) =
     (case digit_val c of
        None \<Rightarrow> (x, k, c # cs)
      | Some d \<Rightarrow>
          if overflow then leadingFraction x k True cs
          else if x > (2 ^ 63 - 1) div 10 then leadingFraction x k True cs
          else if x * 10 + d > 2 ^ 63 then leadingFraction x k True cs
          else leadingFraction (x * 10 + d) (k + 1) False cs)"

text \<open>One number with its unit: its nanoseconds and the rest.\<close>

definition dur_item :: "(nat \<Rightarrow> nat \<Rightarrow> nat \<Rightarrow> nat) \<Rightarrow> string \<Rightarrow> (nat \<times> string) option" where
  "dur_item frac s =
     (if s = [] \<or> \<not> dur_num (hd s) then None
      else case leadingInt 0 s of None \<Rightarrow> None | Some (v, s1) \<Rightarrow>
        (let pre = length s1 \<noteq> length s;
             has_dot = (s1 \<noteq> [] \<and> hd s1 = CHR ''.'');
             (f, k, s2) = (if has_dot then leadingFraction 0 0 False (tl s1) else (0, 0, s1));
             post = (has_dot \<and> length s2 \<noteq> length (tl s1));
             u = takeWhile (\<lambda>c. \<not> dur_num c) s2;
             s3 = dropWhile (\<lambda>c. \<not> dur_num c) s2
         in if \<not> pre \<and> \<not> post then None
            else if u = [] then None
            else case map_of dur_units u of None \<Rightarrow> None | Some unit \<Rightarrow>
              if v > 2 ^ 63 div unit then None
              else (let v' = v * unit + (if f > 0 then frac f k unit else 0)
                    in if f > 0 \<and> v' > 2 ^ 63 then None else Some (v', s3))))"

lemma leadingInt_shorter: "leadingInt x s = Some (v, r) \<Longrightarrow> length r \<le> length s"
proof (induction x s rule: leadingInt.induct)
  case (2 x c cs)
  then show ?case by (fastforce split: option.splits if_splits)
qed simp

lemma leadingFraction_shorter: "leadingFraction x k ov s = (f, n, r) \<Longrightarrow> length r \<le> length s"
proof (induction x k ov s rule: leadingFraction.induct)
  case (2 x k ov c cs)
  then show ?case by (fastforce split: option.splits if_splits)
qed simp

lemma dur_item_shorter: "dur_item frac s = Some (v, r) \<Longrightarrow> length r < length s"
proof -
  assume a: "dur_item frac s = Some (v, r)"
  then obtain v1 s1 where i: "leadingInt 0 s = Some (v1, s1)" by (auto simp: dur_item_def split: if_splits option.splits)
  define fk where "fk = (if s1 \<noteq> [] \<and> hd s1 = CHR ''.'' then leadingFraction 0 0 False (tl s1) else (0, 0, s1))"
  obtain f k s2 where fk2: "fk = (f, k, s2)" by (rule prod_cases3)
  have le: "length s2 \<le> length s1"
    using leadingFraction_shorter [of 0 0 False "tl s1" f k s2] fk2 by (auto simp: fk_def split: if_splits)
  have u: "takeWhile (\<lambda>c. \<not> dur_num c) s2 \<noteq> []" and r: "r = dropWhile (\<lambda>c. \<not> dur_num c) s2"
    using a i fk2 unfolding fk_def [symmetric] dur_item_def
    by (auto simp: Let_def fk_def split: if_splits option.splits)
  have "length s2 = length (takeWhile (\<lambda>c. \<not> dur_num c) s2) + length r"
    by (simp add: r flip: length_append)
  with u have "length r < length s2" by simp
  with le leadingInt_shorter [OF i] show "length r < length s" by simp
qed

function dur_loop :: "(nat \<Rightarrow> nat \<Rightarrow> nat \<Rightarrow> nat) \<Rightarrow> nat \<Rightarrow> string \<Rightarrow> nat option" where
  "dur_loop frac d s =
     (if s = [] then Some d
      else case dur_item frac s of None \<Rightarrow> None
      | Some (v, r) \<Rightarrow> if (d + v) mod 2 ^ 64 > 2 ^ 63 then None else dur_loop frac ((d + v) mod 2 ^ 64) r)"
  by pat_completeness auto
termination
  by (relation "measure (\<lambda>(frac, d, s). length s)") (auto simp: dur_item_shorter)

definition ParseDuration :: "(nat \<Rightarrow> nat \<Rightarrow> nat \<Rightarrow> nat) \<Rightarrow> string \<Rightarrow> int option" where
  "ParseDuration frac s =
     (case split_sign s of (neg, s') \<Rightarrow>
        if s' = ''0'' then Some 0
        else if s' = [] then None
        else case dur_loop frac 0 s' of None \<Rightarrow> None
          | Some d \<Rightarrow> if neg then Some (- int d) else if d > 2 ^ 63 - 1 then None else Some (int d))"

subsection \<open>Environment\<close>

type_synonym environment = "string \<Rightarrow> string"

definition getEnv :: "environment \<Rightarrow> string \<Rightarrow> string" where
  "getEnv env key = env key"

definition getEnvInt :: "environment \<Rightarrow> string \<Rightarrow> int option" where
  "getEnvInt env key = (if env key = [] then None else atoi (env key))"

definition getEnvDuration :: "(nat \<Rightarrow> nat \<Rightarrow> nat \<Rightarrow> nat) \<Rightarrow> environment \<Rightarrow> string \<Rightarrow> int option" where
  "getEnvDuration frac env key = (if env key = [] then None else ParseDuration frac (env key))"

text \<open>\<open>set_opt\<close> and \<open>set_str\<close>: the two kinds of conditional assignment.\<close>

definition set_opt :: "'v option \<Rightarrow> ('v \<Rightarrow> 'c \<Rightarrow> 'c) \<Rightarrow> 'c \<Rightarrow> 'c" where
  "set_opt v f c = (case v of Some x \<Rightarrow> f x c | None \<Rightarrow> c)"

definition set_str :: "string \<Rightarrow> (string \<Rightarrow> 'c \<Rightarrow> 'c) \<Rightarrow> 'c \<Rightarrow> 'c" where
  "set_str v f c = (if v \<noteq> [] then f v c else c)"

definition pool_overrides :: "(nat \<Rightarrow> nat \<Rightarrow> nat \<Rightarrow> nat) \<Rightarrow> environment \<Rightarrow> PoolConfig \<Rightarrow> PoolConfig" where
  "pool_overrides frac env =
     set_str (getEnv env ''MOCK_OPENCODE_TARGET'') (\<lambda>v. pc_MockTarget_update (\<lambda>_. v)) \<circ>
     set_str (getEnv env ''POOL_MODE'') (\<lambda>v. pc_Mode_update (\<lambda>_. v)) \<circ>
     set_str (getEnv env ''POOL_NAMESPACE'') (\<lambda>v. pc_Namespace_update (\<lambda>_. v)) \<circ>
     set_opt (getEnvDuration frac env ''POOL_IDLE_TIMEOUT'') (\<lambda>v. pc_IdleTimeout_update (\<lambda>_. v)) \<circ>
     set_opt (getEnvInt env ''POOL_MAX_SIZE'') (\<lambda>v. pc_MaxSize_update (\<lambda>_. v)) \<circ>
     set_opt (getEnvInt env ''POOL_MIN_READY'') (\<lambda>v. pc_MinReady_update (\<lambda>_. v))"

definition router_overrides :: "environment \<Rightarrow> RouterConfig \<Rightarrow> RouterConfig" where
  "router_overrides env =
     set_opt (getEnvInt env ''MAX_BODY_BYTES'') (\<lambda>v. rc_MaxBodyBytes_update (\<lambda>_. v)) \<circ>
     set_str (getEnv env ''API_KEYS'') (\<lambda>v. rc_APIKeys_update (\<lambda>_. SplitChar (CHR '','') v)) \<circ>
     set_str (getEnv env ''ROUTER_LISTEN_ADDR'') (\<lambda>v. rc_ListenAddr_update (\<lambda>_. v))"

definition temporal_overrides :: "environment \<Rightarrow> TemporalConfig \<Rightarrow> TemporalConfig" where
  "temporal_overrides env =
     set_str (getEnv env ''TEMPORAL_TASK_QUEUE'') (\<lambda>v. tc_TaskQueue_update (\<lambda>_. v)) \<circ>
     set_str (getEnv env ''TEMPORAL_NAMESPACE'') (\<lambda>v. tc_Namespace_update (\<lambda>_. v)) \<circ>
     set_str (getEnv env ''TEMPORAL_HOST_PORT'') (\<lambda>v. tc_HostPort_update (\<lambda>_. v))"

definition telemetry_overrides :: "environment \<Rightarrow> TelemetryConfig \<Rightarrow> TelemetryConfig" where
  "telemetry_overrides env =
     set_opt (getEnvInt env ''PROMETHEUS_PORT'') (\<lambda>v. lc_PrometheusPort_update (\<lambda>_. v)) \<circ>
     set_str (getEnv env ''OTEL_ENDPOINT'') (\<lambda>v. lc_OTelEndpoint_update (\<lambda>_. v))"

definition litellm_overrides :: "environment \<Rightarrow> LiteLLMConfig \<Rightarrow> LiteLLMConfig" where
  "litellm_overrides env =
     set_str (getEnv env ''LITELLM_API_KEY'') (\<lambda>v. llm_APIKey_update (\<lambda>_. v)) \<circ>
     set_str (getEnv env ''LITELLM_ENDPOINT'') (\<lambda>v. llm_Endpoint_update (\<lambda>_. v))"

definition applyEnvOverrides :: "(nat \<Rightarrow> nat \<Rightarrow> nat \<Rightarrow> nat) \<Rightarrow> environment \<Rightarrow> Config \<Rightarrow> Config" where
  "applyEnvOverrides frac env c =
     \<lparr>cfg_Pool = pool_overrides frac env (cfg_Pool c), cfg_Router = router_overrides env (cfg_Router c),
      cfg_Temporal = temporal_overrides env (cfg_Temporal c), cfg_Telemetry = telemetry_overrides env (cfg_Telemetry c),
      cfg_LiteLLM = litellm_overrides env (cfg_LiteLLM c)\<rparr>"

subsection \<open>Validation and loading\<close>

definition Config_Validate :: "Config \<Rightarrow> go_error option" where
  "Config_Validate c =
     (let p = cfg_Pool c in
      if pc_MinReady p < 0 then Some (Errorf (''pool.minReady must be >= 0, got '' @ itoa (pc_MinReady p)))
      else if pc_MaxSize p < 1 then Some (Errorf (''pool.maxSize must be >= 1, got '' @ itoa (pc_MaxSize p)))
      else if pc_MinReady p > pc_MaxSize p then
        Some (Errorf (''pool.minReady ('' @ itoa (pc_MinReady p) @ '') must be <= pool.maxSize ('' @ itoa (pc_MaxSize p) @ '')''))
      else if rc_ListenAddr (cfg_Router c) = [] then Some (Errorf ''router.listenAddr is required'')
      else if tc_HostPort (cfg_Temporal c) = [] then Some (Errorf ''temporal.hostPort is required'')
      else if tc_Namespace (cfg_Temporal c) = [] then Some (Errorf ''temporal.namespace is required'')
      else if tc_TaskQueue (cfg_Temporal c) = [] then Some (Errorf ''temporal.taskQueue is required'')
      else None)"

record ConfigEnv =
  ce_ReadFile :: "string \<Rightarrow> go_error + string"
  ce_yaml :: "string \<Rightarrow> Config \<Rightarrow> go_error + Config"
  ce_Getenv :: environment
  ce_frac :: "nat \<Rightarrow> nat \<Rightarrow> nat \<Rightarrow> nat"

definition Load :: "ConfigEnv \<Rightarrow> string \<Rightarrow> go_error + Config" where
  "Load E path =
     (case ce_ReadFile E path of
        Inl err \<Rightarrow> Inl (Wrapf ''reading config file: '' err)
      | Inr data \<Rightarrow>
     (case ce_yaml E data DefaultConfig of
        Inl err \<Rightarrow> Inl (Wrapf ''parsing config file: '' err)
      | Inr c \<Rightarrow>
     (let c = applyEnvOverrides (ce_frac E) (ce_Getenv E) c in
      case Config_Validate c of
        Some err \<Rightarrow> Inl (Wrapf ''validating config: '' err)
      | None \<Rightarrow> Inr c)))"

section \<open>Lemmas\<close>

subsection \<open>Overrides\<close>

lemma set_simps [simp]:
  "set_opt None f c = c" "set_opt (Some x) f c = f x c" "set_str [] f c = c" "v \<noteq> [] \<Longrightarrow> set_str v f c = f v c"
  by (simp_all add: set_opt_def set_str_def)

text \<open>What an override leaves in a field: the last setting wins, and a variable that is not set or, for a number or
  a duration, that does not parse leaves the field alone.\<close>

lemma pool_overrides_fields:
  "pc_MinReady (pool_overrides frac env p) = (case getEnvInt env ''POOL_MIN_READY'' of Some v \<Rightarrow> v | None \<Rightarrow> pc_MinReady p)"
  "pc_MaxSize (pool_overrides frac env p) = (case getEnvInt env ''POOL_MAX_SIZE'' of Some v \<Rightarrow> v | None \<Rightarrow> pc_MaxSize p)"
  "pc_IdleTimeout (pool_overrides frac env p) =
     (case getEnvDuration frac env ''POOL_IDLE_TIMEOUT'' of Some v \<Rightarrow> v | None \<Rightarrow> pc_IdleTimeout p)"
  "pc_GCInterval (pool_overrides frac env p) = pc_GCInterval p"
  by (simp_all add: pool_overrides_def set_opt_def set_str_def split: option.split)

subsection \<open>Durations\<close>

lemma digit_val_bounds: "digit_val c = Some d \<Longrightarrow> d < 10"
  by (auto simp: digit_val_def Let_def split: if_splits)

lemma parse_digits_ge: "parse_digits x s = Some v \<Longrightarrow> x \<le> v"
proof (induction x s rule: parse_digits.induct)
  case (2 x c cs)
  then obtain d where "digit_val c = Some d" "parse_digits (x * 10 + d) cs = Some v" by (auto split: option.splits)
  with "2.IH" show ?case by fastforce
qed simp

text \<open>Digits followed by something else are read as their value.\<close>

lemma leadingInt_digits:
  "parse_digits x s = Some v \<Longrightarrow> v < 2 ^ 63 \<Longrightarrow> r = [] \<or> digit_val (hd r) = None \<Longrightarrow> leadingInt x (s @ r) = Some (v, r)"
proof (induction x s rule: parse_digits.induct)
  case (1 x)
  then show ?case by (cases r) auto
next
  case (2 x c cs)
  then obtain d where d: "digit_val c = Some d" "parse_digits (x * 10 + d) cs = Some v" by (auto split: option.splits)
  have "x * 10 + d \<le> v" using parse_digits_ge [OF d(2)] .
  then have "\<not> x > 2 ^ 63 div 10" "\<not> x * 10 + d > 2 ^ 63" using "2.prems"(2) by simp_all
  with d "2.IH" [OF d] "2.prems" show ?case by (simp add: mult.commute)
qed

lemma dur_units_plain:
  assumes "map_of dur_units u = Some n"
  shows "u \<noteq> []" "\<forall>c \<in> set u. \<not> dur_num c" "0 < n"
proof -
  have "list_all (\<lambda>(u, n). u \<noteq> [] \<and> list_all (\<lambda>c. \<not> dur_num c) u \<and> 0 < n) dur_units"
    by (simp add: dur_units_def dur_num_def digit_val_def)
  moreover have "(u, n) \<in> set dur_units" by (rule map_of_SomeD [OF assms])
  ultimately show "u \<noteq> []" "\<forall>c \<in> set u. \<not> dur_num c" "0 < n" by (auto simp: list_all_iff)
qed

lemma dur_item_digits:
  assumes "map_of dur_units u = Some unit" "n * unit \<le> 2 ^ 63" "n < 2 ^ 63"
  shows "dur_item frac (digits_of_nat n @ u) = Some (n * unit, [])"
proof -
  note u = dur_units_plain [OF assms(1)]
  have hd_u: "digit_val (hd u) = None" "hd u \<noteq> CHR ''.''" using u(1,2) by (auto simp: dur_num_def)
  obtain c cs where c: "digits_of_nat n = c # cs" by (cases "digits_of_nat n") auto
  then have "digit_val c \<noteq> None" using digits_of_nat_are_digits [of c n] by simp
  then have hd_s: "dur_num (hd (digits_of_nat n @ u))" using c by (simp add: dur_num_def)
  have i: "leadingInt 0 (digits_of_nat n @ u) = Some (n, u)"
    using assms(3) hd_u by (intro leadingInt_digits) (simp_all add: parse_digits_of_nat)
  have t: "takeWhile (\<lambda>c. \<not> dur_num c) u = u" using u(2) by (simp add: takeWhile_eq_all_conv)
  have t': "dropWhile (\<lambda>c. \<not> dur_num c) u = []" using u(2) by simp
  have "n \<le> 2 ^ 63 div unit" using assms(2) u(3) by (simp add: less_eq_div_iff_mult_less_eq)
  with hd_s i hd_u u(1) assms(1) show ?thesis by (simp add: dur_item_def Let_def t t' del: takeWhile_eq_all_conv)
qed

lemma ParseDuration_units:
  assumes "map_of dur_units u = Some unit" "n * unit < 2 ^ 63"
  shows "ParseDuration frac (itoa (int n) @ u) = Some (int (n * unit))"
proof -
  note u = dur_units_plain [OF assms(1)]
  obtain c cs where c: "digits_of_nat n = c # cs" by (cases "digits_of_nat n") auto
  then have s: "split_sign (digits_of_nat n @ u) = (False, digits_of_nat n @ u)"
    using digits_of_nat_hd [OF c] by (simp add: split_sign_def)
  have z: "digits_of_nat n @ u \<noteq> ''0''" using u(1) c by simp
  have "n \<le> n * unit" using u(3) by simp
  with assms(2) have n: "n < 2 ^ 63" by linarith
  note item = dur_item_digits [OF assms(1) less_imp_le [OF assms(2)] n, of frac]
  have m: "(0 + n * unit) mod 2 ^ 64 = n * unit" using assms(2) by simp
  have ne: "digits_of_nat n @ u \<noteq> []" using c by simp
  have le: "\<not> 2 ^ 63 < n * unit" "\<not> 2 ^ 63 - 1 < n * unit" using assms(2) by linarith+
  have "dur_loop frac 0 (digits_of_nat n @ u) = Some (n * unit)"
    unfolding dur_loop.simps [of frac 0 "digits_of_nat n @ u"] item
    by (simp only: ne if_False option.case prod.case m le dur_loop.simps [of frac _ "[]"] if_True refl)
  then show ?thesis using ne by (simp only: ParseDuration_def itoa_def of_nat_less_0_iff if_False nat_int s prod.case z le option.case)
qed

section \<open>Properties\<close>

text \<open>C25: A configuration is loaded exactly when the file can be read and parsed and the result, with the environment
  applied, has 0 \<open>\<le>\<close> minReady \<open>\<le>\<close> maxSize, maxSize at least one, and a listen address, Temporal address, namespace
  and task queue; what is returned is the parsed configuration with the overrides, in which the pool sizes
  are those of the environment whenever it has integers for them.\<close>

theorem Load_exact:
  "(Load E path = Inr c \<longleftrightarrow>
     (\<exists>data c0. ce_ReadFile E path = Inr data \<and> ce_yaml E data DefaultConfig = Inr c0 \<and>
        c = applyEnvOverrides (ce_frac E) (ce_Getenv E) c0 \<and>
        0 \<le> pc_MinReady (cfg_Pool c) \<and> pc_MinReady (cfg_Pool c) \<le> pc_MaxSize (cfg_Pool c) \<and> 1 \<le> pc_MaxSize (cfg_Pool c) \<and>
        rc_ListenAddr (cfg_Router c) \<noteq> [] \<and> tc_HostPort (cfg_Temporal c) \<noteq> [] \<and> tc_Namespace (cfg_Temporal c) \<noteq> [] \<and>
        tc_TaskQueue (cfg_Temporal c) \<noteq> [])) \<and>
   pc_MaxSize (cfg_Pool (applyEnvOverrides frac env c)) =
     (case getEnvInt env ''POOL_MAX_SIZE'' of Some v \<Rightarrow> v | None \<Rightarrow> pc_MaxSize (cfg_Pool c)) \<and>
   pc_MinReady (cfg_Pool (applyEnvOverrides frac env c)) =
     (case getEnvInt env ''POOL_MIN_READY'' of Some v \<Rightarrow> v | None \<Rightarrow> pc_MinReady (cfg_Pool c))"
proof -
  have v: "Config_Validate c = None \<longleftrightarrow> 0 \<le> pc_MinReady (cfg_Pool c) \<and> pc_MinReady (cfg_Pool c) \<le> pc_MaxSize (cfg_Pool c) \<and>
      1 \<le> pc_MaxSize (cfg_Pool c) \<and> rc_ListenAddr (cfg_Router c) \<noteq> [] \<and> tc_HostPort (cfg_Temporal c) \<noteq> [] \<and>
      tc_Namespace (cfg_Temporal c) \<noteq> [] \<and> tc_TaskQueue (cfg_Temporal c) \<noteq> []" for c
    by (auto simp: Config_Validate_def Let_def)
  have "Load E path = Inr c \<longleftrightarrow>
     (\<exists>data c0. ce_ReadFile E path = Inr data \<and> ce_yaml E data DefaultConfig = Inr c0 \<and>
        c = applyEnvOverrides (ce_frac E) (ce_Getenv E) c0 \<and> Config_Validate c = None)"
    by (auto simp: Load_def Let_def split: sum.splits option.splits)
  then show ?thesis unfolding v by (simp add: applyEnvOverrides_def pool_overrides_fields)
qed

text \<open>Validation does not look at the collection interval: the default configuration with any interval is valid,
  and with one that is not positive the garbage collector panics when it is started.\<close>

theorem gc_interval_unchecked:
  "Config_Validate (DefaultConfig\<lparr>cfg_Pool := (cfg_Pool DefaultConfig)\<lparr>pc_GCInterval := 0\<rparr>\<rparr>) = None \<and>
   StartGCLoop P 0 timeout evs pm = Panic ''non-positive interval for NewTicker''"
  by (simp add: Config_Validate_def DefaultConfig_def Let_def StartGCLoop_def NewTicker_def)

end
