(* ===== verification/Sandbox_Controller.thy ===== *)
theory Sandbox_Controller
  imports Pool_Manager Config
begin

text \<open>
  The controller of sandbox claims, \<^verbatim>\<open>internal/controller/reconciler.go\<close>, with its metrics,
  \<^verbatim>\<open>internal/controller/metrics.go\<close>.

  The Kubernetes API is the \<open>ClaimAPI\<close> of the sandbox provider, over a state of the API server.  The informer and
  the collection loop run concurrently: \<open>Start\<close> runs on the sequence in which the informer's callbacks and
  the ticks of the collection loop happen, until the context is cancelled.
\<close>

section \<open>Definitions\<close>

subsection \<open>Metrics\<close>

record ControllerMetrics =
  cm_sandboxClaims :: "(int \<times> string) list"
  cm_gcDeletions :: "int list"

definition NewControllerMetrics :: "(string \<Rightarrow> go_error option) \<Rightarrow> go_error + ControllerMetrics" where
  "NewControllerMetrics meter =
     (case meter ''opencode_scale_sandbox_claims_total'' of Some err \<Rightarrow> Inl err | None \<Rightarrow>
     (case meter ''opencode_scale_gc_deletions_total'' of Some err \<Rightarrow> Inl err | None \<Rightarrow>
        Inr \<lparr>cm_sandboxClaims = [], cm_gcDeletions = []\<rparr>))"

definition RecordClaimEvent :: "string \<Rightarrow> ControllerMetrics \<Rightarrow> ControllerMetrics" where
  "RecordClaimEvent phase m = m\<lparr>cm_sandboxClaims := cm_sandboxClaims m @ [(1, phase)]\<rparr>"

definition RecordGCDeletion :: "ControllerMetrics \<Rightarrow> ControllerMetrics" where
  "RecordGCDeletion m = m\<lparr>cm_gcDeletions := cm_gcDeletions m @ [1]\<rparr>"

subsection \<open>The reconciler\<close>

record SandboxReconciler =
  rec_namespace :: string
  rec_metrics :: "ControllerMetrics option"
  rec_gcTimeout :: int

type_synonym ReconcilerOption = "SandboxReconciler \<Rightarrow> SandboxReconciler"

definition NewSandboxReconciler :: "string \<Rightarrow> ReconcilerOption list \<Rightarrow> SandboxReconciler" where
  "NewSandboxReconciler ns opts =
     fold (\<lambda>opt r. opt r) opts \<lparr>rec_namespace = ns, rec_metrics = None, rec_gcTimeout = 10 * Minute\<rparr>"

definition WithMetrics :: "ControllerMetrics \<Rightarrow> ReconcilerOption" where
  "WithMetrics m r = r\<lparr>rec_metrics := Some m\<rparr>"

definition WithGCTimeout :: "int \<Rightarrow> ReconcilerOption" where
  "WithGCTimeout d r = r\<lparr>rec_gcTimeout := d\<rparr>"

text \<open>The reconciler that the controller program builds, \<^verbatim>\<open>cmd/controller/main.go\<close>.\<close>

definition controller_main :: "Config \<Rightarrow> SandboxReconciler" where
  "controller_main cfg = NewSandboxReconciler (pc_Namespace (cfg_Pool cfg)) [WithGCTimeout (pc_IdleTimeout (cfg_Pool cfg))]"

subsection \<open>Callbacks of the informer\<close>

text \<open>An object handed to a callback is a claim or, for a deletion that was missed, something else.\<close>

datatype informer_obj = Unstructured SandboxClaim | OtherObject

definition nested_phase :: "SandboxClaim \<Rightarrow> string" where
  "nested_phase u = (case claim_phase u of Some p \<Rightarrow> p | None \<Rightarrow> [])"

definition AddFunc :: "informer_obj \<Rightarrow> SandboxReconciler \<Rightarrow> SandboxReconciler" where
  "AddFunc obj r =
     (case obj of
        OtherObject \<Rightarrow> r
      | Unstructured u \<Rightarrow>
          (case rec_metrics r of
             Some m \<Rightarrow> if nested_phase u \<noteq> [] then r\<lparr>rec_metrics := Some (RecordClaimEvent (nested_phase u) m)\<rparr> else r
           | None \<Rightarrow> r))"

definition UpdateFunc :: "informer_obj \<Rightarrow> informer_obj \<Rightarrow> SandboxReconciler \<Rightarrow> SandboxReconciler" where
  "UpdateFunc oldObj newObj r =
     (case newObj of
        OtherObject \<Rightarrow> r
      | Unstructured u \<Rightarrow>
          (case rec_metrics r of
             Some m \<Rightarrow> if nested_phase u \<noteq> [] then r\<lparr>rec_metrics := Some (RecordClaimEvent (nested_phase u) m)\<rparr> else r
           | None \<Rightarrow> r))"

definition DeleteFunc :: "informer_obj \<Rightarrow> SandboxReconciler \<Rightarrow> SandboxReconciler" where
  "DeleteFunc obj r = r"

subsection \<open>Collection of orphaned claims\<close>

definition terminal_phase :: "string \<Rightarrow> bool" where
  "terminal_phase phase \<longleftrightarrow> \<not> (phase \<noteq> ''Failed'' \<and> phase \<noteq> ''Completed'')"

fun cleanup_loop ::
  "'s ClaimAPI \<Rightarrow> int \<Rightarrow> SandboxClaim list \<Rightarrow> 's \<times> SandboxReconciler \<Rightarrow> 's \<times> SandboxReconciler" where
  "cleanup_loop api cutoff [] st = st"
| "cleanup_loop api cutoff (item # items) (s, r) =
     (if \<not> terminal_phase (nested_phase item) then cleanup_loop api cutoff items (s, r)
      else if claim_created item < cutoff then
        (case api_delete api (rec_namespace r) (claim_name item) s of
           (Some err, s') \<Rightarrow> cleanup_loop api cutoff items (s', r)
         | (None, s') \<Rightarrow>
             cleanup_loop api cutoff items (s', r\<lparr>rec_metrics := map_option RecordGCDeletion (rec_metrics r)\<rparr>))
      else cleanup_loop api cutoff items (s, r))"

definition cleanupOrphaned :: "'s ClaimAPI \<Rightarrow> int \<Rightarrow> 's \<times> SandboxReconciler \<Rightarrow> 's \<times> SandboxReconciler" where
  "cleanupOrphaned api now st =
     (case st of (s, r) \<Rightarrow>
      (case api_list api (rec_namespace r) managed_label s of
         (Inl err, s') \<Rightarrow> (s', r)
       | (Inr items, s') \<Rightarrow> cleanup_loop api (now + wrap64 (- rec_gcTimeout r)) items (s', r)))"

datatype controller_event = Added informer_obj | Updated informer_obj informer_obj | Deleted informer_obj | GCTick int

fun controller_step :: "'s ClaimAPI \<Rightarrow> controller_event \<Rightarrow> 's \<times> SandboxReconciler \<Rightarrow> 's \<times> SandboxReconciler" where
  "controller_step api (Added obj) (s, r) = (s, AddFunc obj r)"
| "controller_step api (Updated old new) (s, r) = (s, UpdateFunc old new r)"
| "controller_step api (Deleted obj) (s, r) = (s, DeleteFunc obj r)"
| "controller_step api (GCTick now) (s, r) = cleanupOrphaned api now (s, r)"

definition runGCLoop :: "'s ClaimAPI \<Rightarrow> int loop_event list \<Rightarrow> 's \<times> SandboxReconciler \<Rightarrow> ('s \<times> SandboxReconciler) loop_result" where
  "runGCLoop api evs st = NewTicker (60 * Second) (select_loop (cleanupOrphaned api) evs st)"

definition Start :: "'s ClaimAPI \<Rightarrow> controller_event loop_event list \<Rightarrow> 's \<times> SandboxReconciler \<Rightarrow>
    ('s \<times> SandboxReconciler) loop_result" where
  "Start api evs st = NewTicker (60 * Second) (select_loop (controller_step api) evs st)"

text \<open>An API server that keeps a list of claims, for examples.\<close>

definition list_api :: "SandboxClaim list ClaimAPI" where
  "list_api =
     \<lparr>api_create = (\<lambda>ns c s. if claim_name c \<in> claim_name ` set s then (Some (Errorf ''already exists''), s) else (None, s @ [c])),
      api_get = (\<lambda>ns n s. (case filter (\<lambda>c. claim_name c = n) s of c # _ \<Rightarrow> Inr c | [] \<Rightarrow> Inl (Errorf ''not found''), s)),
      api_list = (\<lambda>ns l s. (Inr s, s)),
      api_delete = (\<lambda>ns n s. if n \<in> claim_name ` set s then (None, filter (\<lambda>c. claim_name c \<noteq> n) s)
         else (Some (Errorf ''not found''), s))\<rparr>"

definition sample_claim :: "string \<Rightarrow> string \<Rightarrow> int \<Rightarrow> SandboxClaim" where
  "sample_claim name phase created =
     (new_claim (NewK8sSandboxProvider ''ns'' ''default'' 4096) name)\<lparr>claim_phase := Some phase, claim_created := created\<rparr>"

section \<open>Lemmas\<close>

text \<open>What is assumed of the API server, in the namespace of the controller: it lists its claims, and a deletion
  removes the named claim, or fails if there is none.\<close>

definition claim_store_ok :: "'s ClaimAPI \<Rightarrow> string \<Rightarrow> ('s \<Rightarrow> SandboxClaim list) \<Rightarrow> bool" where
  "claim_store_ok api ns claims \<longleftrightarrow>
     (\<forall>s. api_list api ns managed_label s = (Inr (claims s), s)) \<and>
     (\<forall>s. \<forall>n \<in> claim_name ` set (claims s). \<exists>s'.
        api_delete api ns n s = (None, s') \<and> claims s' = filter (\<lambda>c. claim_name c \<noteq> n) (claims s)) \<and>
     (\<forall>s n. n \<notin> claim_name ` set (claims s) \<longrightarrow>
        (\<exists>e s'. api_delete api ns n s = (Some e, s') \<and> claims s' = claims s))"

definition orphaned :: "int \<Rightarrow> SandboxClaim \<Rightarrow> bool" where
  "orphaned cutoff c \<longleftrightarrow> claim_phase c \<in> {Some ''Failed'', Some ''Completed''} \<and> claim_created c < cutoff"

lemma orphaned_iff: "orphaned cutoff c \<longleftrightarrow> terminal_phase (nested_phase c) \<and> claim_created c < cutoff"
  by (cases "claim_phase c") (auto simp: orphaned_def terminal_phase_def nested_phase_def)

lemma list_api_ok: "claim_store_ok list_api ns (\<lambda>s. s)"
  by (simp add: claim_store_ok_def list_api_def)

lemma claim_store_delete:
  assumes "claim_store_ok api ns claims" and "n \<in> claim_name ` set (claims s)"
  obtains s' where "api_delete api ns n s = (None, s')" "claims s' = filter (\<lambda>c. claim_name c \<noteq> n) (claims s)"
  using assms unfolding claim_store_ok_def by blast

lemma cleanup_loop_effect:
  "claim_store_ok api (rec_namespace r) claims \<Longrightarrow> cleanup_loop api cutoff items (s, r) = (s', r') \<Longrightarrow>
   distinct (map claim_name items) \<Longrightarrow> claim_name ` set items \<subseteq> claim_name ` set (claims s) \<Longrightarrow>
   claims s' = filter (\<lambda>c. claim_name c \<notin> claim_name ` set (filter (orphaned cutoff) items)) (claims s) \<and>
   rec_metrics r' = map_option (\<lambda>m. m\<lparr>cm_gcDeletions := cm_gcDeletions m @ replicate (length (filter (orphaned cutoff) items)) 1\<rparr>)
     (rec_metrics r) \<and> rec_namespace r' = rec_namespace r \<and> rec_gcTimeout r' = rec_gcTimeout r"
proof (induction items arbitrary: s r)
  case Nil
  then show ?case by (cases "rec_metrics r") auto
next
  case (Cons item items)
  show ?case
  proof (cases "orphaned cutoff item")
    case True
    obtain s1 where d: "api_delete api (rec_namespace r) (claim_name item) s = (None, s1)"
      and c: "claims s1 = filter (\<lambda>c. claim_name c \<noteq> claim_name item) (claims s)"
      using claim_store_delete [OF Cons.prems(1), of "claim_name item" s] Cons.prems(4) by auto
    let ?r = "r\<lparr>rec_metrics := map_option RecordGCDeletion (rec_metrics r)\<rparr>"
    have l: "cleanup_loop api cutoff items (s1, ?r) = (s', r')"
      using Cons.prems(2) True d by (simp add: orphaned_iff)
    have "claim_name ` set items \<subseteq> claim_name ` set (claims s1)"
    proof
      fix n assume n: "n \<in> claim_name ` set items"
      from n Cons.prems(3) have "n \<noteq> claim_name item" by (metis distinct.simps(2) list.map(2) set_map)
      with n Cons.prems(4) show "n \<in> claim_name ` set (claims s1)" unfolding c by auto
    qed
    from Cons.IH [of ?r s1, OF _ l _ this] Cons.prems(1,3) c True show ?thesis
      by (cases "rec_metrics r") (auto simp: RecordGCDeletion_def conj_commute intro: filter_cong)
  next
    case False
    then have "cleanup_loop api cutoff items (s, r) = (s', r')"
      using Cons.prems(2) by (auto simp: orphaned_iff split: if_splits)
    from Cons.IH [OF Cons.prems(1) this] Cons.prems(3,4) False show ?thesis by simp
  qed
qed

lemma cleanup_effect:
  assumes "claim_store_ok api (rec_namespace r) claims" and "distinct (map claim_name (claims s))"
    and "in_int64 (rec_gcTimeout r)" "rec_gcTimeout r \<noteq> - 9223372036854775808"
    and "cleanupOrphaned api now (s, r) = (s', r')"
  shows "claims s' = filter (\<lambda>c. \<not> orphaned (now - rec_gcTimeout r) c) (claims s) \<and>
    rec_metrics r' = map_option (\<lambda>m. m\<lparr>cm_gcDeletions := cm_gcDeletions m @
       replicate (length (claims s) - length (claims s')) 1\<rparr>) (rec_metrics r)"
proof -
  let ?cut = "now - rec_gcTimeout r"
  have "wrap64 (- rec_gcTimeout r) = - rec_gcTimeout r"
    using assms(3,4) by (intro wrap64_id) (auto simp: in_int64_def)
  moreover have "api_list api (rec_namespace r) managed_label s = (Inr (claims s), s)"
    using assms(1) by (simp add: claim_store_ok_def)
  ultimately have l: "cleanup_loop api ?cut (claims s) (s, r) = (s', r')"
    using assms(5) by (simp add: cleanupOrphaned_def)
  note e = cleanup_loop_effect [OF assms(1) l assms(2) order_refl]
  have "claim_name c \<in> claim_name ` set (filter (orphaned ?cut) (claims s)) \<longleftrightarrow> orphaned ?cut c"
    if "c \<in> set (claims s)" for c
    using that assms(2) by (auto simp: distinct_map inj_on_def)
  then have c: "claims s' = filter (\<lambda>c. \<not> orphaned ?cut c) (claims s)" using e by (auto intro: filter_cong)
  have "length (filter (orphaned ?cut) (claims s)) = length (claims s) - length (claims s')"
    using sum_length_filter_compl [of "orphaned ?cut" "claims s"] c by simp
  with c e show ?thesis by simp
qed

lemma cleanup_claims:
  assumes "claim_store_ok api (rec_namespace r) claims" and "distinct (map claim_name (claims s))"
    and "in_int64 (rec_gcTimeout r)" "rec_gcTimeout r \<noteq> - 9223372036854775808"
    and "cleanupOrphaned api now (s, r) = (s', r')"
  shows "claims s' = filter (\<lambda>c. \<not> orphaned (now - rec_gcTimeout r) c) (claims s)"
  using cleanup_effect [OF assms] by simp

section \<open>Properties\<close>

text \<open>C26: A collection deletes exactly the claims that failed or completed and were created before the cutoff
  \<^verbatim>\<open>now - gcTimeout\<close>, whether the sandbox ended recently or not: with an API server that lists its claims and
  deletes what it is asked to, every other claim is kept, in order, and the deletion counter grows by one per
  deleted claim.\<close>

theorem cleanup_exact:
  assumes "claim_store_ok api (rec_namespace r) claims" and "distinct (map claim_name (claims s))"
    and "in_int64 (rec_gcTimeout r)" "rec_gcTimeout r \<noteq> - 9223372036854775808"
    and "cleanupOrphaned api now (s, r) = (s', r')"
  shows "claims s' = filter (\<lambda>c. \<not> orphaned (now - rec_gcTimeout r) c) (claims s) \<and>
    rec_metrics r' = map_option (\<lambda>m. m\<lparr>cm_gcDeletions := cm_gcDeletions m @
       replicate (length (claims s) - length (claims s')) 1\<rparr>) (rec_metrics r)"
  using assms by (rule cleanup_effect)

theorem cleanup_exact_witness:
  "fst (cleanupOrphaned list_api 1000 ([sample_claim ''a'' ''Failed'' 1, sample_claim ''b'' ''Ready'' 1, sample_claim ''c'' ''Completed'' 950],
     NewSandboxReconciler ''ns'' [WithGCTimeout 100])) = [sample_claim ''b'' ''Ready'' 1, sample_claim ''c'' ''Completed'' 950]"
proof -
  let ?r = "NewSandboxReconciler ''ns'' [WithGCTimeout 100]"
  let ?s = "[sample_claim ''a'' ''Failed'' 1, sample_claim ''b'' ''Ready'' 1, sample_claim ''c'' ''Completed'' 950]"
  have g: "rec_gcTimeout ?r = 100" by (simp add: NewSandboxReconciler_def WithGCTimeout_def)
  have d: "distinct (map claim_name ?s)" by (simp add: sample_claim_def new_claim_def)
  have o: "orphaned 900 (sample_claim ''a'' ''Failed'' 1)" "\<not> orphaned 900 (sample_claim ''b'' ''Ready'' 1)"
    "\<not> orphaned 900 (sample_claim ''c'' ''Completed'' 950)" by (simp_all add: orphaned_def sample_claim_def)
  have "in_int64 (rec_gcTimeout ?r)" "rec_gcTimeout ?r \<noteq> - 9223372036854775808" unfolding g by (simp_all add: in_int64_def)
  with cleanup_exact [where api = list_api and claims = "\<lambda>s. s" and s = ?s and r = ?r and now = 1000
      and s' = "fst (cleanupOrphaned list_api 1000 (?s, ?r))" and r' = "snd (cleanupOrphaned list_api 1000 (?s, ?r))"]
    list_api_ok d g
  have "fst (cleanupOrphaned list_api 1000 (?s, ?r)) = filter (\<lambda>c. \<not> orphaned 900 c) ?s" by simp
  then show ?thesis using o by (simp only: filter.simps if_True if_False not_False_eq_True not_True_eq_False)
qed

end
