(* ===== verification/Pool_Races.thy ===== *)
theory Pool_Races
  imports Pool_Concurrency Sandbox_Controller
begin

text \<open>
  Garbage collection beside running allocations (\<^verbatim>\<open>RunGC\<close>, \<^verbatim>\<open>Release\<close> and \<^verbatim>\<open>claimIdle\<close> of \<^verbatim>\<open>internal/pool/manager.go\<close>).

  \<^verbatim>\<open>RunGC\<close> reads status and last activity of an allocation without the mutex.  The theory shows what that can and
  cannot break.  Allocations that are recent when the calls start, and allocations created meanwhile, survive every
  interleaving.  A warm sandbox that is older than the idle timeout does not: \<^verbatim>\<open>claimIdle\<close> makes it active before it
  refreshes its last activity, and a collection that looks in between deletes it under the user it
  was just given to.
\<close>

section \<open>Definitions\<close>

text \<open>\<open>I\<close> are the addresses that the cache held when the calls started, \<open>N\<close> the first address that was free then, \<open>Y\<close> those
  of \<open>I\<close> that were recent, \<open>R\<close> the names that goroutines release on their own account, and \<open>C\<close> bounds the cutoffs of the collections.\<close>

definition tracked :: "addr set \<Rightarrow> addr \<Rightarrow> SharedCache \<Rightarrow> addr \<Rightarrow> bool" where
  "tracked I N S a \<longleftrightarrow> a < next_cell S \<and> (a \<in> I \<or> N \<le> a)"

definition spared :: "string set \<Rightarrow> addr set \<Rightarrow> addr \<Rightarrow> SharedCache \<Rightarrow> addr \<Rightarrow> bool" where
  "spared R Y N S a \<longleftrightarrow> (a \<in> Y \<or> N \<le> a) \<and> SandboxName (cells S a) \<notin> R"

definition victim :: "string set \<Rightarrow> addr set \<Rightarrow> addr set \<Rightarrow> addr \<Rightarrow> SharedCache \<Rightarrow> string \<Rightarrow> bool" where
  "victim R I Y N S n \<longleftrightarrow> n \<in> R \<or> (\<exists>a. tracked I N S a \<and> \<not> spared R Y N S a \<and> SandboxName (cells S a) = n)"

definition gc_return :: "addr set \<Rightarrow> addr \<Rightarrow> int \<Rightarrow> SharedCache \<Rightarrow> return_to \<Rightarrow> bool" where
  "gc_return I N C S k = (case k of None \<Rightarrow> True | Some (c, rest) \<Rightarrow> c \<le> C \<and> (\<forall>a \<in> set rest. tracked I N S a))"

text \<open>No goroutine releases a spared allocation or turns its activity back.\<close>

fun pc_ok :: "string set \<Rightarrow> addr set \<Rightarrow> addr set \<Rightarrow> addr \<Rightarrow> int \<Rightarrow> SharedCache \<Rightarrow> CallEnv \<Rightarrow> call_pc \<Rightarrow> bool" where
  "pc_ok R I Y N C S e (Claiming k u a) \<longleftrightarrow> C \<le> env_now e \<and> tracked I N S a"
| "pc_ok R I Y N C S e (RelGet n k) \<longleftrightarrow> victim R I Y N S n \<and> gc_return I N C S k"
| "pc_ok R I Y N C S e (RelMark a n k) \<longleftrightarrow> tracked I N S a \<and> \<not> spared R Y N S a \<and> victim R I Y N S n \<and> gc_return I N C S k"
| "pc_ok R I Y N C S e (RelDelete n k) \<longleftrightarrow> victim R I Y N S n \<and> gc_return I N C S k"
| "pc_ok R I Y N C S e (RelDrop n k) \<longleftrightarrow> victim R I Y N S n \<and> gc_return I N C S k"
| "pc_ok R I Y N C S e (RelCount k) \<longleftrightarrow> gc_return I N C S k"
| "pc_ok R I Y N C S e (GCStart d) \<longleftrightarrow> env_now e + wrap64 (- d) \<le> C"
| "pc_ok R I Y N C S e (GCScan c rest) \<longleftrightarrow> gc_return I N C S (Some (c, rest))"
| "pc_ok R I Y N C S e (GCRead c a rest) \<longleftrightarrow> gc_return I N C S (Some (c, a # rest))"
| "pc_ok R I Y N C S e (Finished r) \<longleftrightarrow> True"
| "pc_ok R I Y N C S e (Inserted w a) \<longleftrightarrow> True"
| "pc_ok R I Y N C S e _ \<longleftrightarrow> C \<le> env_now e"

definition cells_ok :: "string set \<Rightarrow> addr set \<Rightarrow> addr set \<Rightarrow> addr \<Rightarrow> int \<Rightarrow> SharedCache \<Rightarrow> bool" where
  "cells_ok R I Y N C S \<longleftrightarrow> N \<le> next_cell S \<and>
     (\<forall>n a. Cache_Get (index S) n = Some a \<longrightarrow> tracked I N S a \<and> SandboxName (cells S a) = n) \<and>
     (\<forall>a. tracked I N S a \<longrightarrow> spared R Y N S a \<longrightarrow> C \<le> LastActivity (cells S a) \<and> Status (cells S a) \<noteq> StatusReleasing \<and>
        Cache_Get (index S) (SandboxName (cells S a)) = Some a)"

text \<open>Names are unique: those of tracked allocations, and those of sandboxes that are created and not yet filed.\<close>

fun pending_name :: "call_pc \<Rightarrow> string option" where
  "pending_name (Created w n f) = Some n"
| "pending_name _ = None"

definition names_ok :: "('p \<Rightarrow> string set) \<Rightarrow> addr set \<Rightarrow> addr \<Rightarrow> 'p Goroutines \<Rightarrow> bool" where
  "names_ok used I N G \<longleftrightarrow>
     (\<forall>a. tracked I N (store (pool G)) a \<longrightarrow> SandboxName (cells (store (pool G)) a) \<in> used (provider (pool G))) \<and>
     (\<forall>a b. tracked I N (store (pool G)) a \<longrightarrow> tracked I N (store (pool G)) b \<longrightarrow>
        SandboxName (cells (store (pool G)) a) = SandboxName (cells (store (pool G)) b) \<longrightarrow> a = b) \<and>
     (\<forall>t n. pending_name (pcs G t) = Some n \<longrightarrow> n \<in> used (provider (pool G)) \<and>
        (\<forall>a. tracked I N (store (pool G)) a \<longrightarrow> SandboxName (cells (store (pool G)) a) \<noteq> n)) \<and>
     (\<forall>t u n. pending_name (pcs G t) = Some n \<longrightarrow> pending_name (pcs G u) = Some n \<longrightarrow> t = u)"

fun may_create :: "call_pc \<Rightarrow> bool" where
  "may_create (ClaimList u) = True"
| "may_create (Checking w) = True"
| "may_create (Creating w) = True"
| "may_create _ = False"

definition creations_left :: "nat set \<Rightarrow> 'p Goroutines \<Rightarrow> nat" where
  "creations_left T G = card {t \<in> T. may_create (pcs G t)}"

definition spare_inv ::
  "('p \<Rightarrow> string set) \<Rightarrow> (nat \<Rightarrow> 'p \<Rightarrow> bool) \<Rightarrow> string set \<Rightarrow> addr set \<Rightarrow> addr set \<Rightarrow> addr \<Rightarrow> int \<Rightarrow> (nat \<Rightarrow> CallEnv) \<Rightarrow> nat set \<Rightarrow>
   'p Goroutines \<Rightarrow> bool" where
  "spare_inv used ready R I Y N C env T G \<longleftrightarrow>
     names_ok used I N G \<and> ready (creations_left T G) (provider (pool G)) \<and> cells_ok R I Y N C (store (pool G)) \<and>
     gomap_ok (byName (index (store (pool G)))) \<and> own_inv G \<and> filed (store (pool G)) \<and>
     (\<forall>t \<in> T. pc_ok R I Y N C (store (pool G)) (env t) (pcs G t))"

definition track_inv :: "('p \<Rightarrow> string set) \<Rightarrow> (nat \<Rightarrow> 'p \<Rightarrow> bool) \<Rightarrow> addr set \<Rightarrow> addr \<Rightarrow> nat set \<Rightarrow> 'p Goroutines \<Rightarrow> bool" where
  "track_inv used ready I N T G \<longleftrightarrow>
     names_ok used I N G \<and> ready (creations_left T G) (provider (pool G)) \<and> N \<le> next_cell (store (pool G)) \<and>
     (\<forall>n a. Cache_Get (index (store (pool G))) n = Some a \<longrightarrow> tracked I N (store (pool G)) a) \<and>
     (\<forall>t a. owns (pcs G t) a \<longrightarrow> tracked I N (store (pool G)) a)"

text \<open>The calls of a run: collections with cutoffs up to \<open>C\<close>, allocations and heartbeats since then, and any releases.\<close>

fun recent_call :: "int \<Rightarrow> CallEnv \<Rightarrow> pool_call \<Rightarrow> bool" where
  "recent_call C e (CallGC d) \<longleftrightarrow> env_now e + wrap64 (- d) \<le> C"
| "recent_call C e (CallRelease n) \<longleftrightarrow> True"
| "recent_call C e _ \<longleftrightarrow> C \<le> env_now e"

section \<open>The contract: names are never used again\<close>

text \<open>\<open>live\<close> are now the names that were ever given out: a deletion does not free a name.\<close>

locale naming_provider = sandbox_provider P live ready
  for P :: "'p SandboxProvider" and live :: "'p \<Rightarrow> string set" and ready :: "nat \<Rightarrow> 'p \<Rightarrow> bool" +
  assumes delete_keeps: "DeleteSandbox P n p = (d, p') \<Longrightarrow> live p \<subseteq> live p'"

interpretation mock_names: naming_provider mock_provider mock_live mock_ready
  by unfold_locales (simp add: Mock_Delete_step)

text \<open>The Kubernetes provider names a sandbox after the millisecond in which its creation starts.  It never uses a name
  twice if the clock never goes back and a call that creates a claim ends in a later millisecond than it started.\<close>

definition clock_forward :: "'s ClaimAPI \<Rightarrow> ('s \<Rightarrow> int) \<Rightarrow> bool" where
  "clock_forward api clock \<longleftrightarrow>
     (\<forall>ns c s. UnixMilli (clock s) < UnixMilli (clock (snd (api_create api ns c s)))) \<and>
     (\<forall>ns n s. clock s \<le> clock (snd (api_get api ns n s))) \<and> (\<forall>ns n s. clock s \<le> clock (snd (api_delete api ns n s)))"

definition past_names :: "('s \<Rightarrow> int) \<Rightarrow> 's \<Rightarrow> string set" where
  "past_names clock s = {''oc-'' @ itoa m | m. m < UnixMilli (clock s)}"

lemma UnixMilli_mono: "t \<le> t' \<Longrightarrow> UnixMilli t \<le> UnixMilli t'"
  by (simp add: UnixMilli_def zdiv_mono1)

lemma past_names_mem: "''oc-'' @ itoa m \<in> past_names clock s \<longleftrightarrow> m < UnixMilli (clock s)"
  by (auto simp: past_names_def itoa_inject)

lemma past_names_mono: "UnixMilli (clock s) \<le> UnixMilli (clock s') \<Longrightarrow> past_names clock s \<subseteq> past_names clock s'"
  by (auto simp: past_names_def)

lemma poll_clock:
  assumes "clock_forward api clock" "poll_run (ready_condition api p name) \<sigma> r \<sigma>'"
  shows "clock (fst \<sigma>) \<le> clock (fst \<sigma>')"
proof -
  have step: "clock (fst \<sigma>) \<le> clock (fst \<sigma>')" if "ready_condition api p name \<sigma> = (r, \<sigma>')" for \<sigma> r \<sigma>'
    using that assms(1) ready_condition_state [of api p name \<sigma>] by (simp add: clock_forward_def)
  show ?thesis using assms(2) by induction (use step in \<open>fastforce intro: order_trans\<close>)+
qed

lemma k8s_create_clock:
  assumes "clock_forward api clock" "poll_ok poll" "K8s_CreateSandbox api poll p now s = (r, s')"
  shows "UnixMilli (clock s) < UnixMilli (clock s')"
proof -
  let ?n = "''oc-'' @ itoa (UnixMilli now)"
  obtain e s1 where c: "api_create api (k8s_namespace p) (new_claim p ?n) s = (e, s1)" by (meson surj_pair)
  have s1: "UnixMilli (clock s) < UnixMilli (clock s1)" using assms(1) c unfolding clock_forward_def by (metis snd_conv)
  obtain d s2 g where w: "poll (ready_condition api p ?n) (s1, []) = (d, (s2, g))" by (metis prod_cases3)
  have s2: "UnixMilli (clock s1) \<le> UnixMilli (clock s2)"
    using poll_clock [OF assms(1)] assms(2) w UnixMilli_mono unfolding poll_ok_def by (metis fst_conv)
  have s3: "UnixMilli (clock s2) \<le> UnixMilli (clock (snd (api_delete api (k8s_namespace p) ?n s2)))"
    using assms(1) UnixMilli_mono unfolding clock_forward_def by blast
  show ?thesis using assms(3) c w s1 s2 s3
    by (cases e; cases d) (auto simp: K8s_CreateSandbox_def Let_def)
qed

lemma k8s_naming_provider:
  assumes "clock_forward api clock" "poll_ok poll"
  shows "naming_provider (k8s_provider api poll clock p) (past_names clock) (\<lambda>_ _. True)"
proof -
  let ?P = "k8s_provider api poll clock p"
  have cr: "UnixMilli (clock s) < UnixMilli (clock s')" if "CreateSandbox ?P s = (r, s')" for s r s'
    using k8s_create_clock [OF assms] that by (simp add: k8s_provider_def)
  have name: "n = ''oc-'' @ itoa (UnixMilli (clock s))" if "CreateSandbox ?P s = (Inr (n, f), s')" for s n f s'
    using that by (auto simp: k8s_provider_def K8s_CreateSandbox_def Let_def split: prod.splits option.splits)
  have "snd (DeleteSandbox ?P n s) = snd (api_delete api (k8s_namespace p) n s)" for n s
    by (simp add: k8s_provider_def K8s_DeleteSandbox_def split: prod.split option.split)
  then have del: "past_names clock s \<subseteq> past_names clock s'" if "DeleteSandbox ?P n s = (d, s')" for n s d s'
    using that assms(1) UnixMilli_mono past_names_mono [of clock s s'] unfolding clock_forward_def by (metis snd_conv)
  show ?thesis
  proof unfold_locales
    show "n \<notin> past_names clock s \<and> insert n (past_names clock s) \<subseteq> past_names clock s'"
      if "CreateSandbox ?P s = (Inr (n, f), s')" for n f s s'
      using cr [OF that] past_names_mono [of clock s s'] past_names_mem [of "UnixMilli (clock s)" clock]
      unfolding name [OF that] by simp
    show "past_names clock s \<subseteq> past_names clock s'" if "CreateSandbox ?P s = (Inl e, s')" for e s s'
      using cr [OF that] past_names_mono [of clock s s'] by simp
    show "past_names clock s - {n} \<subseteq> past_names clock s'" if "DeleteSandbox ?P n s = (None, s')" for n s s'
      using del [OF that] by blast
    show "past_names clock s \<subseteq> past_names clock s'" if "DeleteSandbox ?P n s = (Some e, s')" for n e s s'
      by (rule del [OF that])
    show "past_names clock s \<subseteq> past_names clock s'" if "DeleteSandbox ?P n s = (d, s')" for n d s s'
      by (rule del [OF that])
  qed simp_all
qed

section \<open>Lemmas\<close>

lemma tracked_mono: "tracked I N S a \<Longrightarrow> next_cell S \<le> next_cell S' \<Longrightarrow> tracked I N S' a"
  by (auto simp: tracked_def)

lemma victim_mono:
  assumes "victim R I Y N S n" "next_cell S \<le> next_cell S'" "\<And>b. b < next_cell S \<Longrightarrow> SandboxName (cells S' b) = SandboxName (cells S b)"
  shows "victim R I Y N S' n"
  using assms unfolding victim_def tracked_def spared_def by (metis order_less_le_trans)

lemma pc_ok_mono:
  assumes "pc_ok R I Y N C S e q" "next_cell S \<le> next_cell S'"
    and "\<And>b. b < next_cell S \<Longrightarrow> SandboxName (cells S' b) = SandboxName (cells S b)"
  shows "pc_ok R I Y N C S' e q"
proof -
  have "gc_return I N C S' k" if "gc_return I N C S k" for k
    using that tracked_mono [OF _ assms(2)] by (auto simp: gc_return_def split: option.splits)
  moreover have "spared R Y N S' a \<longleftrightarrow> spared R Y N S a" if "tracked I N S a" for a
    using that assms(3) by (simp add: spared_def tracked_def)
  ultimately show ?thesis using assms(1) victim_mono [OF _ assms(2,3)] tracked_mono [OF _ assms(2)] by (cases q) auto
qed

lemma gc_return_after: "gc_return I N C S k \<Longrightarrow> pc_ok R I Y N C S e (after_release k r)"
  by (simp add: gc_return_def after_release_def split: option.splits prod.splits)

lemma pc_ok_step:
  assumes s: "thread_step P e ord t pc mu pm = Some (pc', mu', pm')" and ord: "range_order ord"
    and q: "pc_ok R I Y N C (store pm) e pc" and c: "cells_ok R I Y N C (store pm)" and g: "gomap_ok (byName (index (store pm)))"
    and inj: "\<And>a b. tracked I N (store pm) a \<Longrightarrow> tracked I N (store pm) b \<Longrightarrow>
      SandboxName (cells (store pm) a) = SandboxName (cells (store pm) b) \<Longrightarrow> a = b"
  shows "pc_ok R I Y N C (store pm) e pc'"
proof -
  have mem: "tracked I N (store pm) a" if "a \<in> set (Cache_List ord (index (store pm)))" for a
    using that c Cache_List_set [OF ord g] by (auto simp: cells_ok_def)
  show ?thesis
  proof (cases pc)
    case (ClaimList u)
    then show ?thesis
    proof (cases "Cache_ListByStatus ord (cells (store pm)) StatusIdle (index (store pm))")
      case (Cons a as)
      then have "a \<in> set (Cache_ListByStatus ord (cells (store pm)) StatusIdle (index (store pm)))" by simp
      then show ?thesis using s q ClaimList Cons mem by (auto simp: Cache_ListByStatus_alt split: if_splits)
    qed (use s q in \<open>auto split: if_splits\<close>)
  next
    case (GCStart d)
    then show ?thesis using s q mem by (auto simp: gc_return_def)
  next
    case (GCScan c as)
    then show ?thesis using s q by (cases as) (auto simp: gc_return_def split: if_splits)
  next
    case (GCRead cut a rest)
    then have a: "tracked I N (store pm) a" and "cut \<le> C" using q by (auto simp: gc_return_def)
    then have "LastActivity (cells (store pm) a) < cut \<Longrightarrow> \<not> spared R Y N (store pm) a" using c by (fastforce simp: cells_ok_def)
    then show ?thesis using s q a GCRead by (auto simp: gc_return_def victim_def split: if_splits)
  next
    case (RelGet n k)
    show ?thesis
    proof (cases "Cache_Get (index (store pm)) n")
      case None
      then show ?thesis using s q RelGet by (auto simp: gc_return_after)
    next
      case (Some a)
      then have a: "tracked I N (store pm) a" "SandboxName (cells (store pm) a) = n" using c by (auto simp: cells_ok_def)
      moreover have "n \<in> R \<or> (\<exists>b. tracked I N (store pm) b \<and> \<not> spared R Y N (store pm) b \<and> SandboxName (cells (store pm) b) = n)"
        using q RelGet by (simp add: victim_def)
      ultimately have "\<not> spared R Y N (store pm) a" using inj unfolding spared_def by metis
      then show ?thesis using s q RelGet Some a by auto
    qed
  qed (use s q in \<open>auto simp: gc_return_after split: if_splits option.splits prod.splits sum.splits\<close>)
qed

lemma cells_ok_write:
  assumes "cells_ok R I Y N C S" "SandboxName (f (cells S a)) = SandboxName (cells S a)"
    and "spared R Y N S a \<Longrightarrow> C \<le> LastActivity (cells S a) \<Longrightarrow> C \<le> LastActivity (f (cells S a))"
    and "spared R Y N S a \<Longrightarrow> Status (cells S a) \<noteq> StatusReleasing \<Longrightarrow> Status (f (cells S a)) \<noteq> StatusReleasing"
  shows "cells_ok R I Y N C (store_write a f S)"
  using assms by (auto simp: cells_ok_def tracked_def spared_def)

lemma cells_ok_set:
  assumes "cells_ok R I Y N C S" "tracked I N S a"
    and "\<And>b. tracked I N S b \<Longrightarrow> SandboxName (cells S a) = SandboxName (cells S b) \<Longrightarrow> a = b"
  shows "cells_ok R I Y N C (store_set a S)"
  using assms by (auto simp: cells_ok_def tracked_def spared_def Cache_Get_Set)

lemma cells_ok_new:
  assumes "cells_ok R I Y N C S" "\<And>b. tracked I N S b \<Longrightarrow> SandboxName (cells S b) \<noteq> SandboxName x"
    and "C \<le> LastActivity x" "Status x \<noteq> StatusReleasing"
  shows "cells_ok R I Y N C (store_new x S)"
proof -
  have "tracked I N (store_new x S) b \<longleftrightarrow> tracked I N S b \<or> b = next_cell S" for b
    using assms(1) by (auto simp: tracked_def cells_ok_def less_Suc_eq)
  moreover have "tracked I N S b \<Longrightarrow> b \<noteq> next_cell S" for b by (simp add: tracked_def)
  ultimately show ?thesis using assms by (auto simp: cells_ok_def spared_def Cache_Get_Set)
qed

lemma cells_ok_delete:
  assumes "cells_ok R I Y N C S" "victim R I Y N S n"
    and "\<And>a b. tracked I N S a \<Longrightarrow> tracked I N S b \<Longrightarrow> SandboxName (cells S a) = SandboxName (cells S b) \<Longrightarrow> a = b"
  shows "cells_ok R I Y N C (store_delete n S)"
proof -
  have "SandboxName (cells S a) \<noteq> n" if "tracked I N S a" "spared R Y N S a" for a
    using that assms(2,3) unfolding victim_def spared_def by metis
  then show ?thesis using assms(1) by (auto simp: cells_ok_def tracked_def spared_def Cache_Get_Delete)
qed

lemma cells_ok_step:
  assumes s: "thread_step P e ord t pc mu pm = Some (pc', mu', pm')"
    and q: "pc_ok R I Y N C (store pm) e pc" and c: "cells_ok R I Y N C (store pm)"
    and inj: "\<And>a b. tracked I N (store pm) a \<Longrightarrow> tracked I N (store pm) b \<Longrightarrow>
      SandboxName (cells (store pm) a) = SandboxName (cells (store pm) b) \<Longrightarrow> a = b"
    and new: "\<And>w n f a. pc = Created w n f \<Longrightarrow> tracked I N (store pm) a \<Longrightarrow> SandboxName (cells (store pm) a) \<noteq> n"
  shows "cells_ok R I Y N C (store pm')"
proof (cases pc)
  case (Claiming k u a)
  have "cells_ok R I Y N C (store_write a (claim_write k e u) (store pm))"
    by (rule cells_ok_write [OF c]) (use q Claiming in \<open>auto simp: claim_write_def\<close>)
  moreover have "cells_ok R I Y N C (store_set a (store pm))"
    by (rule cells_ok_set [OF c]) (use q Claiming inj in simp_all)
  ultimately show ?thesis using s Claiming by (auto split: if_splits)
next
  case (Created w n f)
  have "cells_ok R I Y N C (store_new (new_alloc e w n f) (store pm))"
    by (rule cells_ok_new [OF c]) (use q Created new [OF Created] in simp_all)
  then show ?thesis using s Created by auto
next
  case (RelMark a n k)
  have "cells_ok R I Y N C (store_write a (\<lambda>x. x\<lparr>Status := StatusReleasing\<rparr>) (store pm))"
    by (rule cells_ok_write [OF c]) (use q RelMark in auto)
  then show ?thesis using s RelMark by auto
next
  case (RelDrop n k)
  have "cells_ok R I Y N C (store_delete n (store pm))" by (rule cells_ok_delete [OF c]) (use q RelDrop inj in simp_all)
  then show ?thesis using s RelDrop by auto
next
  case (HbWrite a)
  have "cells_ok R I Y N C (store_write a (\<lambda>x. x\<lparr>LastActivity := env_now e\<rparr>) (store pm))"
    by (rule cells_ok_write [OF c]) (use q HbWrite in auto)
  then show ?thesis using s HbWrite by (auto split: if_splits)
next
  case (GCScan c as)
  then show ?thesis using s c by (cases as) (auto split: if_splits)
qed (use s c in \<open>auto split: if_splits list.splits option.splits prod.splits sum.splits\<close>)

text \<open>Creations: only one program point asks the provider for a sandbox, and only one files it.\<close>

lemma Created_from:
  assumes "thread_step P e ord t pc mu pm = Some (pc', mu', pm')" "pending_name pc' = Some n"
  shows "\<exists>w f. pc = Creating w \<and> CreateSandbox P (provider pm) = (Inr (n, f), provider pm')"
  using assms
proof (cases pc)
  case (GCScan c as)
  then show ?thesis using assms by (cases as) (auto split: if_splits)
qed (auto simp: after_release_def split: if_splits list.splits option.splits prod.splits sum.splits)

lemma may_create_step:
  assumes "thread_step P e ord t pc mu pm = Some (pc', mu', pm')"
  shows "may_create pc' \<Longrightarrow> may_create pc"
    and "pc = Creating w \<Longrightarrow> \<not> may_create pc' \<and> (\<exists>r. CreateSandbox P (provider pm) = (r, provider pm'))"
    and "(\<And>w. pc \<noteq> Creating w) \<Longrightarrow> provider pm' = provider pm \<or> (\<exists>n d. DeleteSandbox P n (provider pm) = (d, provider pm'))"
    and "next_cell (store pm') \<noteq> next_cell (store pm) \<Longrightarrow> \<exists>w n f. pc = Created w n f \<and>
      store pm' = store_new (new_alloc e w n f) (store pm) \<and> provider pm' = provider pm"
proof -
  have "(may_create pc' \<longrightarrow> may_create pc) \<and>
    (pc = Creating w \<longrightarrow> \<not> may_create pc' \<and> (\<exists>r. CreateSandbox P (provider pm) = (r, provider pm'))) \<and>
    ((\<forall>w. pc \<noteq> Creating w) \<longrightarrow> provider pm' = provider pm \<or> (\<exists>n d. DeleteSandbox P n (provider pm) = (d, provider pm'))) \<and>
    (next_cell (store pm') \<noteq> next_cell (store pm) \<longrightarrow> (\<exists>w n f. pc = Created w n f \<and>
      store pm' = store_new (new_alloc e w n f) (store pm) \<and> provider pm' = provider pm))"
  proof (cases pc)
    case (GCScan c as)
    then show ?thesis using assms by (cases as) (auto split: if_splits)
  qed (use assms in \<open>auto simp: after_release_def split: if_splits list.splits option.splits prod.splits sum.splits\<close>)
  then show "may_create pc' \<Longrightarrow> may_create pc"
    and "pc = Creating w \<Longrightarrow> \<not> may_create pc' \<and> (\<exists>r. CreateSandbox P (provider pm) = (r, provider pm'))"
    and "(\<And>w. pc \<noteq> Creating w) \<Longrightarrow> provider pm' = provider pm \<or> (\<exists>n d. DeleteSandbox P n (provider pm) = (d, provider pm'))"
    and "next_cell (store pm') \<noteq> next_cell (store pm) \<Longrightarrow> \<exists>w n f. pc = Created w n f \<and>
      store pm' = store_new (new_alloc e w n f) (store pm) \<and> provider pm' = provider pm" by auto
qed

lemma creations_left_step:
  assumes "finite T" "t \<in> T" "may_create pc \<Longrightarrow> may_create (pcs G t)"
  shows "creations_left T (goto t (pc, m, pm) G) \<le> creations_left T G"
    and "may_create (pcs G t) \<Longrightarrow> \<not> may_create pc \<Longrightarrow> Suc (creations_left T (goto t (pc, m, pm) G)) \<le> creations_left T G"
proof -
  have sub: "{u \<in> T. may_create (pcs (goto t (pc, m, pm) G) u)} \<subseteq> {u \<in> T. may_create (pcs G u)}" using assms(3) by auto
  then show "creations_left T (goto t (pc, m, pm) G) \<le> creations_left T G"
    unfolding creations_left_def using assms(1) by (intro card_mono) auto
  assume "may_create (pcs G t)" "\<not> may_create pc"
  then have "{u \<in> T. may_create (pcs (goto t (pc, m, pm) G) u)} \<subset> {u \<in> T. may_create (pcs G u)}" using sub assms(2) by auto
  then show "Suc (creations_left T (goto t (pc, m, pm) G)) \<le> creations_left T G"
    unfolding creations_left_def Suc_le_eq using assms(1) by (intro psubset_card_mono) auto
qed

text \<open>Steps that leave the set of objects alone keep the names, if the used names only grow.\<close>

lemma names_okD:
  assumes "names_ok used I N G"
  shows "tracked I N (store (pool G)) a \<Longrightarrow> SandboxName (cells (store (pool G)) a) \<in> used (provider (pool G))"
    and "tracked I N (store (pool G)) a \<Longrightarrow> tracked I N (store (pool G)) b \<Longrightarrow>
      SandboxName (cells (store (pool G)) a) = SandboxName (cells (store (pool G)) b) \<Longrightarrow> a = b"
    and "pending_name (pcs G t) = Some n \<Longrightarrow> n \<in> used (provider (pool G))"
    and "pending_name (pcs G t) = Some n \<Longrightarrow> tracked I N (store (pool G)) a \<Longrightarrow> SandboxName (cells (store (pool G)) a) \<noteq> n"
    and "pending_name (pcs G t) = Some n \<Longrightarrow> pending_name (pcs G u) = Some n \<Longrightarrow> t = u"
  using assms unfolding names_ok_def by blast+

lemma names_ok_keep:
  assumes "names_ok used I N G" "next_cell (store pm) = next_cell (store (pool G))"
    and "\<And>b. b < next_cell (store (pool G)) \<Longrightarrow> SandboxName (cells (store pm) b) = SandboxName (cells (store (pool G)) b)"
    and "used (provider (pool G)) \<subseteq> used (provider pm)"
    and "\<And>n. pending_name pc = Some n \<Longrightarrow> n \<in> used (provider pm) \<and> n \<notin> used (provider (pool G))"
  shows "names_ok used I N (goto t (pc, m, pm) G)"
proof -
  note D = names_okD [OF assms(1)]
  have tr: "tracked I N (store pm) a \<longleftrightarrow> tracked I N (store (pool G)) a" for a using assms(2) by (simp add: tracked_def)
  have nm: "tracked I N (store (pool G)) a \<Longrightarrow> SandboxName (cells (store pm) a) = SandboxName (cells (store (pool G)) a)" for a
    using assms(3) by (simp add: tracked_def)
  have "tracked I N (store pm) a \<Longrightarrow> SandboxName (cells (store pm) a) \<in> used (provider pm)" for a
    using D(1) assms(4) by (auto simp: tr nm)
  moreover have "tracked I N (store pm) a \<Longrightarrow> tracked I N (store pm) b \<Longrightarrow>
      SandboxName (cells (store pm) a) = SandboxName (cells (store pm) b) \<Longrightarrow> a = b" for a b using D(2) by (simp add: tr nm)
  moreover have "n \<in> used (provider pm) \<and> (\<forall>a. tracked I N (store pm) a \<longrightarrow> SandboxName (cells (store pm) a) \<noteq> n)"
    if "pending_name (((pcs G)(t := pc)) u) = Some n" for u n
    using that assms(4) assms(5) [of n] D(1,3,4) by (cases "u = t") (auto simp: tr nm)
  moreover have "u = v" if "pending_name (((pcs G)(t := pc)) u) = Some n" "pending_name (((pcs G)(t := pc)) v) = Some n" for u v n
    using that assms(5) [of n] D(3) [of _ n] D(5) [of _ n] by (auto split: if_splits)
  ultimately show ?thesis unfolding names_ok_def goto_simps by blast
qed

lemma names_ok_new:
  assumes "names_ok used I N G" "N \<le> next_cell (store (pool G))" "pcs G t = Created w n f" "pending_name pc = None"
    and S: "store pm = store_new (new_alloc e w n f) (store (pool G))" "provider pm = provider (pool G)"
  shows "names_ok used I N (goto t (pc, m, pm) G)"
proof -
  let ?S = "store (pool G)"
  note D = names_okD [OF assms(1)]
  have tr: "tracked I N (store pm) a \<longleftrightarrow> tracked I N ?S a \<or> a = next_cell ?S" for a
    using assms(2) by (auto simp: S tracked_def less_Suc_eq)
  have new: "SandboxName (cells (store pm) (next_cell ?S)) = n" by (simp add: S)
  have nm: "tracked I N ?S a \<Longrightarrow> SandboxName (cells (store pm) a) = SandboxName (cells ?S a)" for a by (simp add: S tracked_def)
  have n: "pending_name (pcs G t) = Some n" by (simp add: assms(3))
  have old: "u \<noteq> t \<and> pending_name (pcs G u) = Some x" if "pending_name (((pcs G)(t := pc)) u) = Some x" for u x
    using that assms(4) by (auto split: if_splits)
  have "tracked I N (store pm) a \<Longrightarrow> SandboxName (cells (store pm) a) \<in> used (provider pm)" for a
    using D(1) D(3) [OF n] by (auto simp: tr new nm S(2))
  moreover have "tracked I N (store pm) a \<Longrightarrow> tracked I N (store pm) b \<Longrightarrow>
      SandboxName (cells (store pm) a) = SandboxName (cells (store pm) b) \<Longrightarrow> a = b" for a b
    unfolding tr using D(2) [of a b] D(4) [OF n, of a] D(4) [OF n, of b] nm [of a] nm [of b] new by metis
  moreover have "x \<in> used (provider pm) \<and> (\<forall>a. tracked I N (store pm) a \<longrightarrow> SandboxName (cells (store pm) a) \<noteq> x)"
    if "pending_name (((pcs G)(t := pc)) u) = Some x" for u x
    using old [OF that] D(3) [of u x] D(4) [of u x] D(5) [OF n, of u] by (auto simp: tr new nm S(2))
  moreover have "u = v" if "pending_name (((pcs G)(t := pc)) u) = Some x" "pending_name (((pcs G)(t := pc)) v) = Some x" for u v x
    using old [OF that(1)] old [OF that(2)] D(5) by blast
  ultimately show ?thesis unfolding names_ok_def goto_simps by blast
qed

text \<open>What a step files: what was filed, what its goroutine owns, or a new object.\<close>

lemma thread_step_files:
  assumes "thread_step P e ord t pc mu pm = Some (pc', mu', pm')" "Cache_Get (index (store pm')) n = Some a"
  shows "Cache_Get (index (store pm)) n = Some a \<or> owns pc a \<or>
    a = next_cell (store pm) \<and> next_cell (store pm) < next_cell (store pm')"
proof (cases pc)
  case (GCScan c as)
  then show ?thesis using assms by (cases as) (auto split: if_splits)
qed (use assms in \<open>auto simp: Cache_Get_Set Cache_Get_Delete split: if_splits list.splits option.splits prod.splits sum.splits\<close>)

context naming_provider
begin

lemma ready_mono: "k \<le> m \<Longrightarrow> ready m p \<Longrightarrow> ready k p"
  by (induction k rule: inc_induct) (auto dest: ready_less)

lemma names_step:
  assumes "conc_step P env T G G'" "finite T" "names_ok live I N G" "ready (creations_left T G) (provider (pool G))"
    and "N \<le> next_cell (store (pool G))"
  shows "names_ok live I N G'" "ready (creations_left T G') (provider (pool G'))"
proof -
  from assms(1) obtain t ord pc m pm where t: "t \<in> T"
    and s: "thread_step P (env t) ord t (pcs G t) (mutex G) (pool G) = Some (pc, m, pm)" and G': "G' = goto t (pc, m, pm) G"
    by (rule conc_stepE)
  note c = thread_step_cells [OF s] and mc = may_create_step [OF s]
  note left = creations_left_step [OF assms(2) t mc(1), where m = m and pm = pm]
  have "names_ok live I N G' \<and> ready (creations_left T G') (provider (pool G'))"
  proof (cases "\<exists>w. pcs G t = Creating w")
    case True
    then obtain w where w: "pcs G t = Creating w" ..
    from mc(2) [OF w] obtain r where nm: "\<not> may_create pc" and r: "CreateSandbox P (provider (pool G)) = (r, provider pm)" by auto
    from left(2) nm w have "Suc (creations_left T G') \<le> creations_left T G" by (simp add: G')
    then have rd: "ready (Suc (creations_left T G')) (provider (pool G))" using assms(4) by (rule ready_mono)
    have used: "live (provider (pool G)) \<subseteq> live (provider pm)"
      using r create_error create_fresh [OF rd] by (cases r) fastforce+
    have "n \<in> live (provider pm) \<and> n \<notin> live (provider (pool G))" if "pending_name pc = Some n" for n
      using Created_from [OF s that] create_fresh [OF rd] by blast
    moreover have "next_cell (store pm) = next_cell (store (pool G))" using mc(4) w by fastforce
    ultimately show ?thesis
      using names_ok_keep [OF assms(3) _ c(3) used] create_ready [OF rd r] by (simp add: G')
  next
    case False
    then have "provider pm = provider (pool G) \<or> (\<exists>n d. DeleteSandbox P n (provider (pool G)) = (d, provider pm))" using mc(3) by blast
    then have prov: "live (provider (pool G)) \<subseteq> live (provider pm)" and rd: "ready k (provider (pool G)) \<Longrightarrow> ready k (provider pm)" for k
      by (auto dest: delete_keeps delete_ready)
    have no: "pending_name pc = None" using Created_from [OF s] False by (cases "pending_name pc") auto
    have "names_ok live I N G'"
    proof (cases "next_cell (store pm) = next_cell (store (pool G))")
      case True
      show ?thesis unfolding G' by (rule names_ok_keep [OF assms(3) True c(3) prov]) (simp_all add: no)
    next
      case new: False
      then obtain w n f where w: "pcs G t = Created w n f" "store pm = store_new (new_alloc (env t) w n f) (store (pool G))"
        "provider pm = provider (pool G)" using mc(4) by blast
      then show ?thesis using names_ok_new [OF assms(3,5) w(1) no w(2,3)] by (simp add: G')
    qed
    moreover have "ready (creations_left T G') (provider pm)" using rd ready_mono [OF left(1) assms(4)] by (simp add: G')
    ultimately show ?thesis by (simp add: G')
  qed
  then show "names_ok live I N G'" "ready (creations_left T G') (provider (pool G'))" by auto
qed

text \<open>Whatever is called, names stay unique, and what is filed or handed out is tracked.\<close>

lemma track_inv_start:
  assumes "finite T" "store_ok (store pm0)" "ready (card T) (provider pm0)"
    and "\<forall>n x. registry (store pm0) n = Some x \<longrightarrow> n \<in> live (provider pm0)"
  shows "track_inv live ready {a. \<exists>n. Cache_Get (index (store pm0)) n = Some a} (next_cell (store pm0)) T (start_calls calls pm0)"
proof -
  let ?S = "store pm0" and ?I = "{a. \<exists>n. Cache_Get (index (store pm0)) n = Some a}"
  have idx: "Cache_Get (index ?S) n = Some a \<Longrightarrow> SandboxName (cells ?S a) = n \<and> a < next_cell ?S" for n a
    using filed_if_ok [OF assms(2)] by (simp add: filed_def)
  have tr: "tracked ?I (next_cell ?S) ?S a \<longleftrightarrow> (\<exists>n. Cache_Get (index ?S) n = Some a)" for a
    using idx by (auto simp: tracked_def)
  have e: "pending_name (entry c) = None" "\<not> owns (entry c) a" for c a by (cases c; simp)+
  have "card {t \<in> T. may_create (entry (calls t))} \<le> card T" using assms(1) by (intro card_mono) auto
  then have "ready (creations_left T (start_calls calls pm0)) (provider pm0)"
    using ready_mono assms(3) by (simp add: creations_left_def start_calls_def)
  moreover have "names_ok live ?I (next_cell ?S) (start_calls calls pm0)"
    using idx assms(4) by (auto simp: names_ok_def start_calls_def tr e registry_def)
  ultimately show ?thesis by (auto simp: track_inv_def start_calls_def tr e)
qed

lemma track_inv_step:
  assumes "conc_step P env T G G'" "finite T" "filed (store (pool G))" "track_inv live ready I N T G"
  shows "track_inv live ready I N T G'"
proof -
  from assms(1) obtain t ord pc m pm where ord: "range_order ord"
    and s: "thread_step P (env t) ord t (pcs G t) (mutex G) (pool G) = Some (pc, m, pm)" and G': "G' = goto t (pc, m, pm) G"
    by (rule conc_stepE)
  let ?S = "store (pool G)" and ?S' = "store pm"
  from assms(4) have nm: "names_ok live I N G" and rd: "ready (creations_left T G) (provider (pool G))" and N: "N \<le> next_cell ?S"
    and idx: "\<And>n a. Cache_Get (index ?S) n = Some a \<Longrightarrow> tracked I N ?S a"
    and own: "\<And>u a. owns (pcs G u) a \<Longrightarrow> tracked I N ?S a" by (auto simp: track_inv_def)
  note n' = names_step [OF assms(1,2) nm rd N] and le = thread_step_cells(1) [OF s]
  have up: "tracked I N ?S a \<Longrightarrow> tracked I N ?S' a" for a using le by (auto simp: tracked_def)
  have new: "next_cell ?S < next_cell ?S' \<Longrightarrow> tracked I N ?S' (next_cell ?S)" using N by (simp add: tracked_def)
  have "tracked I N ?S' a" if "owns pc a" for a
    using thread_step_owns [OF s that assms(3) ord] own [of t a] idx up new by blast
  then have "owns (((pcs G)(t := pc)) u) a \<Longrightarrow> tracked I N ?S' a" for u a using own up by (cases "u = t") auto
  moreover have "tracked I N ?S' a" if "Cache_Get (index ?S') n = Some a" for n a
    using thread_step_files [OF s that] idx own [of t a] up new by blast
  ultimately show ?thesis using n' N le by (auto simp: track_inv_def G')
qed

lemma track_inv_reach:
  assumes "conc_reach P env T (start_calls calls pm0) G" "finite T" "filed (store pm0)"
    and "track_inv live ready I N T (start_calls calls pm0)"
  shows "track_inv live ready I N T G \<and> filed (store (pool G)) \<and> own_inv G"
  using assms(1)
proof induction
  case reach_start
  have e: "\<not> owns (entry c) a" for c a by (cases c) simp_all
  show ?case using assms(3,4) by (simp add: start_calls_def own_inv_def e)
next
  case (reach_step G G')
  then show ?case
    using track_inv_step [OF reach_step.hyps(2) assms(2)] own_inv_step [OF reach_step.hyps(2) lock_inv_reach [OF reach_step.hyps(1)]] by blast
qed

lemma spare_inv_start:
  assumes "finite T" "\<forall>t \<in> T. recent_call C (env t) (calls t)" "\<forall>t \<in> T. \<forall>n. calls t = CallRelease n \<longrightarrow> n \<in> R"
    and "store_ok (store pm0)" "ready (card T) (provider pm0)" "\<forall>n x. registry (store pm0) n = Some x \<longrightarrow> n \<in> live (provider pm0)"
    and "N = next_cell (store pm0)" "I = {a. \<exists>n. Cache_Get (index (store pm0)) n = Some a}"
    and "Y = {a \<in> I. C \<le> LastActivity (cells (store pm0) a) \<and> Status (cells (store pm0) a) \<noteq> StatusReleasing}"
  shows "spare_inv live ready R I Y N C env T (start_calls calls pm0)"
proof -
  let ?S = "store pm0"
  have f: "filed ?S" by (rule filed_if_ok [OF assms(4)])
  then have idx: "Cache_Get (index ?S) n = Some a \<Longrightarrow> SandboxName (cells ?S a) = n \<and> a < N" for n a
    using assms(7) by (simp add: filed_def)
  have tr: "tracked I N ?S a \<longleftrightarrow> (\<exists>n. Cache_Get (index ?S) n = Some a)" for a
    using idx by (auto simp: tracked_def assms(7,8))
  have e: "pending_name (entry c) = None" "\<not> owns (entry c) a" for c a by (cases c; simp)+
  have "card {t \<in> T. may_create (entry (calls t))} \<le> card T" using assms(1) by (intro card_mono) auto
  then have "ready (creations_left T (start_calls calls pm0)) (provider pm0)"
    using ready_mono assms(5) by (simp add: creations_left_def start_calls_def)
  moreover have "names_ok live I N (start_calls calls pm0)"
    using idx assms(6) by (auto simp: names_ok_def start_calls_def tr e registry_def)
  moreover have "cells_ok R I Y N C ?S"
    unfolding cells_ok_def
  proof (intro conjI allI impI)
    show "N \<le> next_cell ?S" by (simp add: assms(7))
    show "tracked I N ?S a" "SandboxName (cells ?S a) = n" if "Cache_Get (index ?S) n = Some a" for n a
      using that tr idx by blast+
    fix a assume a: "tracked I N ?S a" "spared R Y N ?S a"
    from a(1) obtain n where n: "Cache_Get (index ?S) n = Some a" by (auto simp: tr)
    with a(2) idx [OF n] have "a \<in> Y" by (simp add: spared_def)
    with n idx [OF n] show "C \<le> LastActivity (cells ?S a)" "Status (cells ?S a) \<noteq> StatusReleasing"
      "Cache_Get (index ?S) (SandboxName (cells ?S a)) = Some a" by (simp_all add: assms(9))
  qed
  moreover have "pc_ok R I Y N C ?S (env t) (entry (calls t))" if "t \<in> T" for t
    using assms(2,3) that by (cases "calls t") (auto simp: victim_def gc_return_def)
  ultimately show ?thesis using f by (simp add: spare_inv_def start_calls_def own_inv_def e filed_def)
qed

lemma spare_inv_step:
  assumes "conc_step P env T G G'" "finite T" "lock_inv T G" "spare_inv live ready R I Y N C env T G"
  shows "spare_inv live ready R I Y N C env T G'"
proof -
  from assms(1) obtain t ord pc m pm where t: "t \<in> T" and ord: "range_order ord"
    and s: "thread_step P (env t) ord t (pcs G t) (mutex G) (pool G) = Some (pc, m, pm)" and G': "G' = goto t (pc, m, pm) G"
    by (rule conc_stepE)
  from assms(4) have nm: "names_ok live I N G" and rd: "ready (creations_left T G) (provider (pool G))"
    and co: "cells_ok R I Y N C (store (pool G))" and g: "gomap_ok (byName (index (store (pool G))))"
    and own: "own_inv G" and f: "filed (store (pool G))" and q: "\<And>u. u \<in> T \<Longrightarrow> pc_ok R I Y N C (store (pool G)) (env u) (pcs G u)" by (auto simp: spare_inv_def)
  note D = names_okD [OF nm] and c = thread_step_cells [OF s]
  have N: "N \<le> next_cell (store (pool G))" using co by (simp add: cells_ok_def)
  note n' = names_step [OF assms(1) assms(2) nm rd N]
  note o' = own_inv_step [OF assms(1) assms(3) f own]
  have "cells_ok R I Y N C (store pm)"
  proof (rule cells_ok_step [OF s q [OF t] co])
    show "SandboxName (cells (store (pool G)) a) \<noteq> n" if "pcs G t = Created w n f" "tracked I N (store (pool G)) a" for w n f a
      by (rule D(4) [of t]) (simp_all add: that)
  qed (rule D(2))
  moreover have "pc_ok R I Y N C (store pm) (env u) (((pcs G)(t := pc)) u)" if "u \<in> T" for u
  proof (cases "u = t")
    case True
    have "pc_ok R I Y N C (store (pool G)) (env t) pc" by (rule pc_ok_step [OF s ord q [OF t] co g]) (rule D(2))
    then show ?thesis unfolding True fun_upd_same by (rule pc_ok_mono) (rule c(1), rule c(3))
  next
    case False
    show ?thesis unfolding fun_upd_other [OF False] by (rule pc_ok_mono [OF q [OF that]]) (rule c(1), rule c(3))
  qed
  ultimately show ?thesis using n' o' by (simp add: spare_inv_def G' filed_def)
qed

lemma spare_inv_reach:
  assumes "conc_reach P env T (start_calls calls pm0) G" "finite T" "spare_inv live ready R I Y N C env T (start_calls calls pm0)"
  shows "spare_inv live ready R I Y N C env T G"
  using assms(1)
proof induction
  case (reach_step G G')
  then show ?case using spare_inv_step [OF _ assms(2) lock_inv_reach] by blast
qed (rule assms(3))

end

text \<open>A warm sandbox of age 100 in a cluster, and a user who asks for a sandbox while the collector runs.\<close>

definition race_provider :: "SandboxClaim list SandboxProvider" where
  "race_provider = k8s_provider list_api (\<lambda>cond st. (Some (Errorf ''timeout''), st)) (\<lambda>_. 0) (NewK8sSandboxProvider ''ns'' ''default'' 4096)"

definition race_pool :: "SandboxClaim list PoolManager" where
  "race_pool = NewPoolManager [sample_claim ''oc-1'' ''Ready'' 0] 1 ''ns''
     (store_new (warm_alloc 0 ''oc-1'' ''oc-1.ns.svc.cluster.local:4096'') empty_store) None"

definition race_calls :: "nat \<Rightarrow> pool_call" where
  "race_calls t = (if t = 0 then CallAllocate ''alice'' else CallGC 10)"

definition race_run :: "SandboxClaim list Goroutines" where
  "race_run = run_schedule race_provider (\<lambda>t. sample_env 100 ''s1'') [0, 0, 1, 1, 1, 1, 1, 1, 1, 1, 1, 0, 0, 0, 0]
     (start_calls race_calls race_pool)"

definition spare_calls :: "nat \<Rightarrow> pool_call" where
  "spare_calls t = (if t = 2 then CallRelease ''mock-sandbox-7'' else race_calls t)"

definition spare_run :: "MockSandboxProvider Goroutines" where
  "spare_run = run_schedule mock_provider (\<lambda>t. sample_env 100 ''s1'') [0, 0, 2, 0, 0, 0, 1, 1, 1, 1, 1]
     (start_calls spare_calls (sample_pool 1))"

definition race_alloc :: Allocation where
  "race_alloc = \<lparr>SandboxName = ''oc-1'', ServiceFQDN = ''oc-1.ns.svc.cluster.local:4096'', SessionID = ''s1'', UserID = ''alice'',
     AllocatedAt = 0, LastActivity = 100, Status = StatusReleasing\<rparr>"

lemma race_values:
  "pcs race_run 0 = Finished (Allocated (Inr 0))" "pcs race_run 1 = Finished (Done None)" "provider (pool race_run) = []"
  "index (store (pool race_run)) = \<lparr>byName = [(''oc-1'', 0)], bySession = [(''s1'', 0)]\<rparr>"
  "next_cell (store (pool race_run)) = 1" "cells (store (pool race_run)) 0 = race_alloc"
  by code_simp+

lemma race_store_ok: "store_ok (store (pool race_run))"
  by (auto simp: store_ok_def cache_ok_def race_values Cache_Get_def Cache_GetBySession_def gomap_ok_def race_alloc_def intro!: gr0I)

section \<open>Properties\<close>

text \<open>C33: Collections spare what is recent, in every interleaving of pool calls: if all collections have cutoffs up to \<open>C\<close>,
  allocations, warm allocations and heartbeats happen since \<open>C\<close>, releases are arbitrary, and the provider never uses a
  name twice, then each allocation that the cache held at the start with activity since \<open>C\<close>, and each one that was
  created meanwhile, is still in the cache under its name and is not being released, unless one of the calls is a
  \<^verbatim>\<open>Release\<close> of that very sandbox.\<close>

theorem gc_spares_recent:
  assumes "naming_provider P used ready" "conc_reach P env T (start_calls calls pm0) G" "finite T"
    and "\<forall>t \<in> T. recent_call C (env t) (calls t)"
    and "store_ok (store pm0)" "ready (card T) (provider pm0)" "\<forall>n x. registry (store pm0) n = Some x \<longrightarrow> n \<in> used (provider pm0)"
    and "Cache_Get (index (store pm0)) n = Some a \<and> C \<le> LastActivity (cells (store pm0) a) \<and>
           Status (cells (store pm0) a) \<noteq> StatusReleasing \<or>
         next_cell (store pm0) \<le> a \<and> a < next_cell (store (pool G))"
    and "\<forall>t \<in> T. calls t \<noteq> CallRelease (SandboxName (cells (store (pool G)) a))"
  shows "registry (store (pool G)) (SandboxName (cells (store (pool G)) a)) = Some (cells (store (pool G)) a) \<and>
    Status (cells (store (pool G)) a) \<noteq> StatusReleasing \<and> C \<le> LastActivity (cells (store (pool G)) a)"
proof -
  let ?I = "{a. \<exists>n. Cache_Get (index (store pm0)) n = Some a}" and ?N = "next_cell (store pm0)"
  let ?Y = "{a \<in> ?I. C \<le> LastActivity (cells (store pm0) a) \<and> Status (cells (store pm0) a) \<noteq> StatusReleasing}"
  let ?R = "{n. \<exists>t \<in> T. calls t = CallRelease n}"
  have R: "\<forall>t \<in> T. \<forall>n. calls t = CallRelease n \<longrightarrow> n \<in> ?R" by blast
  have co: "cells_ok ?R ?I ?Y ?N C (store (pool G))"
    using naming_provider.spare_inv_reach [OF assms(1-3) naming_provider.spare_inv_start [OF assms(1,3,4) R assms(5-7) refl refl refl]]
    by (simp add: spare_inv_def)
  then have N: "?N \<le> next_cell (store (pool G))" by (simp add: cells_ok_def)
  have "a < ?N" if "Cache_Get (index (store pm0)) n = Some a" using filed_if_ok [OF assms(5)] that by (simp add: filed_def)
  then have "tracked ?I ?N (store (pool G)) a" "spared ?R ?Y ?N (store (pool G)) a"
    using assms(8,9) N by (auto simp: tracked_def spared_def)
  then show ?thesis using co by (simp add: cells_ok_def registry_def)
qed

theorem gc_spares_recent_witness: "registry (store (pool spare_run)) ''mock-sandbox-1'' \<noteq> None"
proof -
  let ?T = "{0, 1, 2} :: nat set"
  have reach: "conc_reach mock_provider (\<lambda>t. sample_env 100 ''s1'') ?T (start_calls spare_calls (sample_pool 1)) spare_run"
    unfolding spare_run_def by (rule reach_schedule) (simp_all add: reach_start)
  have calls: "\<forall>t \<in> ?T. recent_call 90 (sample_env 100 ''s1'') (spare_calls t)"
    by (simp add: spare_calls_def race_calls_def sample_env_def in_int64_def)
  have ready: "mock_ready (card ?T) (provider (sample_pool 1))"
    by (simp add: mock_ready_def sample_pool_def NewPoolManager_def NewMockSandboxProvider_def)
  have reg: "\<forall>n x. registry (store (sample_pool 1)) n = Some x \<longrightarrow> n \<in> mock_live (provider (sample_pool 1))"
    by (simp add: sample_pool_def NewPoolManager_def)
  have new: "next_cell (store (sample_pool 1)) \<le> 0 \<and> 0 < next_cell (store (pool spare_run))" by code_simp
  have name: "SandboxName (cells (store (pool spare_run)) 0) = ''mock-sandbox-1''" by code_simp
  have other: "\<forall>t \<in> ?T. spare_calls t \<noteq> CallRelease (SandboxName (cells (store (pool spare_run)) 0))"
    unfolding name by (simp add: spare_calls_def race_calls_def)
  have "registry (store (pool spare_run)) (SandboxName (cells (store (pool spare_run)) 0)) = Some (cells (store (pool spare_run)) 0)"
    by (rule gc_spares_recent [OF mock_names.naming_provider_axioms reach _ calls sample_pool_start(2) ready reg disjI2 [OF new] other, THEN conjunct1]) simp
  then show ?thesis unfolding name by simp
qed

text \<open>C12: No two \<^verbatim>\<open>Allocate\<close> calls are ever handed the same allocation, whatever the provider does and whatever
  other calls run beside them, and no allocation that was handed out becomes idle again. If the provider never uses
  a name twice, and knows the names that are registered at the start, then the sandboxes they are handed are
  different ones too.\<close>

theorem concurrent_allocate_distinct:
  assumes "conc_reach P env T (start_calls calls pm0) G" "finite T" "T \<noteq> {}"
    and "store_ok (store pm0)" "store_len (store pm0) \<le> maxSize pm0"
    and "pcs G t = Finished (Allocated (Inr a))" "pcs G u = Finished (Allocated (Inr b))" "t \<noteq> u"
  shows "a \<noteq> b \<and> Status (cells (store (pool G)) a) \<noteq> StatusIdle \<and>
    (naming_provider P used ready \<and> ready (card T) (provider pm0) \<and>
       (\<forall>n x. registry (store pm0) n = Some x \<longrightarrow> n \<in> used (provider pm0)) \<longrightarrow>
     SandboxName (cells (store (pool G)) a) \<noteq> SandboxName (cells (store (pool G)) b))"
proof -
  have f: "filed (store pm0)" by (rule filed_if_ok [OF assms(4)])
  have inv: "own_inv G" using conc_reach_inv [OF assms(1-3) f assms(5)] by simp
  have own: "owns (pcs G t) a" "owns (pcs G u) b" using assms(6,7) by simp_all
  have "pcs G t \<noteq> Claiming 0 v a" for v using assms(6) by simp
  with inv own have ab: "a \<noteq> b" "Status (cells (store (pool G)) a) \<noteq> StatusIdle" using assms(8) unfolding own_inv_def by blast+
  have "SandboxName (cells (store (pool G)) a) \<noteq> SandboxName (cells (store (pool G)) b)"
    if P: "naming_provider P used ready" and r: "ready (card T) (provider pm0)"
      and reg: "\<forall>n x. registry (store pm0) n = Some x \<longrightarrow> n \<in> used (provider pm0)"
  proof -
    let ?I = "{a. \<exists>n. Cache_Get (index (store pm0)) n = Some a}" and ?N = "next_cell (store pm0)"
    have "track_inv used ready ?I ?N T G"
      using naming_provider.track_inv_reach [OF P assms(1,2) f naming_provider.track_inv_start [OF P assms(2,4) r reg]] by blast
    then have nm: "names_ok used ?I ?N G" and tr: "tracked ?I ?N (store (pool G)) a" "tracked ?I ?N (store (pool G)) b"
      using own unfolding track_inv_def by blast+
    show ?thesis using names_okD(2) [OF nm tr] ab(1) by blast
  qed
  with ab show ?thesis by blast
qed

theorem concurrent_allocate_distinct_witness:
  "SandboxName (cells (store (pool (sample_run 1 [0, 1, 0, 1, 0, 1, 0, 1, 0, 1]))) 0) \<noteq>
   SandboxName (cells (store (pool (sample_run 1 [0, 1, 0, 1, 0, 1, 0, 1, 0, 1]))) 1)"
proof -
  let ?T = "{0, 1} :: nat set"
  have r: "mock_ready (card ?T) (provider (sample_pool 1))"
    by (simp add: mock_ready_def sample_pool_def NewPoolManager_def NewMockSandboxProvider_def)
  have reg: "\<forall>n x. registry (store (sample_pool 1)) n = Some x \<longrightarrow> n \<in> mock_live (provider (sample_pool 1))"
    by (simp add: sample_pool_def NewPoolManager_def)
  have T: "finite ?T" "?T \<noteq> {}" "store_len (store (sample_pool 1)) \<le> maxSize (sample_pool 1)" "(0 :: nat) \<noteq> 1"
    by (simp_all add: sample_pool_start)
  show ?thesis
    using concurrent_allocate_distinct [OF sample_reach [of "[0, 1, 0, 1, 0, 1, 0, 1, 0, 1]" ?T 1, unfolded sample_goroutines_def]
        T(1,2) sample_pool_start(2) T(3) sample_overshoot(2,3) T(4), of mock_live mock_ready]
      mock_names.naming_provider_axioms r reg by simp
qed

text \<open>C34: A warm sandbox that is older than the idle timeout can be deleted while it is handed out: the user's call succeeds,
  the session is routed to the sandbox, but the sandbox does not exist any more, and its slot, left in the
  releasing state, is never collected.\<close>

theorem gc_race_hands_out_deleted:
  "\<exists>G x. conc_reach race_provider (\<lambda>t. sample_env 100 ''s1'') {0, 1} (start_calls race_calls race_pool) G \<and>
     pcs G 0 = Finished (Allocated (Inr 0)) \<and> pcs G 1 = Finished (Done None) \<and> provider (pool G) = [] \<and>
     registry (store (pool G)) ''oc-1'' = Some x \<and> UserID x = ''alice'' \<and> session_view (store (pool G)) (SessionID x) = Some x \<and>
     (\<forall>ord now d. range_order ord \<longrightarrow> registry (store (RunGC race_provider ord now d (pool G))) ''oc-1'' = Some x)"
proof -
  have reach: "conc_reach race_provider (\<lambda>t. sample_env 100 ''s1'') {0, 1} (start_calls race_calls race_pool) race_run"
    unfolding race_run_def by (rule reach_schedule) (simp_all add: reach_start)
  have x: "registry (store (pool race_run)) ''oc-1'' = Some race_alloc" "session_view (store (pool race_run)) (SessionID race_alloc) = Some race_alloc"
    by (simp_all add: registry_def session_view_def race_values Cache_Get_def Cache_GetBySession_def)
      (simp_all add: race_alloc_def)
  have "registry (store (RunGC race_provider ord now d (pool race_run))) ''oc-1'' = Some race_alloc" if "range_order ord" for ord now d
    using RunGC_effect(2) [OF that race_store_ok, of race_provider now d "''oc-1''"] x(1)
    by (simp add: gc_effect_def expired_def race_alloc_def)
  moreover have "UserID race_alloc = ''alice''" by (simp add: race_alloc_def)
  ultimately show ?thesis using reach x race_values(1-3) by blast
qed

theorem gc_race_hands_out_deleted_witness:
  "\<exists>G. conc_reach race_provider (\<lambda>t. sample_env 100 ''s1'') {0, 1} (start_calls race_calls race_pool) G \<and> provider (pool G) = [] \<and>
     registry (store (RunGC race_provider (\<lambda>xs. xs) Hour 0 (pool G))) ''oc-1'' \<noteq> None"
  using gc_race_hands_out_deleted range_order_id by fast

end
