(* ===== verification/Go_Json.thy ===== *)
theory Go_Json
  imports Go_Prelude
begin

text \<open>
  The part of Go's \<^verbatim>\<open>encoding/json\<close> that the code relies on, over byte strings.

  \<^item> \<open>json_Unmarshal\<close> reads a whole document, \<open>Decoder_Decode\<close> the first value of a stream, \<open>json_Valid\<close> tests a
    document and \<open>json_Compact\<close> drops the white space outside strings.  Strings are unquoted as the
    package does it: surrogate pairs are combined, and lone surrogates and bytes that are not UTF-8
    become U+FFFD.  Documents that nest deeper than 10000 are refused.
  \<^item> \<open>json_Marshal\<close> prints without white space and escapes as the default encoder does, including
    \<^verbatim>\<open><\<close>, \<^verbatim>\<open>>\<close>, \<^verbatim>\<open>&\<close>, U+2028 and U+2029.
  \<^item> Decoding into a struct field matches keys up to case, the last occurrence wins, \<^verbatim>\<open>null\<close> leaves the
    field alone and a value of another type is an error.
  \<^item> A number read into an \<^verbatim>\<open>interface{}\<close> is the nearest \<^verbatim>\<open>float64\<close>; \<open>f64_to_int64\<close> is the conversion
    \<^verbatim>\<open>int64(v)\<close> of that value (the out-of-range result is that of amd64).

  The recursive descent parser is bounded by a fuel of twice the length of the input and two more, which
  \<open>parse_fuel\<close> shows to be enough: whatever any fuel parses, this fuel parses to the same result.
\<close>

section \<open>Definitions\<close>

datatype json =
    JNull
  | JBool bool
  | JNum string
  | JStr string
  | JArr "json list"
  | JObj "(string \<times> json) list"

subsection \<open>Bytes and UTF-8\<close>

abbreviation byte :: "char \<Rightarrow> nat" where "byte c \<equiv> of_char c"

abbreviation quote :: char where "quote \<equiv> CHR 34"
abbreviation backslash :: char where "backslash \<equiv> CHR 92"

definition is_ws :: "char \<Rightarrow> bool" where
  "is_ws c \<longleftrightarrow> c = CHR 32 \<or> c = CHR 9 \<or> c = CHR 10 \<or> c = CHR 13"

definition skip_ws :: "string \<Rightarrow> string" where
  "skip_ws s = dropWhile is_ws s"

definition utf8_cont :: "nat \<Rightarrow> nat \<Rightarrow> char \<Rightarrow> bool" where
  "utf8_cont lo hi c \<longleftrightarrow> lo \<le> byte c \<and> byte c \<le> hi"

text \<open>\<open>utf8_class b\<close>: the ranges of the bytes that must follow a first byte \<open>b\<close>.  \<open>utf8_len s\<close>: the number of
  bytes of the UTF-8 sequence at the head of the string, 0 when there is none.\<close>

definition utf8_class :: "nat \<Rightarrow> (nat \<times> nat) list option" where
  "utf8_class b =
     (if b < 128 then Some []
      else if 194 \<le> b \<and> b \<le> 223 then Some [(128, 191)]
      else if 224 \<le> b \<and> b \<le> 239 then
        Some [(if b = 224 then 160 else 128, if b = 237 then 159 else 191), (128, 191)]
      else if 240 \<le> b \<and> b \<le> 244 then
        Some [(if b = 240 then 144 else 128, if b = 244 then 143 else 191), (128, 191), (128, 191)]
      else None)"

definition utf8_len :: "string \<Rightarrow> nat" where
  "utf8_len s =
     (case s of [] \<Rightarrow> 0 | c # cs \<Rightarrow>
       (case utf8_class (byte c) of None \<Rightarrow> 0
        | Some rs \<Rightarrow>
            if list_all2 (\<lambda>(lo, hi) d. utf8_cont lo hi d) rs (take (length rs) cs)
            then Suc (length rs) else 0))"

definition utf8_encode :: "nat \<Rightarrow> string" where
  "utf8_encode r =
     (if r < 128 then [char_of r]
      else if r < 2048 then [char_of (192 + r div 64), char_of (128 + r mod 64)]
      else if r < 65536 then
        [char_of (224 + r div 4096), char_of (128 + r div 64 mod 64), char_of (128 + r mod 64)]
      else [char_of (240 + r div 262144), char_of (128 + r div 4096 mod 64),
            char_of (128 + r div 64 mod 64), char_of (128 + r mod 64)])"

definition replacement :: string where "replacement = utf8_encode 65533"

subsection \<open>Reading strings and numbers\<close>

definition hex_val :: "char \<Rightarrow> nat option" where
  "hex_val c =
     (let b = byte c in
      if 48 \<le> b \<and> b \<le> 57 then Some (b - 48)
      else if 97 \<le> b \<and> b \<le> 102 then Some (b - 87)
      else if 65 \<le> b \<and> b \<le> 70 then Some (b - 55) else None)"

definition hex4 :: "string \<Rightarrow> (nat \<times> string) option" where
  "hex4 s =
     (case s of a # b # c # d # rest \<Rightarrow>
        (case (hex_val a, hex_val b, hex_val c, hex_val d) of
           (Some w, Some x, Some y, Some z) \<Rightarrow> Some (((w * 16 + x) * 16 + y) * 16 + z, rest)
         | _ \<Rightarrow> None)
      | _ \<Rightarrow> None)"

text \<open>\<open>low_surrogate s\<close>: the low surrogate written as an escape at the head of \<open>s\<close>.\<close>

definition low_surrogate :: "string \<Rightarrow> (nat \<times> string) option" where
  "low_surrogate s =
     (case s of a # b # rest \<Rightarrow>
        if a = backslash \<and> b = CHR ''u'' then
          (case hex4 rest of
             Some (r, rest') \<Rightarrow> if 56320 \<le> r \<and> r \<le> 57343 then Some (r, rest') else None
           | None \<Rightarrow> None)
        else None
      | _ \<Rightarrow> None)"

definition unicode_escape :: "string \<Rightarrow> (string \<times> string) option" where
  "unicode_escape s =
     (case hex4 s of None \<Rightarrow> None
      | Some (r, rest) \<Rightarrow>
          if 55296 \<le> r \<and> r \<le> 57343 then
            (case (if r \<le> 56319 then low_surrogate rest else None) of
               Some (r2, rest2) \<Rightarrow> Some (utf8_encode (65536 + (r - 55296) * 1024 + (r2 - 56320)), rest2)
             | None \<Rightarrow> Some (replacement, rest))
          else Some (utf8_encode r, rest))"

text \<open>The escape after a backslash.\<close>

definition str_escape :: "string \<Rightarrow> (string \<times> string) option" where
  "str_escape s =
     (case s of [] \<Rightarrow> None | c # cs \<Rightarrow>
        if c = quote \<or> c = backslash \<or> c = CHR ''/'' then Some ([c], cs)
        else if c = CHR ''b'' then Some ([CHR 8], cs)
        else if c = CHR ''f'' then Some ([CHR 12], cs)
        else if c = CHR ''n'' then Some ([CHR 10], cs)
        else if c = CHR ''r'' then Some ([CHR 13], cs)
        else if c = CHR ''t'' then Some ([CHR 9], cs)
        else if c = CHR ''u'' then unicode_escape cs
        else None)"

text \<open>One unit of a string body: what it decodes to and the rest.\<close>

definition str_unit :: "char \<Rightarrow> string \<Rightarrow> (string \<times> string) option" where
  "str_unit c cs =
     (if c = backslash then str_escape cs
      else if byte c < 32 then None
      else if utf8_len (c # cs) = 0 then Some (replacement, cs)
      else Some (take (utf8_len (c # cs)) (c # cs), drop (utf8_len (c # cs)) (c # cs)))"

lemma hex4_length: "hex4 s = Some (r, rest) \<Longrightarrow> length rest < length s"
  by (auto simp: hex4_def split: list.splits option.splits)

lemma low_surrogate_length: "low_surrogate s = Some (r, rest) \<Longrightarrow> length rest < length s"
  by (auto simp: low_surrogate_def dest: hex4_length split: list.splits option.splits if_splits)

lemma unicode_escape_length: "unicode_escape s = Some (u, rest) \<Longrightarrow> length rest < length s"
  by (fastforce simp: unicode_escape_def dest: hex4_length low_surrogate_length
      split: option.splits if_splits)

lemma str_unit_length: "str_unit c cs = Some (u, rest) \<Longrightarrow> length rest \<le> length cs"
  by (auto simp: str_unit_def str_escape_def dest: unicode_escape_length
      split: list.splits if_splits)

function parse_str :: "string \<Rightarrow> (string \<times> string) option" where
  "parse_str [] = None"
| "parse_str (c # cs) =
     (if c = quote then Some ([], cs)
      else (case str_unit c cs of None \<Rightarrow> None
            | Some (u, rest) \<Rightarrow>
                (case parse_str rest of None \<Rightarrow> None | Some (s, rest') \<Rightarrow> Some (u @ s, rest'))))"
  by pat_completeness auto
termination
  by (relation "measure length") (auto dest: str_unit_length)

definition is_digit :: "char \<Rightarrow> bool" where
  "is_digit c \<longleftrightarrow> 48 \<le> byte c \<and> byte c \<le> 57"

definition scan_digits1 :: "string \<Rightarrow> (string \<times> string) option" where
  "scan_digits1 s =
     (if takeWhile is_digit s = [] then None else Some (takeWhile is_digit s, dropWhile is_digit s))"

definition scan_int :: "string \<Rightarrow> (string \<times> string) option" where
  "scan_int s = (case s of [] \<Rightarrow> None | c # cs \<Rightarrow> if c = CHR ''0'' then Some ([c], cs) else scan_digits1 s)"

definition scan_frac :: "string \<Rightarrow> (string \<times> string) option" where
  "scan_frac s =
     (case s of c # cs \<Rightarrow>
        if c = CHR ''.'' then map_option (\<lambda>(ds, r). (c # ds, r)) (scan_digits1 cs) else Some ([], s)
      | [] \<Rightarrow> Some ([], s))"

definition scan_exp :: "string \<Rightarrow> (string \<times> string) option" where
  "scan_exp s =
     (case s of c # cs \<Rightarrow>
        if c = CHR ''e'' \<or> c = CHR ''E'' then
          (case cs of d # ds \<Rightarrow>
             if d = CHR ''+'' \<or> d = CHR ''-'' then map_option (\<lambda>(x, r). (c # d # x, r)) (scan_digits1 ds)
             else map_option (\<lambda>(x, r). (c # x, r)) (scan_digits1 cs)
           | [] \<Rightarrow> None)
        else Some ([], s)
      | [] \<Rightarrow> Some ([], s))"

definition parse_unum :: "string \<Rightarrow> (string \<times> string) option" where
  "parse_unum s =
     (case scan_int s of None \<Rightarrow> None | Some (i, s1) \<Rightarrow>
       (case scan_frac s1 of None \<Rightarrow> None | Some (f, s2) \<Rightarrow>
         (case scan_exp s2 of None \<Rightarrow> None | Some (e, s3) \<Rightarrow> Some (i @ f @ e, s3))))"

definition parse_num :: "string \<Rightarrow> (string \<times> string) option" where
  "parse_num s =
     (case s of [] \<Rightarrow> None
      | c # cs \<Rightarrow> if c = CHR ''-'' then map_option (\<lambda>(t, r). (c # t, r)) (parse_unum cs) else parse_unum s)"

subsection \<open>Reading values\<close>

fun parse_value :: "nat \<Rightarrow> string \<Rightarrow> (json \<times> string) option"
  and parse_members :: "nat \<Rightarrow> string \<Rightarrow> ((string \<times> json) list \<times> string) option"
  and parse_elems :: "nat \<Rightarrow> string \<Rightarrow> (json list \<times> string) option" where
  "parse_value 0 s = None"
| "parse_value (Suc n) s =
     (case skip_ws s of [] \<Rightarrow> None
      | c # cs \<Rightarrow>
          if c = CHR ''{'' then
            (case skip_ws cs of
               d # r \<Rightarrow> if d = CHR ''}'' then Some (JObj [], r)
                        else map_option (\<lambda>(ms, r'). (JObj ms, r')) (parse_members n cs)
             | [] \<Rightarrow> None)
          else if c = CHR ''['' then
            (case skip_ws cs of
               d # r \<Rightarrow> if d = CHR '']'' then Some (JArr [], r)
                        else map_option (\<lambda>(es, r'). (JArr es, r')) (parse_elems n cs)
             | [] \<Rightarrow> None)
          else if c = quote then map_option (\<lambda>(t, r). (JStr t, r)) (parse_str cs)
          else if HasPrefix (c # cs) ''true'' then Some (JBool True, drop 3 cs)
          else if HasPrefix (c # cs) ''false'' then Some (JBool False, drop 4 cs)
          else if HasPrefix (c # cs) ''null'' then Some (JNull, drop 3 cs)
          else map_option (\<lambda>(t, r). (JNum t, r)) (parse_num (c # cs)))"
| "parse_members 0 s = None"
| "parse_members (Suc n) s =
     (case skip_ws s of [] \<Rightarrow> None
      | c # cs \<Rightarrow>
          if c \<noteq> quote then None
          else (case parse_str cs of None \<Rightarrow> None
            | Some (k, r1) \<Rightarrow>
               (case skip_ws r1 of [] \<Rightarrow> None
                | d # r2 \<Rightarrow>
                  if d \<noteq> CHR '':'' then None
                  else (case parse_value n r2 of None \<Rightarrow> None
                    | Some (v, r3) \<Rightarrow>
                       (case skip_ws r3 of [] \<Rightarrow> None
                        | e # r4 \<Rightarrow>
                          if e = CHR ''}'' then Some ([(k, v)], r4)
                          else if e = CHR '','' then
                            map_option (\<lambda>(ms, r). ((k, v) # ms, r)) (parse_members n r4)
                          else None)))))"
| "parse_elems 0 s = None"
| "parse_elems (Suc n) s =
     (case parse_value n s of None \<Rightarrow> None
      | Some (v, r1) \<Rightarrow>
         (case skip_ws r1 of [] \<Rightarrow> None
          | d # r2 \<Rightarrow>
            if d = CHR '']'' then Some ([v], r2)
            else if d = CHR '','' then map_option (\<lambda>(es, r). (v # es, r)) (parse_elems n r2)
            else None))"

fun json_depth :: "json \<Rightarrow> nat" where
  "json_depth (JArr vs) = Suc (foldr (\<lambda>v m. max (json_depth v) m) vs 0)"
| "json_depth (JObj ms) = Suc (foldr (\<lambda>p m. max (json_depth (snd p)) m) ms 0)"
| "json_depth v = 0"

definition json_parse :: "string \<Rightarrow> (json \<times> string) option" where
  "json_parse s =
     (case parse_value (2 * length s + 2) s of None \<Rightarrow> None
      | Some (v, r) \<Rightarrow> if json_depth v \<le> 10000 then Some (v, r) else None)"

definition Decoder_Decode :: "string \<Rightarrow> json option" where
  "Decoder_Decode s = map_option fst (json_parse s)"

definition json_Unmarshal :: "string \<Rightarrow> json option" where
  "json_Unmarshal s =
     (case json_parse s of None \<Rightarrow> None | Some (v, r) \<Rightarrow> if skip_ws r = [] then Some v else None)"

definition json_Valid :: "string \<Rightarrow> bool" where
  "json_Valid s \<longleftrightarrow> json_Unmarshal s \<noteq> None"

text \<open>\<open>json_Compact\<close>, on valid input: \<open>compact_in\<close> copies a string up to its closing quote.\<close>

fun compact_out :: "string \<Rightarrow> string" and compact_in :: "string \<Rightarrow> string" where
  "compact_out [] = []"
| "compact_out (c # cs) =
     (if is_ws c then compact_out cs else if c = quote then c # compact_in cs else c # compact_out cs)"
| "compact_in [] = []"
| "compact_in (c # cs) =
     (if c = backslash then (case cs of [] \<Rightarrow> [c] | d # ds \<Rightarrow> c # d # compact_in ds)
      else if c = quote then c # compact_out cs else c # compact_in cs)"

definition json_Compact :: "string \<Rightarrow> string option" where
  "json_Compact s = (if json_Valid s then Some (compact_out s) else None)"

subsection \<open>Printing\<close>

definition hex_char :: "nat \<Rightarrow> char" where
  "hex_char n = (if n < 10 then char_of (48 + n) else char_of (87 + n))"

definition u_escape :: "nat \<Rightarrow> string" where
  "u_escape n =
     [backslash, CHR ''u'', hex_char (n div 4096 mod 16), hex_char (n div 256 mod 16),
      hex_char (n div 16 mod 16), hex_char (n mod 16)]"

definition escape_ascii :: "char \<Rightarrow> string" where
  "escape_ascii c =
     (if c = quote \<or> c = backslash then [backslash, c]
      else if c = CHR 8 then [backslash, CHR ''b'']
      else if c = CHR 12 then [backslash, CHR ''f'']
      else if c = CHR 10 then [backslash, CHR ''n'']
      else if c = CHR 13 then [backslash, CHR ''r'']
      else if c = CHR 9 then [backslash, CHR ''t'']
      else if byte c < 32 \<or> c = CHR ''<'' \<or> c = CHR ''>'' \<or> c = CHR ''&'' then u_escape (byte c)
      else [c])"

lemma utf8_len_le: "utf8_len s \<le> length s"
  by (auto simp: utf8_len_def dest!: list_all2_lengthD split: list.splits option.splits)

function quote_body :: "string \<Rightarrow> string" where
  "quote_body [] = []"
| "quote_body (c # cs) =
     (if byte c < 128 then escape_ascii c @ quote_body cs
      else if utf8_len (c # cs) = 0 then u_escape 65533 @ quote_body cs
      else if take (utf8_len (c # cs)) (c # cs) = utf8_encode 8232 then u_escape 8232 @ quote_body (drop (utf8_len (c # cs)) (c # cs))
      else if take (utf8_len (c # cs)) (c # cs) = utf8_encode 8233 then u_escape 8233 @ quote_body (drop (utf8_len (c # cs)) (c # cs))
      else take (utf8_len (c # cs)) (c # cs) @ quote_body (drop (utf8_len (c # cs)) (c # cs)))"
  by pat_completeness auto
termination
  by (relation "measure length") auto

definition marshal_str :: "string \<Rightarrow> string" where
  "marshal_str s = quote # quote_body s @ [quote]"

fun join_comma :: "string list \<Rightarrow> string" where
  "join_comma [] = []"
| "join_comma [x] = x"
| "join_comma (x # xs) = x @ CHR '','' # join_comma xs"

fun json_Marshal :: "json \<Rightarrow> string" where
  "json_Marshal JNull = ''null''"
| "json_Marshal (JBool b) = (if b then ''true'' else ''false'')"
| "json_Marshal (JNum t) = t"
| "json_Marshal (JStr s) = marshal_str s"
| "json_Marshal (JArr vs) = CHR ''['' # join_comma (map json_Marshal vs) @ '']''"
| "json_Marshal (JObj ms) =
     CHR ''{'' # join_comma (map (\<lambda>p. marshal_str (fst p) @ CHR '':'' # json_Marshal (snd p)) ms) @ ''}''"

subsection \<open>Decoding into Go values\<close>

text \<open>The folding of keys: ASCII letters to upper case, and the two other letters that fold to ASCII
  ones, U+212A (Kelvin sign) and U+017F (long s).\<close>

definition upper :: "char \<Rightarrow> char" where
  "upper c = (if 97 \<le> byte c \<and> byte c \<le> 122 then char_of (byte c - 32) else c)"

fun fold_key :: "string \<Rightarrow> string" where
  "fold_key [] = []"
| "fold_key (c # cs) =
     (if HasPrefix (c # cs) (utf8_encode 8490) then CHR ''K'' # fold_key (drop 2 cs)
      else if HasPrefix (c # cs) (utf8_encode 383) then CHR ''S'' # fold_key (drop 1 cs)
      else upper c # fold_key cs)"

definition key_matches :: "string \<Rightarrow> string \<Rightarrow> bool" where
  "key_matches field k \<longleftrightarrow> k = field \<or> fold_key k = fold_key field"

text \<open>\<open>struct_field get field z ms\<close>: the value of a field that starts as \<open>z\<close> after decoding the members
  \<open>ms\<close>, \<open>None\<close> when a member has the wrong type.  \<open>get\<close> reads one JSON value.\<close>

definition struct_field :: "(json \<Rightarrow> 'a option) \<Rightarrow> string \<Rightarrow> 'a \<Rightarrow> (string \<times> json) list \<Rightarrow> 'a option" where
  "struct_field get field z ms =
     fold (\<lambda>(k, v) acc.
        if key_matches field k \<and> v \<noteq> JNull then
          (case acc of None \<Rightarrow> None | Some _ \<Rightarrow> get v)
        else acc) ms (Some z)"

fun get_string :: "json \<Rightarrow> string option" where
  "get_string (JStr s) = Some s"
| "get_string _ = None"

fun get_int :: "json \<Rightarrow> int option" where
  "get_int (JNum t) = atoi t"
| "get_int _ = None"

fun get_string_map :: "json \<Rightarrow> (string \<times> string) list option" where
  "get_string_map (JObj ms) =
     those (map (\<lambda>(k, v). case v of JStr s \<Rightarrow> Some (k, s) | JNull \<Rightarrow> Some (k, []) | _ \<Rightarrow> None) ms)"
| "get_string_map _ = None"

text \<open>The members of a document decoded into a struct: \<^verbatim>\<open>null\<close> is a struct left at its zero value.\<close>

fun struct_members :: "json \<Rightarrow> (string \<times> json) list option" where
  "struct_members (JObj ms) = Some ms"
| "struct_members JNull = Some []"
| "struct_members _ = None"

text \<open>\<open>map_key ms k\<close>: the entry of a document decoded into a \<^verbatim>\<open>map[string]interface{}\<close>.\<close>

definition map_key :: "(string \<times> json) list \<Rightarrow> string \<Rightarrow> json option" where
  "map_key ms k = map_of (rev ms) k"

subsection \<open>Floating-point numbers\<close>

text \<open>A literal as a sign and a fraction.\<close>

definition nat_of_digits :: "string \<Rightarrow> nat" where
  "nat_of_digits ds = (case parse_digits 0 ds of Some n \<Rightarrow> n | None \<Rightarrow> 0)"

definition num_value :: "string \<Rightarrow> bool \<times> nat \<times> nat" where
  "num_value t =
     (let neg = HasPrefix t ''-'';
          t0 = TrimPrefix t ''-'';
          i = takeWhile is_digit t0;
          t1 = dropWhile is_digit t0;
          f = (if HasPrefix t1 ''.'' then takeWhile is_digit (drop 1 t1) else []);
          t2 = (if HasPrefix t1 ''.'' then dropWhile is_digit (drop 1 t1) else t1);
          e = (case t2 of [] \<Rightarrow> 0
               | _ # x \<Rightarrow> (case split_sign x of (m, ds) \<Rightarrow>
                    if m then - int (nat_of_digits ds) else int (nat_of_digits ds)));
          e10 = e - int (length f)
      in if e10 \<ge> 0 then (neg, nat_of_digits (i @ f) * 10 ^ nat e10, 1)
         else (neg, nat_of_digits (i @ f), 10 ^ nat (- e10)))"

text \<open>\<^verbatim>\<open>strconv.ParseFloat\<close> fails when the value rounds beyond the largest finite \<^verbatim>\<open>float64\<close>.\<close>

definition f64_in_range :: "string \<Rightarrow> bool" where
  "f64_in_range t = (case num_value t of (_, a, b) \<Rightarrow> a < b * ((2 ^ 54 - 1) * 2 ^ 970))"

definition round_half_even :: "nat \<Rightarrow> nat \<Rightarrow> nat" where
  "round_half_even a b =
     (let q = a div b; r = a mod b in
      if 2 * r < b \<or> (2 * r = b \<and> even q) then q else q + 1)"

text \<open>The integer part of the \<^verbatim>\<open>float64\<close> nearest to \<open>a / b\<close>: with 53 significant bits, at most 53 of
  them after the binary point matter.\<close>

definition f64_floor :: "nat \<Rightarrow> nat \<Rightarrow> nat" where
  "f64_floor a b =
     (case find (\<lambda>e. a < b * 2 ^ (53 + e)) [0..<1025] of
        None \<Rightarrow> 0
      | Some 0 \<Rightarrow>
          (case find (\<lambda>k. a * 2 ^ k < b * 2 ^ 53) (rev [0..<54]) of
             None \<Rightarrow> 0
           | Some k \<Rightarrow> round_half_even (a * 2 ^ k) b div 2 ^ k)
      | Some e \<Rightarrow> round_half_even a (b * 2 ^ e) * 2 ^ e)"

definition f64_to_int64 :: "string \<Rightarrow> int" where
  "f64_to_int64 t =
     (case num_value t of (neg, a, b) \<Rightarrow>
        let v = (if neg then - int (f64_floor a b) else int (f64_floor a b))
        in if in_int64 v then v else - 9223372036854775808)"

text \<open>Whether every number of a document can be read into an \<^verbatim>\<open>interface{}\<close>.\<close>

fun numbers_in_range :: "json \<Rightarrow> bool" where
  "numbers_in_range (JNum t) = f64_in_range t"
| "numbers_in_range (JArr vs) = list_all numbers_in_range vs"
| "numbers_in_range (JObj ms) = list_all (\<lambda>p. numbers_in_range (snd p)) ms"
| "numbers_in_range _ = True"

section \<open>Lemmas\<close>

subsection \<open>The parser consumes its input, and its fuel is enough\<close>

lemma skip_ws_length: "length (skip_ws s) \<le> length s"
  by (simp add: skip_ws_def length_dropWhile_le)

lemma skip_ws_Cons: "skip_ws s = c # cs \<Longrightarrow> length cs < length s"
  using skip_ws_length [of s] by simp

lemma parse_str_length: "parse_str s = Some (t, r) \<Longrightarrow> length r < length s"
proof (induction s arbitrary: t r rule: parse_str.induct)
  case (2 c cs)
  then show ?case
    by (fastforce split: if_splits option.splits dest: str_unit_length)
qed simp

lemma scan_digits1_length: "scan_digits1 s = Some (t, r) \<Longrightarrow> length r < length s"
  by (cases s) (auto simp: scan_digits1_def length_dropWhile_le le_imp_less_Suc split: if_splits)

lemma scan_int_length: "scan_int s = Some (t, r) \<Longrightarrow> length r < length s"
  by (auto simp: scan_int_def dest: scan_digits1_length split: list.splits if_splits)

lemma scan_frac_length: "scan_frac s = Some (t, r) \<Longrightarrow> length r \<le> length s"
  by (auto simp: scan_frac_def dest!: scan_digits1_length split: list.splits if_splits)

lemma scan_exp_length: "scan_exp s = Some (t, r) \<Longrightarrow> length r \<le> length s"
  by (auto simp: scan_exp_def dest!: scan_digits1_length split: list.splits if_splits)

lemma parse_unum_length: "parse_unum s = Some (t, r) \<Longrightarrow> length r < length s"
  by (fastforce simp: parse_unum_def split: option.splits
      dest: scan_int_length scan_frac_length scan_exp_length)

lemma parse_num_length: "parse_num s = Some (t, r) \<Longrightarrow> length r < length s"
  by (auto simp: parse_num_def dest: parse_unum_length split: list.splits if_splits)

lemma parse_length:
  "parse_value n s = Some (v, r) \<Longrightarrow> length r < length s"
  "parse_members n s = Some (ms, r) \<Longrightarrow> length r < length s"
  "parse_elems n s = Some (es, r) \<Longrightarrow> length r < length s"
proof (induction n s and n s and n s arbitrary: v r and ms r and es r
    rule: parse_value_parse_members_parse_elems.induct)
  case (2 n s)
  then show ?case
    by (fastforce dest: skip_ws_Cons parse_str_length parse_num_length split: list.splits if_splits)
next
  case (4 n s)
  then show ?case
    by (fastforce dest: skip_ws_Cons parse_str_length split: list.splits if_splits option.splits)
next
  case (6 n s)
  then show ?case
    by (fastforce dest: skip_ws_Cons split: list.splits if_splits option.splits)
qed simp_all

lemma parse_enough:
  "(\<forall>s x m. parse_value n s = Some x \<longrightarrow> 2 * length s + 1 \<le> m \<longrightarrow> parse_value m s = Some x) \<and>
   (\<forall>s x m. parse_members n s = Some x \<longrightarrow> 2 * length s + 1 \<le> m \<longrightarrow> parse_members m s = Some x) \<and>
   (\<forall>s x m. parse_elems n s = Some x \<longrightarrow> 2 * length s + 2 \<le> m \<longrightarrow> parse_elems m s = Some x)"
  (is "?V n \<and> ?M n \<and> ?E n")
proof (induction n)
  case (Suc n)
  then have V: "\<And>s x m. parse_value n s = Some x \<Longrightarrow> 2 * length s + 1 \<le> m \<Longrightarrow> parse_value m s = Some x"
    and M: "\<And>s x m. parse_members n s = Some x \<Longrightarrow> 2 * length s + 1 \<le> m \<Longrightarrow> parse_members m s = Some x"
    and E: "\<And>s x m. parse_elems n s = Some x \<Longrightarrow> 2 * length s + 2 \<le> m \<Longrightarrow> parse_elems m s = Some x"
    by blast+
  have "parse_value m s = Some x" if p: "parse_value (Suc n) s = Some x" and l: "2 * length s + 1 \<le> m" for s x m
  proof -
    obtain m' where m: "m = Suc m'" using l by (cases m) auto
    obtain c cs where s: "skip_ws s = c # cs" using p by (cases "skip_ws s") auto
    have "2 * length cs + 2 \<le> m'" using skip_ws_Cons [OF s] m l by linarith
    then have "parse_members n cs = Some y \<Longrightarrow> parse_members m' cs = Some y"
      and "parse_elems n cs = Some z \<Longrightarrow> parse_elems m' cs = Some z" for y z
      using M [of cs y m'] E [of cs z m'] by simp_all
    then show ?thesis using p by (auto simp: m s split: list.splits if_splits)
  qed
  moreover have "parse_members m s = Some x"
    if p: "parse_members (Suc n) s = Some x" and l: "2 * length s + 1 \<le> m" for s x m
  proof -
    obtain m' where m: "m = Suc m'" using l by (cases m) auto
    obtain cs k r1 r2 v r3 e r4 where
      parts: "skip_ws s = quote # cs" "parse_str cs = Some (k, r1)" "skip_ws r1 = CHR '':'' # r2"
        "parse_value n r2 = Some (v, r3)" "skip_ws r3 = e # r4"
      using p by (auto split: list.splits if_splits option.splits)
    have "length r2 < length s" "length r4 < length r2"
      using parts(1,2,3,5) parse_length(1) [OF parts(4)]
      by (auto dest!: skip_ws_Cons parse_str_length)
    then have "2 * length r2 + 1 \<le> m'" "2 * length r4 + 1 \<le> m'" using l m by linarith+
    then have "parse_value m' r2 = Some (v, r3)"
      and "parse_members n r4 = Some y \<Longrightarrow> parse_members m' r4 = Some y" for y
      using V [OF parts(4), of m'] M [of r4 y m'] by simp_all
    then show ?thesis using p parts by (auto simp: m split: if_splits)
  qed
  moreover have "parse_elems m s = Some x"
    if p: "parse_elems (Suc n) s = Some x" and l: "2 * length s + 2 \<le> m" for s x m
  proof -
    obtain m' where m: "m = Suc m'" using l by (cases m) auto
    obtain v r1 d r2 where parts: "parse_value n s = Some (v, r1)" "skip_ws r1 = d # r2"
      using p by (auto split: list.splits option.splits)
    have "length r2 < length s"
      using parse_length(1) [OF parts(1)] skip_ws_Cons [OF parts(2)] by linarith
    then have "2 * length s + 1 \<le> m'" "2 * length r2 + 2 \<le> m'" using l m by linarith+
    then have "parse_value m' s = Some (v, r1)"
      and "parse_elems n r2 = Some z \<Longrightarrow> parse_elems m' r2 = Some z" for z
      using V [OF parts(1), of m'] E [of r2 z m'] by simp_all
    then show ?thesis using p parts by (auto simp: m split: if_splits)
  qed
  ultimately show ?case by blast
qed simp

lemma parse_fuel: "parse_value n s = Some (v, r) \<Longrightarrow> parse_value (2 * length s + 2) s = Some (v, r)"
  by (rule parse_enough [THEN conjunct1, rule_format]) simp_all

declare parse_value.simps [simp del] parse_members.simps [simp del] parse_elems.simps [simp del]

lemma json_parse_iff:
  "json_parse s = Some (v, r) \<longleftrightarrow> (\<exists>n. parse_value n s = Some (v, r)) \<and> json_depth v \<le> 10000"
proof
  assume "json_parse s = Some (v, r)"
  then show "(\<exists>n. parse_value n s = Some (v, r)) \<and> json_depth v \<le> 10000"
    by (auto simp: json_parse_def split: option.splits if_splits)
next
  assume "(\<exists>n. parse_value n s = Some (v, r)) \<and> json_depth v \<le> 10000"
  then show "json_parse s = Some (v, r)"
    by (auto simp: json_parse_def dest: parse_fuel)
qed

subsection \<open>Strings survive printing and reading\<close>

text \<open>\<open>utf8_clean\<close> is what remains of a string after a round trip: bytes that are not UTF-8 become
  U+FFFD.  \<open>utf8_valid\<close> strings are unchanged.\<close>

function utf8_clean :: "string \<Rightarrow> string" where
  "utf8_clean [] = []"
| "utf8_clean (c # cs) =
     (if utf8_len (c # cs) = 0 then replacement @ utf8_clean cs
      else take (utf8_len (c # cs)) (c # cs) @ utf8_clean (drop (utf8_len (c # cs)) (c # cs)))"
  by pat_completeness auto
termination
  by (relation "measure length") auto

function utf8_valid :: "string \<Rightarrow> bool" where
  "utf8_valid [] = True"
| "utf8_valid (c # cs) =
     (if utf8_len (c # cs) = 0 then False else utf8_valid (drop (utf8_len (c # cs)) (c # cs)))"
  by pat_completeness auto
termination
  by (relation "measure length") auto

lemma utf8_clean_valid: "utf8_valid s \<Longrightarrow> utf8_clean s = s"
  by (induction s rule: utf8_clean.induct) (auto simp: append_take_drop_id)

lemma utf8_len_ascii [simp]: "byte c < (128 :: nat) \<Longrightarrow> utf8_len (c # cs) = 1"
  by (simp add: utf8_len_def utf8_class_def)

lemma utf8_valid_ascii: "\<forall>c \<in> set s. byte c < (128 :: nat) \<Longrightarrow> utf8_valid s"
  by (induction s) auto

lemma hex_val_char [simp]: "n < 16 \<Longrightarrow> hex_val (hex_char n) = Some n"
  by (auto simp: hex_val_def hex_char_def Let_def)

lemma nat_hex4:
  assumes "n < 65536"
  shows "((n div 4096 mod 16 * 16 + n div 256 mod 16) * 16 + n div 16 mod 16) * 16 + n mod 16 = (n :: nat)"
proof -
  have "n div 4096 = n div 256 div 16" "n div 256 = n div 16 div 16"
    by (simp_all add: div_mult2_eq [symmetric])
  moreover have "n div 4096 mod 16 = n div 4096" using assms by (simp add: less_mult_imp_div_less)
  ultimately show ?thesis by (metis div_mult_mod_eq)
qed

lemma hex4_escape: "n < 65536 \<Longrightarrow>
   hex4 (hex_char (n div 4096 mod 16) # hex_char (n div 256 mod 16) # hex_char (n div 16 mod 16) #
         hex_char (n mod 16) # rest) = Some (n, rest)"
  using nat_hex4 [of n] unfolding hex4_def list.case by (simp del: mod_less)

declare parse_str.simps [simp del]

lemma parse_str_end [simp]: "parse_str (quote # cs) = Some ([], cs)"
  by (simp add: parse_str.simps)

lemma parse_str_unit:
  "c \<noteq> quote \<Longrightarrow> str_unit c cs = Some (u, R) \<Longrightarrow>
     parse_str (c # cs) = map_option (\<lambda>(s, r). (u @ s, r)) (parse_str R)"
  by (simp add: parse_str.simps split: option.split)

lemma parse_str_u_escape:
  assumes "n < 65536" "n < 55296 \<or> 57343 < n"
  shows "parse_str (u_escape n @ R) = map_option (\<lambda>(s, r). (utf8_encode n @ s, r)) (parse_str R)"
proof -
  let ?d = "hex_char (n div 4096 mod 16) # hex_char (n div 256 mod 16) # hex_char (n div 16 mod 16) #
    hex_char (n mod 16) # R"
  have "unicode_escape ?d = Some (utf8_encode n, R)"
    unfolding unicode_escape_def hex4_escape [OF assms(1)] using assms(2) by auto
  then have "str_unit backslash (CHR ''u'' # ?d) = Some (utf8_encode n, R)"
    unfolding str_unit_def str_escape_def by simp
  then have "parse_str (backslash # CHR ''u'' # ?d) = map_option (\<lambda>(s, r). (utf8_encode n @ s, r)) (parse_str R)"
    by (intro parse_str_unit) simp_all
  then show ?thesis unfolding u_escape_def append_Cons append_Nil .
qed

lemma utf8_encode_ascii: "byte c < (128 :: nat) \<Longrightarrow> utf8_encode (byte c) = [c]"
  by (simp add: utf8_encode_def)

lemma parse_str_escape_ascii:
  assumes "byte c < (128 :: nat)"
  shows "parse_str (escape_ascii c @ R) = map_option (\<lambda>(s, r). (c # s, r)) (parse_str R)"
proof -
  have esc: "parse_str (backslash # d # R) = map_option (\<lambda>(s, r). (c # s, r)) (parse_str R)"
    if "str_escape (d # R) = Some ([c], R)" for d
    using parse_str_unit [of backslash "d # R" "[c]" R] that by (simp add: str_unit_def)
  have plain: "parse_str (c # R) = map_option (\<lambda>(s, r). (c # s, r)) (parse_str R)"
    if "c \<noteq> quote" "c \<noteq> backslash" "\<not> byte c < (32 :: nat)"
    using parse_str_unit [of c R "[c]" R] that assms by (simp add: str_unit_def)
  have u: "parse_str (u_escape (byte c) @ R) = map_option (\<lambda>(s, r). (c # s, r)) (parse_str R)"
    using parse_str_u_escape [of "byte c" R] assms by (simp add: utf8_encode_ascii)
  show ?thesis
    by (simp add: escape_ascii_def u plain esc str_escape_def)
qed

lemma utf8_len_append: "utf8_len s = n \<Longrightarrow> n \<noteq> 0 \<Longrightarrow> utf8_len (take n s @ R) = n"
  by (auto simp: utf8_len_def split: list.splits if_splits option.splits)
     (frule list_all2_lengthD, simp)+

lemma parse_str_chunk:
  assumes "utf8_len (c # cs) = n" "n \<noteq> 0" "\<not> byte c < (128 :: nat)"
  shows "parse_str (take n (c # cs) @ R) =
    map_option (\<lambda>(s, r). (take n (c # cs) @ s, r)) (parse_str R)"
proof -
  obtain k where n: "n = Suc k" using assms(2) by (cases n) auto
  have len: "length (take n (c # cs)) = n" using utf8_len_le [of "c # cs"] assms(1) by simp
  have "utf8_len (take n (c # cs) @ R) = n" using assms(1,2) by (rule utf8_len_append)
  then have "str_unit c (take k cs @ R) = Some (take n (c # cs), R)"
    using assms(3) len by (auto simp: str_unit_def n)
  moreover have "c \<noteq> quote" using assms(3) by auto
  ultimately show ?thesis using parse_str_unit [of c "take k cs @ R" "take n (c # cs)" R]
    by (simp add: n)
qed

lemma parse_str_quote_body: "parse_str (quote_body s @ quote # rest) = Some (utf8_clean s, rest)"
proof (induction s rule: quote_body.induct)
  case (2 c cs)
  show ?case
  proof (cases "byte c < (128 :: nat)")
    case True
    with 2 show ?thesis by (simp add: parse_str_escape_ascii)
  next
    case False
    with 2 show ?thesis
      by (auto simp: parse_str_u_escape parse_str_chunk replacement_def)
  qed
qed simp

subsection \<open>Documents survive printing and reading\<close>

text \<open>\<open>printable\<close>: the numbers of a document are JSON literals.  \<open>json_clean\<close>: the document with its
  strings cleaned.\<close>

fun printable :: "json \<Rightarrow> bool" where
  "printable (JNum t) = (parse_num t = Some (t, []))"
| "printable (JArr vs) = list_all printable vs"
| "printable (JObj ms) = list_all (\<lambda>p. printable (snd p)) ms"
| "printable _ = True"

fun json_clean :: "json \<Rightarrow> json" where
  "json_clean (JStr s) = JStr (utf8_clean s)"
| "json_clean (JArr vs) = JArr (map json_clean vs)"
| "json_clean (JObj ms) = JObj (map (\<lambda>p. (utf8_clean (fst p), json_clean (snd p))) ms)"
| "json_clean v = v"

definition delim :: "string \<Rightarrow> bool" where
  "delim r = (case r of [] \<Rightarrow> True
     | c # _ \<Rightarrow> \<not> is_digit c \<and> c \<noteq> CHR ''.'' \<and> c \<noteq> CHR ''e'' \<and> c \<noteq> CHR ''E'')"

definition num_char :: "char \<Rightarrow> bool" where
  "num_char c \<longleftrightarrow> is_digit c \<or> c = CHR ''-'' \<or> c = CHR ''+'' \<or> c = CHR ''.'' \<or> c = CHR ''e'' \<or> c = CHR ''E''"

definition head_not :: "(char \<Rightarrow> bool) \<Rightarrow> string \<Rightarrow> bool" where
  "head_not P s = (case s of [] \<Rightarrow> True | c # _ \<Rightarrow> \<not> P c)"

lemma head_not_append: "head_not P (f @ y) = (if f = [] then head_not P y else \<not> P (hd f))"
  by (cases f) (simp_all add: head_not_def)

lemma delim_head_not: "delim x \<Longrightarrow> head_not is_digit x \<and> head_not (\<lambda>c. is_digit c \<or> c = CHR ''.'') x"
  by (auto simp: delim_def head_not_def split: list.splits)

lemma scan_digits1_exact:
  assumes "scan_digits1 s = Some (a, b)"
  shows "s = a @ b \<and> a \<noteq> [] \<and> (\<forall>c \<in> set a. is_digit c) \<and>
    (\<forall>x. head_not is_digit x \<longrightarrow> scan_digits1 (a @ x) = Some (a, x))"
proof -
  from assms have a: "a = takeWhile is_digit s" "b = dropWhile is_digit s" "a \<noteq> []"
    by (auto simp: scan_digits1_def split: if_splits)
  then have "\<forall>c \<in> set a. is_digit c" by (auto dest: set_takeWhileD)
  then have "takeWhile is_digit (a @ x) = a" "dropWhile is_digit (a @ x) = x" if "head_not is_digit x" for x
    using that by (cases x; simp add: head_not_def)+
  with a \<open>\<forall>c \<in> set a. is_digit c\<close> show ?thesis by (simp add: scan_digits1_def)
qed

lemma scan_int_exact:
  assumes "scan_int s = Some (a, b)"
  shows "s = a @ b \<and> a \<noteq> [] \<and> (\<forall>c \<in> set a. is_digit c) \<and>
    (\<forall>x. head_not is_digit x \<longrightarrow> scan_int (a @ x) = Some (a, x))"
proof (cases s)
  case (Cons c cs)
  show ?thesis
  proof (cases "c = CHR ''0''")
    case True
    then show ?thesis using assms Cons by (auto simp: scan_int_def is_digit_def)
  next
    case False
    with assms Cons scan_digits1_exact [of s a b] show ?thesis
      by (cases a) (auto simp: scan_int_def)
  qed
qed (use assms in \<open>simp add: scan_int_def\<close>)

lemma scan_frac_exact:
  assumes "scan_frac s = Some (a, b)"
  shows "s = a @ b \<and> (\<forall>c \<in> set a. num_char c) \<and> (a = [] \<or> hd a = CHR ''.'') \<and>
    (\<forall>x. head_not (\<lambda>c. is_digit c \<or> c = CHR ''.'') x \<longrightarrow> scan_frac (a @ x) = Some (a, x))"
proof (cases "HasPrefix s ''.''")
  case True
  then obtain cs where s: "s = CHR ''.'' # cs" by (cases s) (auto simp: HasPrefix_def)
  with assms obtain d where "scan_digits1 cs = Some (d, b)" "a = CHR ''.'' # d" by (auto simp: scan_frac_def)
  with s scan_digits1_exact [of cs d b] show ?thesis
    by (auto simp: scan_frac_def num_char_def head_not_def split: list.splits)
next
  case False
  then have "a = [] \<and> b = s" using assms by (auto simp: scan_frac_def HasPrefix_def split: list.splits if_splits)
  then show ?thesis by (auto simp: scan_frac_def head_not_def split: list.splits)
qed

lemma scan_exp_exact:
  assumes "scan_exp s = Some (a, b)"
  shows "s = a @ b \<and> (\<forall>c \<in> set a. num_char c) \<and> (a = [] \<or> hd a = CHR ''e'' \<or> hd a = CHR ''E'') \<and>
    (\<forall>x. delim x \<longrightarrow> scan_exp (a @ x) = Some (a, x))"
proof -
  consider "a = []" "b = s"
    | c cs d where "c = CHR ''e'' \<or> c = CHR ''E''" "s = c # cs" "scan_digits1 cs = Some (d, b)" "a = c # d"
    | c e cs d where "c = CHR ''e'' \<or> c = CHR ''E''" "e = CHR ''+'' \<or> e = CHR ''-''" "s = c # e # cs"
        "scan_digits1 cs = Some (d, b)" "a = c # e # d"
    using assms by (auto simp: scan_exp_def split: list.splits if_splits)
  then show ?thesis
  proof cases
    case 1
    then show ?thesis by (auto simp: scan_exp_def delim_def split: list.splits)
  next
    case 2
    have dl: "delim x \<Longrightarrow> head_not is_digit x" for x by (auto simp: delim_def head_not_def split: list.splits)
    from 2 scan_digits1_exact [of cs d b] obtain f fs where
      "d = f # fs" "is_digit f" "cs = d @ b" "\<forall>c \<in> set d. is_digit c"
      "\<And>x. delim x \<Longrightarrow> scan_digits1 (d @ x) = Some (d, x)" using dl by (cases d) auto
    with 2 show ?thesis by (auto simp: scan_exp_def num_char_def is_digit_def)
  next
    case 3
    have dl: "delim x \<Longrightarrow> head_not is_digit x" for x by (auto simp: delim_def head_not_def split: list.splits)
    from 3 scan_digits1_exact [of cs d b] dl show ?thesis
      by (auto simp: scan_exp_def num_char_def)
  qed
qed

lemma parse_unum_exact:
  assumes "parse_unum s = Some (t, r)"
  shows "s = t @ r \<and> (\<forall>c \<in> set t. num_char c) \<and> (\<exists>c cs. t = c # cs \<and> is_digit c) \<and>
    (\<forall>x. delim x \<longrightarrow> parse_unum (t @ x) = Some (t, x))"
proof -
  from assms obtain i s1 f s2 e where parts: "scan_int s = Some (i, s1)" "scan_frac s1 = Some (f, s2)"
    "scan_exp s2 = Some (e, r)" "t = i @ f @ e" by (auto simp: parse_unum_def split: option.splits)
  note ex = scan_int_exact [OF parts(1)] scan_frac_exact [OF parts(2)] scan_exp_exact [OF parts(3)]
  have "parse_unum (t @ x) = Some (t, x)" if "delim x" for x
  proof -
    have "head_not is_digit (f @ e @ x)" "head_not (\<lambda>c. is_digit c \<or> c = CHR ''.'') (e @ x)"
      using ex(2,3) delim_head_not [OF that] by (auto simp: head_not_append is_digit_def)
    then show ?thesis using ex that parts(4) by (simp add: parse_unum_def)
  qed
  moreover obtain c cs where "t = c # cs \<and> is_digit c" using ex parts(4) by (cases i) auto
  moreover have "\<forall>c \<in> set t. num_char c" unfolding parts(4) set_append using ex
    by (auto simp: num_char_def [of c for c])
  moreover have "s = t @ r" using ex parts(4) by simp
  ultimately show ?thesis by blast
qed

lemma parse_num_exact:
  assumes "parse_num s = Some (t, r)"
  shows "s = t @ r \<and> (\<forall>c \<in> set t. num_char c) \<and> (\<exists>c cs. t = c # cs \<and> num_char c) \<and>
    (\<forall>x. delim x \<longrightarrow> parse_num (t @ x) = Some (t, x))"
proof (cases s)
  case (Cons c cs)
  show ?thesis
  proof (cases "c = CHR ''-''")
    case True
    with assms Cons obtain u where "parse_unum cs = Some (u, r)" "t = c # u" by (auto simp: parse_num_def)
    with Cons True parse_unum_exact [of cs u r] show ?thesis by (auto simp: parse_num_def num_char_def)
  next
    case False
    with assms Cons have "parse_unum s = Some (t, r)" by (simp add: parse_num_def)
    from parse_unum_exact [OF this] False Cons show ?thesis
      by (auto simp: parse_num_def num_char_def is_digit_def)
  qed
qed (use assms in \<open>simp add: parse_num_def\<close>)

lemma parse_num_append: "parse_num t = Some (t, []) \<Longrightarrow> delim r \<Longrightarrow> parse_num (t @ r) = Some (t, r)"
  using parse_num_exact by blast

lemma parse_num_hd: "parse_num s = Some (a, b) \<Longrightarrow> \<exists>c cs. s = c # cs \<and> (c = CHR ''-'' \<or> is_digit c)"
  by (cases s)
     (auto simp: parse_num_def parse_unum_def scan_int_def scan_digits1_def is_digit_def split: if_splits option.splits)

text \<open>The first character of a printed value.\<close>

lemma marshal_hd:
  assumes "printable v"
  obtains c cs where "json_Marshal v = c # cs" "\<not> is_ws c" "c \<noteq> CHR ''}''" "c \<noteq> CHR '']''"
proof (cases v)
  case (JNum t)
  with assms parse_num_hd [of t t "[]"] obtain c cs where "t = c # cs" "c = CHR ''-'' \<or> is_digit c" by auto
  moreover have "is_digit c \<Longrightarrow> \<not> is_ws c \<and> c \<noteq> CHR ''}'' \<and> c \<noteq> CHR '']''" for c
    by (auto simp: is_digit_def is_ws_def)
  ultimately show ?thesis using that JNum by (auto simp: is_ws_def)
next
  case (JBool b)
  then show ?thesis using that by (cases b) (auto simp: is_ws_def)
qed (use that in \<open>auto simp: is_ws_def marshal_str_def\<close>)

lemma skip_ws_marshal: "printable v \<Longrightarrow> skip_ws (json_Marshal v @ r) = json_Marshal v @ r"
  by (rule marshal_hd [of v]) (auto simp: skip_ws_def)

lemma skip_ws_nonspace: "\<not> is_ws c \<Longrightarrow> skip_ws (c # cs) = c # cs"
  by (simp add: skip_ws_def)

text \<open>\<open>value_reads s v r\<close>: with any sufficient fuel, the parser reads \<open>v\<close> off \<open>s\<close> and leaves \<open>r\<close>.\<close>

definition value_reads :: "string \<Rightarrow> json \<Rightarrow> string \<Rightarrow> bool" where
  "value_reads s v r \<longleftrightarrow> (\<exists>n. parse_value n s = Some (v, r))"

lemma value_readsD: "value_reads s v r \<Longrightarrow> 2 * length s + 1 \<le> m \<Longrightarrow> parse_value m s = Some (v, r)"
  using parse_enough [THEN conjunct1] unfolding value_reads_def by blast

lemma parse_elems_marshal:
  assumes "\<And>v r. v \<in> set (a # vs) \<Longrightarrow> delim r \<Longrightarrow> value_reads (json_Marshal v @ r) (json_clean v) r"
    and "2 * length (join_comma (map json_Marshal (a # vs)) @ CHR '']'' # rest) + 2 \<le> m"
  shows "parse_elems m (join_comma (map json_Marshal (a # vs)) @ CHR '']'' # rest) =
    Some (map json_clean (a # vs), rest)"
  using assms
proof (induction vs arbitrary: a m)
  case Nil
  then obtain k where m: "m = Suc k" by (cases m) auto
  have "value_reads (json_Marshal a @ CHR '']'' # rest) (json_clean a) (CHR '']'' # rest)"
    using Nil.prems(1) by (simp add: delim_def is_digit_def)
  from value_readsD [OF this, of k] Nil.prems(2) m show ?case
    by (simp add: parse_elems.simps skip_ws_nonspace is_ws_def)
next
  case (Cons b vs)
  then obtain k where m: "m = Suc k" by (cases m) auto
  let ?R = "join_comma (map json_Marshal (b # vs)) @ CHR '']'' # rest"
  have "value_reads (json_Marshal a @ CHR '','' # ?R) (json_clean a) (CHR '','' # ?R)"
    using Cons.prems(1) [of a "CHR '','' # ?R"] by (simp add: delim_def is_digit_def)
  then have "parse_value k (json_Marshal a @ CHR '','' # ?R) = Some (json_clean a, CHR '','' # ?R)"
    by (rule value_readsD) (use Cons.prems(2) m in simp)
  moreover have "parse_elems k ?R = Some (map json_clean (b # vs), rest)"
    by (rule Cons.IH) (use Cons.prems m in auto)
  ultimately show ?case by (simp add: m parse_elems.simps skip_ws_nonspace is_ws_def)
qed

lemma parse_members_marshal:
  fixes rest :: string
  defines "pr \<equiv> \<lambda>p. marshal_str (fst p) @ CHR '':'' # json_Marshal (snd p)"
    and "cl \<equiv> \<lambda>p. (utf8_clean (fst p), json_clean (snd p))"
  assumes "\<And>p r. p \<in> set (a # ms) \<Longrightarrow> delim r \<Longrightarrow> value_reads (json_Marshal (snd p) @ r) (json_clean (snd p)) r"
    and "2 * length (join_comma (map pr (a # ms)) @ CHR ''}'' # rest) + 1 \<le> m"
  shows "parse_members m (join_comma (map pr (a # ms)) @ CHR ''}'' # rest) = Some (map cl (a # ms), rest)"
  using assms(3,4)
proof (induction ms arbitrary: a m)
  case Nil
  then obtain k where m: "m = Suc k" by (cases m) auto
  have "value_reads (json_Marshal (snd a) @ CHR ''}'' # rest) (json_clean (snd a)) (CHR ''}'' # rest)"
    using Nil.prems(1) by (simp add: delim_def is_digit_def)
  from value_readsD [OF this, of k] Nil.prems(2) m show ?case
    by (simp add: parse_members.simps skip_ws_nonspace is_ws_def pr_def cl_def marshal_str_def parse_str_quote_body)
next
  case (Cons b ms)
  then obtain k where m: "m = Suc k" by (cases m) auto
  let ?R = "join_comma (map pr (b # ms)) @ CHR ''}'' # rest"
  have "value_reads (json_Marshal (snd a) @ CHR '','' # ?R) (json_clean (snd a)) (CHR '','' # ?R)"
    using Cons.prems(1) [of a "CHR '','' # ?R"] by (simp add: delim_def is_digit_def)
  then have "parse_value k (json_Marshal (snd a) @ CHR '','' # ?R) = Some (json_clean (snd a), CHR '','' # ?R)"
    by (rule value_readsD) (use Cons.prems(2) m in \<open>simp add: pr_def\<close>)
  moreover have "parse_members k ?R = Some (map cl (b # ms), rest)"
    by (rule Cons.IH) (use Cons.prems m in auto)
  moreover have "pr a = marshal_str (fst a) @ CHR '':'' # json_Marshal (snd a)"
    and "cl a = (utf8_clean (fst a), json_clean (snd a))" by (simp_all add: pr_def cl_def)
  ultimately show ?case
    by (simp add: m parse_members.simps skip_ws_nonspace is_ws_def marshal_str_def parse_str_quote_body)
qed

lemma parse_marshal:
  "printable v \<Longrightarrow> delim r \<Longrightarrow> value_reads (json_Marshal v @ r) (json_clean v) r"
proof (induction v arbitrary: r)
  case (JNum t)
  then obtain c cs where t: "t = c # cs" "c = CHR ''-'' \<or> is_digit c" using parse_num_hd [of t t "[]"] by auto
  then have "\<not> is_ws c \<and> c \<noteq> CHR ''{'' \<and> c \<noteq> CHR ''['' \<and> c \<noteq> quote \<and> c \<noteq> CHR ''t'' \<and> c \<noteq> CHR ''f'' \<and> c \<noteq> CHR ''n''"
    by (auto simp: is_ws_def is_digit_def)
  moreover have "parse_num (t @ r) = Some (t, r)" using JNum parse_num_append [of t r] by simp
  ultimately have "parse_value 1 (t @ r) = Some (JNum t, r)"
    by (simp add: t parse_value.simps skip_ws_nonspace HasPrefix_def)
  then show ?case unfolding value_reads_def by auto
next
  case (JStr s)
  have "parse_value 1 (json_Marshal (JStr s) @ r) = Some (JStr (utf8_clean s), r)"
    by (simp add: parse_value.simps marshal_str_def skip_ws_nonspace is_ws_def parse_str_quote_body)
  then show ?case unfolding value_reads_def by auto
next
  case (JArr vs)
  show ?case
  proof (cases vs)
    case Nil
    then have "parse_value 1 (json_Marshal (JArr vs) @ r) = Some (JArr [], r)"
      by (simp add: parse_value.simps skip_ws_nonspace is_ws_def)
    then show ?thesis using Nil unfolding value_reads_def by auto
  next
    case (Cons a ws)
    let ?s = "join_comma (map json_Marshal vs) @ CHR '']'' # r"
    have IH: "value_reads (json_Marshal v @ q) (json_clean v) q" if "v \<in> set vs" "delim q" for v q
      using JArr that by (simp add: list_all_iff)
    have "parse_elems (2 * length ?s + 2) ?s = Some (map json_clean vs, r)"
      using parse_elems_marshal [of a ws r] IH by (simp add: Cons)
    moreover obtain c cs where "json_Marshal a = c # cs" "\<not> is_ws c" "c \<noteq> CHR '']''"
      using JArr.prems(1) Cons by (auto elim: marshal_hd [of a])
    then obtain cs' where "?s = c # cs'" by (cases ws) (auto simp: Cons)
    ultimately have "parse_value (Suc (2 * length ?s + 2)) (CHR ''['' # ?s) = Some (JArr (map json_clean vs), r)"
      using \<open>\<not> is_ws c\<close> \<open>c \<noteq> CHR '']''\<close> by (simp add: parse_value.simps skip_ws_nonspace is_ws_def)
    then show ?thesis unfolding value_reads_def by auto
  qed
next
  case (JObj ms)
  show ?case
  proof (cases ms)
    case Nil
    then have "parse_value 1 (json_Marshal (JObj ms) @ r) = Some (JObj [], r)"
      by (simp add: parse_value.simps skip_ws_nonspace is_ws_def)
    then show ?thesis using Nil unfolding value_reads_def by auto
  next
    case (Cons a ns)
    let ?s = "join_comma (map (\<lambda>p. marshal_str (fst p) @ CHR '':'' # json_Marshal (snd p)) ms) @ CHR ''}'' # r"
    have IH: "value_reads (json_Marshal (snd p) @ q) (json_clean (snd p)) q" if "p \<in> set ms" "delim q" for p q
      using JObj that by (cases p) (auto simp: list_all_iff)
    have "parse_members (2 * length ?s + 1) ?s = Some (map (\<lambda>p. (utf8_clean (fst p), json_clean (snd p))) ms, r)"
      using parse_members_marshal [of a ns r] IH by (simp add: Cons)
    moreover obtain cs where "?s = quote # cs" by (cases ns) (auto simp: Cons marshal_str_def)
    ultimately have "parse_value (Suc (2 * length ?s + 1)) (CHR ''{'' # ?s) =
        Some (json_clean (JObj ms), r)"
      by (simp add: parse_value.simps skip_ws_nonspace is_ws_def)
    then show ?thesis unfolding value_reads_def by auto
  qed
next
  case JNull
  have "parse_value 1 (''null'' @ r) = Some (JNull, r)"
    by (simp add: parse_value.simps skip_ws_nonspace is_ws_def HasPrefix_def)
  then show ?case unfolding value_reads_def by auto
next
  case (JBool b)
  have "parse_value 1 ((if b then ''true'' else ''false'') @ r) = Some (JBool b, r)"
    by (simp add: parse_value.simps skip_ws_nonspace is_ws_def HasPrefix_def)
  then show ?case unfolding value_reads_def by auto
qed

text \<open>Printing and reading back.\<close>

lemma Unmarshal_Marshal:
  "printable v \<Longrightarrow> json_depth (json_clean v) \<le> 10000 \<Longrightarrow> json_Unmarshal (json_Marshal v) = Some (json_clean v)"
  using parse_marshal [of v "[]"]
  by (simp add: json_Unmarshal_def value_reads_def json_parse_iff [THEN iffD2] delim_def skip_ws_def)

lemma Decode_Marshal:
  "printable v \<Longrightarrow> json_depth (json_clean v) \<le> 10000 \<Longrightarrow> delim r \<Longrightarrow>
     Decoder_Decode (json_Marshal v @ r) = Some (json_clean v)"
  using parse_marshal [of v r]
  by (simp add: Decoder_Decode_def value_reads_def json_parse_iff [THEN iffD2])

subsection \<open>The text of a string literal\<close>

text \<open>\<open>str_seg b\<close>: between quotes, \<open>b\<close> reaches its end with no closing quote and no pending escape.\<close>

fun str_seg :: "string \<Rightarrow> bool" where
  "str_seg [] = True"
| "str_seg (c # cs) =
     (if c = quote then False
      else if c = backslash then (case cs of [] \<Rightarrow> False | e # r \<Rightarrow> str_seg r) else str_seg cs)"

lemma str_seg_append: "str_seg x \<Longrightarrow> str_seg y \<Longrightarrow> str_seg (x @ y)"
  by (induction x rule: str_seg.induct) (auto split: if_splits list.splits)

lemma str_seg_plain: "quote \<notin> set x \<Longrightarrow> backslash \<notin> set x \<Longrightarrow> str_seg x"
  by (induction x) auto

lemma compact_in_seg: "str_seg x \<Longrightarrow> compact_in (x @ y) = x @ compact_in y"
  by (induction x rule: str_seg.induct) (auto split: if_splits list.splits)

lemma hex_val_not_special: "hex_val c = Some n \<Longrightarrow> c \<noteq> quote \<and> c \<noteq> backslash"
  by (auto simp: hex_val_def Let_def split: if_splits)

lemma hex4_seg:
  "hex4 s = Some (n, r) \<Longrightarrow> \<exists>h. s = h @ r \<and> quote \<notin> set h \<and> backslash \<notin> set h \<and> (\<forall>x. hex4 (h @ x) = Some (n, x))"
proof -
  assume "hex4 s = Some (n, r)"
  then obtain a b c d where "s = a # b # c # d # r"
    and v: "hex_val a \<noteq> None" "hex_val b \<noteq> None" "hex_val c \<noteq> None" "hex_val d \<noteq> None"
    and n: "hex4 (a # b # c # d # r) = Some (n, r)"
    by (auto simp: hex4_def split: list.splits option.splits)
  moreover have "quote \<notin> set [a, b, c, d] \<and> backslash \<notin> set [a, b, c, d]"
    using v by (auto dest: hex_val_not_special)
  moreover have "hex4 ([a, b, c, d] @ x) = Some (n, x)" for x
    using n by (auto simp: hex4_def split: option.splits)
  ultimately show ?thesis by (intro exI [of _ "[a, b, c, d]"]) simp
qed

lemma low_surrogate_seg:
  assumes "low_surrogate s = Some (n, r)"
  shows "\<exists>h. s = h @ r \<and> quote \<notin> set h \<and> str_seg h \<and> (\<forall>x. low_surrogate (h @ x) = Some (n, x))"
proof -
  from assms obtain t where s: "s = backslash # CHR ''u'' # t" and t: "hex4 t = Some (n, r)"
    by (auto simp: low_surrogate_def split: list.splits if_splits option.splits)
  from hex4_seg [OF t] obtain h where h: "t = h @ r" "quote \<notin> set h" "backslash \<notin> set h" "\<And>x. hex4 (h @ x) = Some (n, x)"
    by blast
  with assms s have "low_surrogate ((backslash # CHR ''u'' # h) @ x) = Some (n, x)" for x
    by (auto simp: low_surrogate_def split: if_splits)
  with s h show ?thesis by (intro exI [of _ "backslash # CHR ''u'' # h"]) (auto simp: str_seg_plain)
qed

lemma prefix_before_quote: "b @ quote # q = h @ x \<Longrightarrow> quote \<notin> set h \<Longrightarrow> \<exists>b'. b = h @ b'"
  by (auto simp: append_eq_append_conv2 Cons_eq_append_conv)

text \<open>Looking ahead for a low surrogate or for continuation bytes stops at the closing quote.\<close>

lemma low_surrogate_lookahead:
  "low_surrogate (b @ quote # q) = None \<Longrightarrow> low_surrogate (b @ quote # q') = None"
proof (rule ccontr)
  assume none: "low_surrogate (b @ quote # q) = None" and "low_surrogate (b @ quote # q') \<noteq> None"
  then obtain n x where "low_surrogate (b @ quote # q') = Some (n, x)" by fastforce
  from low_surrogate_seg [OF this] obtain h where h: "b @ quote # q' = h @ x" "quote \<notin> set h"
    "\<And>x. low_surrogate (h @ x) = Some (n, x)" by blast
  from prefix_before_quote [OF h(1,2)] obtain b' where "b = h @ b'" ..
  with h(3) [of "b' @ quote # q"] none show False by simp
qed

lemma utf8_len_lookahead: "utf8_len (c # b @ quote # q) = utf8_len (c # b @ quote # q')"
proof (cases "utf8_class (byte c)")
  case (Some rs)
  have lo: "(lo, hi) \<in> set rs \<Longrightarrow> 128 \<le> lo" for lo hi
    using Some by (auto simp: utf8_class_def split: if_splits)
  show ?thesis
  proof (cases "length rs \<le> length b")
    case True
    then show ?thesis by (simp add: utf8_len_def Some)
  next
    case False
    then have "\<not> list_all2 (\<lambda>(lo, hi) d. utf8_cont lo hi d) rs (take (length rs) (b @ quote # x))" for x
      using lo [of "fst (rs ! length b)" "snd (rs ! length b)"]
      by (auto simp: list_all2_conv_all_nth utf8_cont_def nth_append intro!: exI [of _ "length b"])
    then show ?thesis by (simp add: utf8_len_def Some)
  qed
qed (simp add: utf8_len_def)

lemma utf8_cont_bytes:
  assumes "utf8_len (c # cs) = Suc k" "d \<in> set (take k cs)"
  shows "128 \<le> (byte d :: nat)"
proof -
  from assms(1) obtain rs where rs: "utf8_class (byte c) = Some rs" "k = length rs"
    and all: "list_all2 (\<lambda>(lo, hi) d. utf8_cont lo hi d) rs (take k cs)"
    by (auto simp: utf8_len_def split: option.splits if_splits)
  have lo: "\<forall>p \<in> set rs. 128 \<le> fst p"
    using rs(1) by (auto simp: utf8_class_def split: if_splits)
  from assms(2) obtain i where i: "i < length (take k cs)" "d = take k cs ! i" by (metis in_set_conv_nth)
  have "i < length rs" using i(1) rs(2) by simp
  have "utf8_cont (fst (rs ! i)) (snd (rs ! i)) d"
    using list_all2_nthD [OF all \<open>i < length rs\<close>] i(2) by (simp only: case_prod_beta)
  moreover have "128 \<le> fst (rs ! i)" using lo nth_mem [OF \<open>i < length rs\<close>] by blast
  ultimately show ?thesis by (simp add: utf8_cont_def)
qed

definition unit_seg :: "char \<Rightarrow> string \<Rightarrow> string \<Rightarrow> string \<Rightarrow> string \<Rightarrow> bool" where
  "unit_seg c cs u r w \<longleftrightarrow> cs = w @ r \<and> str_seg (c # w) \<and>
    (\<forall>b q q'. r = b @ quote # q \<longrightarrow> str_unit c (w @ b @ quote # q') = Some (u, b @ quote # q'))"

lemma str_unit_plain_seg:
  assumes "c \<noteq> quote" "c \<noteq> backslash" and u: "str_unit c cs = Some (u, r)"
  shows "\<exists>w. unit_seg c cs u r w"
proof -
  have c32: "\<not> byte c < (32 :: nat)" using u assms(2) by (auto simp: str_unit_def split: if_splits)
  show ?thesis
  proof (cases "utf8_len (c # cs)")
    case 0
    then have r: "r = cs" "u = replacement" using u assms(2) c32 by (simp_all add: str_unit_def)
    have "str_unit c (b @ quote # q') = Some (u, b @ quote # q')" if "cs = b @ quote # q" for b q q'
      using 0 that utf8_len_lookahead [of c b q q'] assms(2) c32 r by (simp add: str_unit_def)
    then have "unit_seg c cs u r []" using r assms by (simp add: unit_seg_def)
    then show ?thesis ..
  next
    case (Suc k)
    then have r: "r = drop k cs" "u = c # take k cs" using u assms(2) c32 by (simp_all add: str_unit_def)
    have kl: "k \<le> length cs" using utf8_len_le [of "c # cs"] Suc by simp
    have "quote \<notin> set (take k cs)" "backslash \<notin> set (take k cs)"
      using utf8_cont_bytes [OF Suc] by fastforce+
    then have "str_seg (c # take k cs)" using assms by (simp add: str_seg_plain)
    moreover have "str_unit c (take k cs @ x) = Some (u, x)" for x
    proof -
      have "utf8_len (c # take k cs @ x) = Suc k" using utf8_len_append [OF Suc, of x] by simp
      then show ?thesis using assms(2) c32 r kl by (simp add: str_unit_def)
    qed
    ultimately have "unit_seg c cs u r (take k cs)" using r by (simp add: unit_seg_def)
    then show ?thesis ..
  qed
qed

lemma unicode_escape_seg:
  assumes "unicode_escape ds = Some (u, r)"
  shows "\<exists>h. ds = h @ r \<and> str_seg h \<and>
    (\<forall>b q q'. r = b @ quote # q \<longrightarrow> unicode_escape (h @ b @ quote # q') = Some (u, b @ quote # q'))"
proof -
  from assms obtain n rest where hx: "hex4 ds = Some (n, rest)"
    by (auto simp: unicode_escape_def split: option.splits)
  from hex4_seg [OF hx] obtain h where h: "ds = h @ rest" "quote \<notin> set h" "backslash \<notin> set h"
    and h4: "\<And>x. hex4 (h @ x) = Some (n, x)" by blast
  have hseg: "str_seg h" using h by (simp add: str_seg_plain)
  show ?thesis
  proof (cases "55296 \<le> n \<and> n \<le> 56319 \<and> low_surrogate rest \<noteq> None")
    case False
    then have r: "r = rest" and
      u: "u = (if 55296 \<le> n \<and> n \<le> 57343 then replacement else utf8_encode n)"
      using assms hx by (auto simp: unicode_escape_def split: if_splits option.splits)
    have "unicode_escape (h @ b @ quote # q') = Some (u, b @ quote # q')" if "r = b @ quote # q" for b q q'
    proof -
      have "55296 \<le> n \<and> n \<le> 56319 \<Longrightarrow> low_surrogate (b @ quote # q') = None"
        using False that r low_surrogate_lookahead by blast
      then show ?thesis unfolding unicode_escape_def h4 u by auto
    qed
    then show ?thesis using h(1) hseg r by blast
  next
    case True
    then obtain m where sur: "low_surrogate rest = Some (m, r)"
      and u: "u = utf8_encode (65536 + (n - 55296) * 1024 + (m - 56320))"
      using assms hx by (auto simp: unicode_escape_def)
    from low_surrogate_seg [OF sur] obtain g where g: "rest = g @ r" "str_seg g"
      and g4: "\<And>x. low_surrogate (g @ x) = Some (m, x)" by blast
    have "unicode_escape ((h @ g) @ x) = Some (u, x)" for x
      unfolding unicode_escape_def append_assoc h4 u using True g4 by auto
    then show ?thesis using h(1) g(1) str_seg_append [OF hseg g(2)]
      by (intro exI [of _ "h @ g"]) simp
  qed
qed

lemma str_unit_escape_seg:
  assumes "str_unit backslash cs = Some (u, r)"
  shows "\<exists>w. unit_seg backslash cs u r w"
proof -
  have e: "str_escape cs = Some (u, r)" using assms by (simp add: str_unit_def)
  then obtain d ds where cs: "cs = d # ds" by (cases cs) (auto simp: str_escape_def)
  have su: "str_unit backslash (d # x) = str_escape (d # x)" for x by (simp add: str_unit_def)
  show ?thesis
  proof (cases "d = CHR ''u''")
    case False
    then have "r = ds" "\<And>x. str_escape (d # x) = Some (u, x)"
      using e cs by (auto simp: str_escape_def split: if_splits)
    then have "unit_seg backslash cs u r [d]" using cs su by (simp add: unit_seg_def)
    then show ?thesis ..
  next
    case True
    then have ux: "str_escape (d # x) = unicode_escape x" for x by (simp add: str_escape_def)
    from unicode_escape_seg [of ds u r] e cs ux obtain h where
      "ds = h @ r" "str_seg h" "\<And>b q q'. r = b @ quote # q \<Longrightarrow>
        unicode_escape (h @ b @ quote # q') = Some (u, b @ quote # q')" by auto
    then have "unit_seg backslash cs u r (d # h)" using cs su ux by (simp add: unit_seg_def)
    then show ?thesis ..
  qed
qed

lemma str_unit_seg:
  assumes "c \<noteq> quote" "str_unit c cs = Some (u, r)"
  shows "\<exists>w. unit_seg c cs u r w"
proof (cases "c = backslash")
  case True
  show ?thesis using assms(2) unfolding True by (rule str_unit_escape_seg)
next
  case False
  show ?thesis using assms(1) False assms(2) by (rule str_unit_plain_seg)
qed

lemma parse_str_seg:
  "parse_str s = Some (t, r) \<Longrightarrow> \<exists>b. s = b @ quote # r \<and> str_seg b \<and> (\<forall>q. parse_str (b @ quote # q) = Some (t, q))"
proof (induction s arbitrary: t r rule: parse_str.induct)
  case (2 c cs)
  show ?case
  proof (cases "c = quote")
    case True
    then show ?thesis using "2.prems" by (intro exI [of _ "[]"]) auto
  next
    case False
    with "2.prems" obtain u rest t' where u: "str_unit c cs = Some (u, rest)"
      and p: "parse_str rest = Some (t', r)" and t: "t = u @ t'"
      by (auto simp: parse_str.simps split: option.splits)
    from "2.IH" [OF False u refl p] obtain b where b: "rest = b @ quote # r" "str_seg b"
      "\<And>q. parse_str (b @ quote # q) = Some (t', q)" by blast
    from str_unit_seg [OF False u] obtain w where "unit_seg c cs u rest w" ..
    then have w: "cs = w @ rest" "str_seg (c # w)"
      "\<And>q'. str_unit c (w @ b @ quote # q') = Some (u, b @ quote # q')"
      using b(1) unfolding unit_seg_def by blast+
    have "parse_str ((c # w @ b) @ quote # q) = Some (t, q)" for q
      using parse_str_unit [OF False w(3) [of q]] b(3) t by simp
    moreover have "str_seg (c # w @ b)" using str_seg_append [OF w(2) b(2)] by simp
    ultimately show ?thesis using w(1) b(1) by (intro exI [of _ "c # w @ b"]) auto
  qed
qed (simp add: parse_str.simps)

subsection \<open>Compaction keeps the document\<close>

lemma compact_skip_ws [simp]: "compact_out (skip_ws s) = compact_out s"
  by (induction s) (simp_all add: skip_ws_def)

lemma skip_ws_head: "skip_ws s = c # cs \<Longrightarrow> \<not> is_ws c"
  unfolding skip_ws_def by (metis hd_dropWhile list.distinct(1) list.sel(1))

lemma compact_skip_Cons:
  assumes "skip_ws s = c # cs"
  shows "compact_out s = c # (if c = quote then compact_in cs else compact_out cs)"
    and "skip_ws (compact_out s) = c # (if c = quote then compact_in cs else compact_out cs)"
proof -
  have c: "\<not> is_ws c" using assms by (rule skip_ws_head)
  have "compact_out s = compact_out (c # cs)" using compact_skip_ws [of s] assms by simp
  with c show eq: "compact_out s = c # (if c = quote then compact_in cs else compact_out cs)" by simp
  show "skip_ws (compact_out s) = c # (if c = quote then compact_in cs else compact_out cs)"
    unfolding eq using c by (rule skip_ws_nonspace)
qed

lemma compact_parse_str: "parse_str cs = Some (t, r) \<Longrightarrow> parse_str (compact_in cs) = Some (t, compact_out r)"
  using parse_str_seg [of cs t r] by (auto simp: compact_in_seg)

lemma compact_plain: "\<forall>c \<in> set t. \<not> is_ws c \<and> c \<noteq> quote \<Longrightarrow> compact_out (t @ r) = t @ compact_out r"
  by (induction t) auto

lemma num_char_plain: "num_char c \<Longrightarrow> \<not> is_ws c \<and> c \<noteq> quote \<and> c \<noteq> CHR ''{'' \<and> c \<noteq> CHR ''}'' \<and>
    c \<noteq> CHR ''['' \<and> c \<noteq> CHR '']'' \<and> c \<noteq> CHR ''t'' \<and> c \<noteq> CHR ''f'' \<and> c \<noteq> CHR ''n'' \<and> c \<noteq> backslash"
  by (auto simp: num_char_def is_digit_def is_ws_def)

text \<open>The outcomes of \<open>parse_value\<close>, one per kind of value.\<close>

lemma parse_value_cases:
  assumes "parse_value (Suc n) s = Some (v, r)"
  obtains (obj0) cs where "skip_ws s = CHR ''{'' # cs" "skip_ws cs = CHR ''}'' # r" "v = JObj []"
  | (obj) cs d ds ms where "skip_ws s = CHR ''{'' # cs" "skip_ws cs = d # ds" "d \<noteq> CHR ''}''"
      "parse_members n cs = Some (ms, r)" "v = JObj ms"
  | (arr0) cs where "skip_ws s = CHR ''['' # cs" "skip_ws cs = CHR '']'' # r" "v = JArr []"
  | (arr) cs d ds es where "skip_ws s = CHR ''['' # cs" "skip_ws cs = d # ds" "d \<noteq> CHR '']''"
      "parse_elems n cs = Some (es, r)" "v = JArr es"
  | (str) cs t where "skip_ws s = quote # cs" "parse_str cs = Some (t, r)" "v = JStr t"
  | (lit) t where "skip_ws s = t @ r" "(t, v) \<in> {(''true'', JBool True), (''false'', JBool False), (''null'', JNull)}"
  | (num) t where "skip_ws s = t @ r" "parse_num (t @ r) = Some (t, r)" "v = JNum t"
proof -
  obtain c cs where s: "skip_ws s = c # cs" using assms by (cases "skip_ws s") (auto simp: parse_value.simps)
  consider "c = CHR ''{''" | "c = CHR ''[''" | "c = quote"
    | "c \<noteq> CHR ''{''" "c \<noteq> CHR ''[''" "c \<noteq> quote" by blast
  then show ?thesis
  proof cases
    case 1
    then show ?thesis using assms s obj0 obj
      by (auto simp: parse_value.simps split: list.splits if_splits)
  next
    case 2
    then show ?thesis using assms s arr0 arr
      by (auto simp: parse_value.simps split: list.splits if_splits)
  next
    case 3
    then show ?thesis using assms s str by (auto simp: parse_value.simps)
  next
    case 4
    have pre: "c # cs = t @ drop (length t) (c # cs)" if "HasPrefix (c # cs) t" for t
      using that by (metis HasPrefix_def append_take_drop_id)
    have num: "parse_num (c # cs) = Some (t, r) \<Longrightarrow> v = JNum t \<Longrightarrow> thesis" for t
      using num [of t] parse_num_exact [of "c # cs" t r] s by auto
    show ?thesis using assms s 4 num lit pre [of "''true''"] pre [of "''false''"] pre [of "''null''"]
      by (auto simp: parse_value.simps eval_nat_numeral split: if_splits)
  qed
qed

lemma parse_members_cases:
  assumes "parse_members (Suc n) s = Some (ms, r)"
  obtains cs k r1 r2 v r3 e r4 where
    "skip_ws s = quote # cs" "parse_str cs = Some (k, r1)" "skip_ws r1 = CHR '':'' # r2"
    "parse_value n r2 = Some (v, r3)" "skip_ws r3 = e # r4"
    "e = CHR ''}'' \<and> ms = [(k, v)] \<and> r = r4 \<or>
     e = CHR '','' \<and> (\<exists>ms'. parse_members n r4 = Some (ms', r) \<and> ms = (k, v) # ms')"
  using assms by (auto simp: parse_members.simps split: list.splits if_splits option.splits)

lemma parse_elems_cases:
  assumes "parse_elems (Suc n) s = Some (es, r)"
  obtains v r1 d r2 where "parse_value n s = Some (v, r1)" "skip_ws r1 = d # r2"
    "d = CHR '']'' \<and> es = [v] \<and> r = r2 \<or>
     d = CHR '','' \<and> (\<exists>es'. parse_elems n r2 = Some (es', r) \<and> es = v # es')"
  using assms by (auto simp: parse_elems.simps split: list.splits if_splits option.splits)

lemma compact_value:
  assumes "parse_value (Suc n) s = Some (v, r)" "delim (compact_out r)"
    and M: "\<And>s x r. parse_members n s = Some (x, r) \<Longrightarrow> parse_members n (compact_out s) = Some (x, compact_out r)"
    and E: "\<And>s x r. parse_elems n s = Some (x, r) \<Longrightarrow> parse_elems n (compact_out s) = Some (x, compact_out r)"
  shows "parse_value (Suc n) (compact_out s) = Some (v, compact_out r)"
  using assms(1)
proof (cases rule: parse_value_cases)
  case (obj0 cs)
  then show ?thesis by (simp add: parse_value.simps compact_skip_Cons(2))
next
  case (obj cs d ds ms)
  then show ?thesis by (simp add: parse_value.simps compact_skip_Cons(2) M)
next
  case (arr0 cs)
  then show ?thesis by (simp add: parse_value.simps compact_skip_Cons(2))
next
  case (arr cs d ds es)
  then show ?thesis by (simp add: parse_value.simps compact_skip_Cons(2) E)
next
  case (str cs t)
  then show ?thesis by (simp add: parse_value.simps compact_skip_Cons(2) compact_parse_str)
next
  case (lit t)
  then have "compact_out s = t @ compact_out r"
    using compact_plain [of t r] compact_skip_ws [of s] by (auto simp: is_ws_def)
  then show ?thesis using lit(2)
    by (auto simp: parse_value.simps skip_ws_nonspace is_ws_def HasPrefix_def)
next
  case (num t)
  note ex = parse_num_exact [OF num(2)]
  then obtain c cs where t: "t = c # cs" "num_char c" by blast
  have "compact_out s = t @ compact_out r"
    using compact_plain [of t r] compact_skip_ws [of s] num(1) ex num_char_plain by fastforce
  moreover have "parse_num (t @ compact_out r) = Some (t, compact_out r)" using ex assms(2) by blast
  ultimately show ?thesis using t num_char_plain [of c] num(3)
    by (simp add: parse_value.simps skip_ws_nonspace HasPrefix_def)
qed

lemma delim_punct: "c = CHR '','' \<or> c = CHR ''}'' \<or> c = CHR '']'' \<Longrightarrow> delim (c # s)"
  by (auto simp: delim_def is_digit_def)

lemma compact_parse:
  "(\<forall>s v r. parse_value n s = Some (v, r) \<longrightarrow> delim (compact_out r) \<longrightarrow>
       parse_value n (compact_out s) = Some (v, compact_out r)) \<and>
   (\<forall>s x r. parse_members n s = Some (x, r) \<longrightarrow> parse_members n (compact_out s) = Some (x, compact_out r)) \<and>
   (\<forall>s x r. parse_elems n s = Some (x, r) \<longrightarrow> parse_elems n (compact_out s) = Some (x, compact_out r))"
proof (induction n)
  case 0
  show ?case by (simp add: parse_value.simps parse_members.simps parse_elems.simps)
next
  case (Suc n)
  then have V: "\<And>s v r. parse_value n s = Some (v, r) \<Longrightarrow> delim (compact_out r) \<Longrightarrow>
       parse_value n (compact_out s) = Some (v, compact_out r)"
    and M: "\<And>s x r. parse_members n s = Some (x, r) \<Longrightarrow> parse_members n (compact_out s) = Some (x, compact_out r)"
    and E: "\<And>s x r. parse_elems n s = Some (x, r) \<Longrightarrow> parse_elems n (compact_out s) = Some (x, compact_out r)"
    by blast+
  have "parse_members (Suc n) (compact_out s) = Some (x, compact_out r)"
    if "parse_members (Suc n) s = Some (x, r)" for s x r
    using that
  proof (cases rule: parse_members_cases)
    case (1 cs k r1 r2 v r3 e r4)
    then have "delim (compact_out r3)" by (auto simp: compact_skip_Cons(1) delim_punct)
    with 1 V have "parse_value n (compact_out r2) = Some (v, compact_out r3)" by blast
    with 1 M show ?thesis by (auto simp: parse_members.simps compact_skip_Cons(2) compact_parse_str)
  qed
  moreover have "parse_elems (Suc n) (compact_out s) = Some (x, compact_out r)"
    if "parse_elems (Suc n) s = Some (x, r)" for s x r
    using that
  proof (cases rule: parse_elems_cases)
    case (1 v r1 d r2)
    then have "delim (compact_out r1)" by (auto simp: compact_skip_Cons(1) delim_punct)
    with 1 V have "parse_value n (compact_out s) = Some (v, compact_out r1)" by blast
    with 1 E show ?thesis by (auto simp: parse_elems.simps compact_skip_Cons(2))
  qed
  ultimately show ?case using compact_value M E by blast
qed

lemma Unmarshal_Compact:
  assumes "json_Unmarshal s = Some v"
  shows "json_Unmarshal (compact_out s) = Some v"
proof -
  from assms obtain r where p: "json_parse s = Some (v, r)" and r: "skip_ws r = []"
    by (auto simp: json_Unmarshal_def split: option.splits if_splits)
  from p obtain n where n: "parse_value n s = Some (v, r)" and d: "json_depth v \<le> 10000"
    by (auto simp: json_parse_iff)
  have "compact_out r = []" using compact_skip_ws [of r] r by simp
  then have "parse_value n (compact_out s) = Some (v, [])"
    using compact_parse [of n] n by (simp add: delim_def)
  then have "json_parse (compact_out s) = Some (v, [])" using d by (auto simp: json_parse_iff)
  then show ?thesis by (simp add: json_Unmarshal_def skip_ws_def)
qed

subsection \<open>Integers as numbers\<close>

lemma is_digit_digits: "c \<in> set (digits_of_nat n) \<Longrightarrow> is_digit c"
  using digits_of_nat_are_digits [of c n] by (auto simp: digit_val_def is_digit_def Let_def split: if_splits)

lemma digits_of_nat_zero: "hd (digits_of_nat n) = CHR ''0'' \<Longrightarrow> n = 0"
proof (induction n rule: digits_of_nat.induct)
  case (1 n)
  show ?case
  proof (cases "n < 10")
    case True
    with "1.prems" have "digit_val (digit_char n) = digit_val (CHR ''0'')" by (simp add: digits_of_nat.simps [of n])
    moreover have "digit_val (CHR ''0'') = Some 0" by code_simp
    ultimately show ?thesis using True by simp
  next
    case False
    then show ?thesis using "1.IH" "1.prems" by (simp add: digits_of_nat.simps [of n])
  qed
qed

lemma parse_unum_digits: "parse_unum (digits_of_nat n) = Some (digits_of_nat n, [])"
proof (cases "n = 0")
  case True
  have "digits_of_nat 0 = ''0''" by code_simp
  then show ?thesis using True by (simp add: parse_unum_def scan_int_def scan_frac_def scan_exp_def)
next
  case False
  then have "hd (digits_of_nat n) \<noteq> CHR ''0''" using digits_of_nat_zero by blast
  moreover have "takeWhile is_digit (digits_of_nat n) = digits_of_nat n" "dropWhile is_digit (digits_of_nat n) = []"
    using is_digit_digits by (simp_all add: takeWhile_eq_all_conv)
  ultimately have "scan_int (digits_of_nat n) = Some (digits_of_nat n, [])"
    by (cases "digits_of_nat n") (simp_all add: scan_int_def scan_digits1_def)
  then show ?thesis by (simp add: parse_unum_def scan_frac_def scan_exp_def)
qed

lemma parse_num_itoa [simp]: "parse_num (itoa i) = Some (itoa i, [])"
proof (cases "i < 0")
  case True
  then show ?thesis by (simp add: itoa_def parse_num_def parse_unum_digits)
next
  case False
  then show ?thesis using digits_of_nat_hd [of "nat i"] parse_unum_digits [of "nat i"]
    by (cases "digits_of_nat (nat i)") (auto simp: itoa_def parse_num_def)
qed

subsection \<open>Keys of ASCII letters\<close>

lemma HasPrefix_hd: "c \<noteq> x \<Longrightarrow> \<not> HasPrefix (c # cs) (x # y)"
  by (simp add: HasPrefix_def)

lemma fold_key_ascii: "\<forall>c \<in> set s. byte c < (128 :: nat) \<Longrightarrow> fold_key s = map upper s"
proof (induction s)
  case (Cons c cs)
  have "c \<noteq> char_of (226 :: nat)" "c \<noteq> char_of (197 :: nat)" using Cons.prems by auto
  moreover have "utf8_encode 8490 = [char_of (226 :: nat), char_of (132 :: nat), char_of (170 :: nat)]"
    "utf8_encode 383 = [char_of (197 :: nat), char_of (191 :: nat)]" by (simp_all add: utf8_encode_def)
  ultimately have "\<not> HasPrefix (c # cs) (utf8_encode 8490)" "\<not> HasPrefix (c # cs) (utf8_encode 383)"
    by (simp_all only: HasPrefix_hd not_False_eq_True)
  with Cons show ?case by simp
qed simp

lemma key_matches_upper:
  "list_all (\<lambda>c. byte c < (128 :: nat)) k \<Longrightarrow> list_all (\<lambda>c. byte c < (128 :: nat)) f \<Longrightarrow>
     key_matches f k \<longleftrightarrow> map upper k = map upper f"
  by (auto simp: key_matches_def fold_key_ascii list_all_iff)

end
