(* ===== verification/Http_Model.thy ===== *)
theory Http_Model
  imports Go_Json
begin

text \<open>
  What the router, the client and the mock servers use of Go's \<^verbatim>\<open>net/http\<close>.

  \<^item> Headers map canonical keys to lists of values.
  \<^item> A request carries its parsed query and cookies.  Its body is the bytes that the peer sends,
    possibly behind an \<^verbatim>\<open>http.MaxBytesReader\<close>.
  \<^item> A \<open>ResponseWriter\<close> is the server's own writer (\<open>Base\<close>) or a \<^verbatim>\<open>statusWriter\<close> around another writer.  The
    base writer keeps the header map, the informational codes, the final status with the header that
    was sent with it, and the writes to the body.  A \<open>Write\<close> or a \<open>Flush\<close> sends the status 200 first when
    no final status was sent; a second final status is ignored.
  \<^item> The embedded interface of a \<^verbatim>\<open>statusWriter\<close> promotes the three methods of \<^verbatim>\<open>http.ResponseWriter\<close> and no
    \<^verbatim>\<open>Flush\<close>: a type assertion to \<^verbatim>\<open>http.Flusher\<close> fails on it (\<open>is_Flusher\<close>).
\<close>

section \<open>Definitions\<close>

subsection \<open>Headers\<close>

type_synonym header = "(string, string list) gomap"

definition is_token :: "char \<Rightarrow> bool" where
  "is_token c \<longleftrightarrow>
     (48 \<le> byte c \<and> byte c \<le> 57) \<or> (65 \<le> byte c \<and> byte c \<le> 90) \<or> (97 \<le> byte c \<and> byte c \<le> 122) \<or>
     byte c \<in> set [33, 35, 36, 37, 38, 39, 42, 43, 45, 46, 94, 95, 96, 124, 126 :: nat]"

definition lower :: "char \<Rightarrow> char" where
  "lower c = (if 65 \<le> byte c \<and> byte c \<le> 90 then char_of (byte c + 32) else c)"

fun canon :: "bool \<Rightarrow> string \<Rightarrow> string" where
  "canon up [] = []"
| "canon up (c # cs) = (if up then upper c else lower c) # canon (c = CHR ''-'') cs"

definition canonical_key :: "string \<Rightarrow> string" where
  "canonical_key s = (if list_all is_token s then canon True s else s)"

definition Header_Values :: "header \<Rightarrow> string \<Rightarrow> string list" where
  "Header_Values h k = (case map_of h (canonical_key k) of Some vs \<Rightarrow> vs | None \<Rightarrow> [])"

definition Header_Get :: "header \<Rightarrow> string \<Rightarrow> string" where
  "Header_Get h k = (case Header_Values h k of v # _ \<Rightarrow> v | [] \<Rightarrow> [])"

definition Header_Set :: "string \<Rightarrow> string \<Rightarrow> header \<Rightarrow> header" where
  "Header_Set k v h = AList.update (canonical_key k) [v] h"

definition Header_Add :: "string \<Rightarrow> string \<Rightarrow> header \<Rightarrow> header" where
  "Header_Add k v h = AList.update (canonical_key k) (Header_Values h k @ [v]) h"

definition Header_Del :: "string \<Rightarrow> header \<Rightarrow> header" where
  "Header_Del k h = AList.delete (canonical_key k) h"

subsection \<open>Requests and responses\<close>

datatype Body = Raw string | MaxBytesReader int Body

text \<open>The bytes that can be read, and whether reading ends with an error instead of the end of the body.\<close>

fun body_read :: "Body \<Rightarrow> string \<times> bool" where
  "body_read (Raw s) = (s, False)"
| "body_read (MaxBytesReader n b) =
     (case body_read b of (s, e) \<Rightarrow> if int (length s) \<le> n then (s, e) else (take (nat n) s, True))"

record Request =
  req_Method :: string
  req_Path :: string
  req_URLScheme :: string
  req_URLHost :: string
  req_Host :: string
  req_RemoteAddr :: string
  req_Header :: header
  req_Cookies :: "(string \<times> string) list"
  req_Query :: "(string, string list) gomap"
  req_Body :: "Body option"

text \<open>\<open>resp_info\<close>: the informational codes that precede the response; \<open>resp_BodyErr\<close>: the error with which
  reading the body ends, if it does not reach its end.\<close>

record Response =
  resp_info :: "int list"
  resp_StatusCode :: int
  resp_Header :: header
  resp_Body :: string
  resp_BodyErr :: "go_error option"

definition Cookie_Get :: "Request \<Rightarrow> string \<Rightarrow> string option" where
  "Cookie_Get r name = (if name = [] then None else map_of (req_Cookies r) name)"

definition Query_Get :: "Request \<Rightarrow> string \<Rightarrow> string" where
  "Query_Get r k = (case map_of (req_Query r) k of Some (v # _) \<Rightarrow> v | _ \<Rightarrow> [])"

subsection \<open>Response writers\<close>

record Wire =
  wr_flusher :: bool
  wr_header :: header
  wr_info :: "int list"
  wr_status :: "int option"
  wr_sent :: header
  wr_body :: "string list"

datatype ResponseWriter = Base Wire | StatusWriter ResponseWriter int bool

fun underlying :: "ResponseWriter \<Rightarrow> Wire" where
  "underlying (Base b) = b"
| "underlying (StatusWriter w status wroteHeader) = underlying w"

fun is_Flusher :: "ResponseWriter \<Rightarrow> bool" where
  "is_Flusher (Base b) = wr_flusher b"
| "is_Flusher (StatusWriter w status wroteHeader) = False"

fun RW_Header :: "(header \<Rightarrow> header) \<Rightarrow> ResponseWriter \<Rightarrow> ResponseWriter" where
  "RW_Header f (Base b) = Base (b\<lparr>wr_header := f (wr_header b)\<rparr>)"
| "RW_Header f (StatusWriter w status wroteHeader) = StatusWriter (RW_Header f w) status wroteHeader"

definition wire_WriteHeader :: "int \<Rightarrow> Wire \<Rightarrow> Wire" where
  "wire_WriteHeader code b =
     (if wr_status b \<noteq> None then b
      else if 100 \<le> code \<and> code \<le> 199 \<and> code \<noteq> 101 then b\<lparr>wr_info := wr_info b @ [code]\<rparr>
      else b\<lparr>wr_status := Some code, wr_sent := wr_header b\<rparr>)"

text \<open>The second equation is \<^verbatim>\<open>statusWriter.WriteHeader\<close> of \<^verbatim>\<open>internal/router/audit.go\<close>.\<close>

fun WriteHeader :: "int \<Rightarrow> ResponseWriter \<Rightarrow> ResponseWriter" where
  "WriteHeader code (Base b) = Base (wire_WriteHeader code b)"
| "WriteHeader code (StatusWriter w status wroteHeader) =
     (if \<not> wroteHeader then StatusWriter (WriteHeader code w) code True
      else StatusWriter (WriteHeader code w) status wroteHeader)"

fun RW_Write :: "string \<Rightarrow> ResponseWriter \<Rightarrow> ResponseWriter" where
  "RW_Write s (Base b) = (let b' = wire_WriteHeader 200 b in Base (b'\<lparr>wr_body := wr_body b' @ [s]\<rparr>))"
| "RW_Write s (StatusWriter w status wroteHeader) = StatusWriter (RW_Write s w) status wroteHeader"

fun RW_Flush :: "ResponseWriter \<Rightarrow> ResponseWriter" where
  "RW_Flush (Base b) = Base (wire_WriteHeader 200 b)"
| "RW_Flush (StatusWriter w status wroteHeader) = StatusWriter w status wroteHeader"

definition new_writer :: ResponseWriter where
  "new_writer = Base \<lparr>wr_flusher = True, wr_header = [], wr_info = [], wr_status = None, wr_sent = [], wr_body = []\<rparr>"

definition newline :: string where "newline = [CHR 10]"

definition http_Error :: "string \<Rightarrow> int \<Rightarrow> ResponseWriter \<Rightarrow> ResponseWriter" where
  "http_Error msg code w =
     RW_Write (msg @ newline) (WriteHeader code
       (RW_Header (Header_Set ''X-Content-Type-Options'' ''nosniff'' \<circ>
          Header_Set ''Content-Type'' ''text/plain; charset=utf-8'' \<circ> Header_Del ''Content-Length'') w))"

definition http_NotFound :: "ResponseWriter \<Rightarrow> ResponseWriter" where
  "http_NotFound w = http_Error ''404 page not found'' 404 w"

text \<open>\<^verbatim>\<open>http.SetCookie\<close> with the path \<^verbatim>\<open>/\<close>, \<^verbatim>\<open>HttpOnly\<close> and \<^verbatim>\<open>SameSite=Lax\<close>, as the router calls it.\<close>

definition cookie_value :: "string \<Rightarrow> string" where
  "cookie_value v =
     (let u = filter (\<lambda>c. 32 \<le> byte c \<and> byte c < (127 :: nat) \<and> c \<noteq> quote \<and> c \<noteq> CHR '';'' \<and> c \<noteq> backslash) v
      in if CHR '' '' \<in> set u \<or> CHR '','' \<in> set u then quote # u @ [quote] else u)"

definition SetCookie :: "string \<Rightarrow> string \<Rightarrow> ResponseWriter \<Rightarrow> ResponseWriter" where
  "SetCookie name v w =
     (if name \<noteq> [] \<and> list_all is_token name
      then RW_Header (Header_Add ''Set-Cookie''
             (name @ ''='' @ cookie_value v @ ''; Path=/; HttpOnly; SameSite=Lax'')) w
      else w)"

text \<open>\<^verbatim>\<open>json.NewEncoder(w).Encode(v)\<close>.\<close>

definition write_json :: "json \<Rightarrow> ResponseWriter \<Rightarrow> ResponseWriter" where
  "write_json v w = RW_Write (json_Marshal v @ newline) w"

text \<open>A handler acts on the response writer and on the server's state.\<close>

type_synonym 's handler = "Request \<Rightarrow> ResponseWriter \<times> 's \<Rightarrow> ResponseWriter \<times> 's"

section \<open>Lemmas\<close>

lemma Header_Get_Set [simp]: "Header_Get (Header_Set k v h) k = v"
  by (simp add: Header_Get_def Header_Values_def Header_Set_def update_conv)

lemma Header_Get_Set_other:
  "canonical_key k' \<noteq> canonical_key k \<Longrightarrow> Header_Get (Header_Set k v h) k' = Header_Get h k'"
  by (simp add: Header_Get_def Header_Values_def Header_Set_def update_conv)

lemma wire_status_set: "wr_status (wire_WriteHeader code b) =
    (if wr_status b \<noteq> None then wr_status b
     else if 100 \<le> code \<and> code \<le> 199 \<and> code \<noteq> 101 then None else Some code)"
  by (simp add: wire_WriteHeader_def)

lemma wire_body_set [simp]: "wr_body (wire_WriteHeader code b) = wr_body b"
  by (simp add: wire_WriteHeader_def)

lemma wire_flusher_set [simp]: "wr_flusher (wire_WriteHeader code b) = wr_flusher b"
  by (simp add: wire_WriteHeader_def)

lemma underlying_Header: "underlying (RW_Header f w) = (underlying w)\<lparr>wr_header := f (wr_header (underlying w))\<rparr>"
  by (induction w) simp_all

lemma underlying_WriteHeader: "underlying (WriteHeader code w) = wire_WriteHeader code (underlying w)"
  by (induction w) simp_all

lemma underlying_Write: "underlying (RW_Write s w) =
    (let b = wire_WriteHeader 200 (underlying w) in b\<lparr>wr_body := wr_body b @ [s]\<rparr>)"
  by (induction w) (simp_all add: Let_def)

lemmas underlying_ops = underlying_Header underlying_WriteHeader underlying_Write

lemma is_Flusher_ops [simp]:
  "is_Flusher (RW_Header f w) = is_Flusher w"
  "is_Flusher (WriteHeader code w) = is_Flusher w"
  "is_Flusher (RW_Write s w) = is_Flusher w"
  "is_Flusher (RW_Flush w) = is_Flusher w"
  by (induction w) (simp_all add: Let_def wire_WriteHeader_def)

lemma http_Error_status: "wr_status (underlying w) = None \<Longrightarrow> 200 \<le> code \<Longrightarrow>
    wr_status (underlying (http_Error msg code w)) = Some code"
  by (simp add: http_Error_def underlying_ops wire_status_set Let_def)

lemma http_Error_body: "wr_body (underlying (http_Error msg code w)) = wr_body (underlying w) @ [msg @ newline]"
  by (simp add: http_Error_def underlying_ops Let_def)

lemma body_read_limit: "0 \<le> n \<Longrightarrow> int (length (fst (body_read (MaxBytesReader n b)))) \<le> n"
  by (auto split: prod.splits)

end
