(* ===== verification/OpenCode_Client.thy ===== *)
theory OpenCode_Client
  imports Http_Model
begin

text \<open>
  The client of an OpenCode server, \<^verbatim>\<open>internal/opencode/client.go\<close>.

  The HTTP client is a parameter: \<open>hc_NewRequest\<close> is the error with which a request for a URL cannot be
  built, \<open>hc_Do\<close> sends a request, and \<open>hc_json_error\<close> is the error that the JSON decoder reports.
  \<open>hc_time_ok\<close> tells which JSON values decode as a \<^verbatim>\<open>time.Time\<close>.  A response carries the bytes of its body
  and the error, if any, with which reading it ends; that error is reported by a read that returns no
  bytes.  Tracing spans are left out.

  The scanner of an event stream yields lines of up to \<open>max_line\<close> bytes and stops with \<^verbatim>\<open>ErrTooLong\<close> at a
  longer one.
\<close>

section \<open>Definitions\<close>

record HttpClient =
  hc_NewRequest :: "string \<Rightarrow> go_error option"
  hc_Do :: "Request \<Rightarrow> go_error + Response"
  hc_json_error :: "string \<Rightarrow> go_error"
  hc_time_ok :: "json \<Rightarrow> bool"

record Client =
  baseURL :: string

definition NewClient :: "string \<Rightarrow> Client" where
  "NewClient base = \<lparr>baseURL = TrimRightChar (CHR ''/'') base\<rparr>"

record Session =
  sess_ID :: string

record SendResult =
  sr_Content :: string
  sr_TokensUsed :: int

definition post_request :: "string \<Rightarrow> header \<Rightarrow> string \<Rightarrow> Request" where
  "post_request url h body =
     \<lparr>req_Method = ''POST'', req_Path = url, req_URLScheme = [], req_URLHost = [], req_Host = [], req_RemoteAddr = [],
      req_Header = h, req_Cookies = [], req_Query = [], req_Body = Some (Raw body)\<rparr>"

subsection \<open>CreateSession\<close>

definition decode_session :: "HttpClient \<Rightarrow> string \<Rightarrow> Session option" where
  "decode_session H body =
     (case Decoder_Decode body of None \<Rightarrow> None
      | Some v \<Rightarrow> (case struct_members v of None \<Rightarrow> None
         | Some ms \<Rightarrow>
            if list_all (\<lambda>(k, x). key_matches ''createdAt'' k \<longrightarrow> hc_time_ok H x) ms
            then map_option (\<lambda>i. \<lparr>sess_ID = i\<rparr>) (struct_field get_string ''id'' [] ms)
            else None))"

definition CreateSession :: "HttpClient \<Rightarrow> Client \<Rightarrow> go_error + Session" where
  "CreateSession H c =
     (let url = baseURL c @ ''/sessions'' in
      case hc_NewRequest H url of
        Some err \<Rightarrow> Inl (Wrapf ''opencode: creating request: '' err)
      | None \<Rightarrow>
      (case hc_Do H (post_request url (Header_Set ''Content-Type'' ''application/json'' []) ''{}'') of
        Inl err \<Rightarrow> Inl (Wrapf ''opencode: creating session: '' err)
      | Inr resp \<Rightarrow>
        if resp_StatusCode resp \<noteq> 200 \<and> resp_StatusCode resp \<noteq> 201
        then Inl (Errorf (''opencode: create session status '' @ itoa (resp_StatusCode resp) @ '': '' @ resp_Body resp))
        else (case decode_session H (resp_Body resp) of
                None \<Rightarrow> Inl (Wrapf ''opencode: decoding session: '' (hc_json_error H (resp_Body resp)))
              | Some s \<Rightarrow> Inr s)))"

subsection \<open>The event stream\<close>

definition max_line :: nat where "max_line = 1048575"

definition drop_cr :: "string \<Rightarrow> string" where
  "drop_cr s = (if s \<noteq> [] \<and> last s = CHR 13 then butlast s else s)"

text \<open>The lines of a stream before the carriage returns are dropped; a last line that is empty is none.\<close>

definition raw_lines :: "string \<Rightarrow> string list" where
  "raw_lines s = (let ps = SplitChar (CHR 10) s in if last ps = [] then butlast ps else ps)"

definition scan_lines :: "string \<Rightarrow> string list" where
  "scan_lines s = map drop_cr (takeWhile (\<lambda>l. length l \<le> max_line) (raw_lines s))"

definition scan_too_long :: "string \<Rightarrow> bool" where
  "scan_too_long s \<longleftrightarrow> (\<exists>l \<in> set (raw_lines s). max_line < length l)"

text \<open>What a data payload adds to the result, and its token count.\<close>

definition string_member :: "(string \<times> json) list \<Rightarrow> string \<Rightarrow> string" where
  "string_member ms k = (case map_key ms k of Some (JStr s) \<Rightarrow> s | _ \<Rightarrow> [])"

definition total_tokens :: "(string \<times> json) list \<Rightarrow> int" where
  "total_tokens us = (case map_key us ''total_tokens'' of Some (JNum t) \<Rightarrow> f64_to_int64 t | _ \<Rightarrow> 0)"

definition processSSEData :: "string \<Rightarrow> string \<Rightarrow> string \<times> int" where
  "processSSEData data result =
     (case json_Unmarshal data of
        Some (JObj ms) \<Rightarrow>
          if numbers_in_range (JObj ms)
          then (result @ string_member ms ''content'' @ string_member ms ''text'',
                case map_key ms ''usage'' of Some (JObj us) \<Rightarrow> total_tokens us | _ \<Rightarrow> 0)
          else (result, 0)
      | _ \<Rightarrow> (result, 0))"

record StreamState =
  ss_result :: string
  ss_dataBuf :: string
  ss_tokens :: int
  ss_events :: nat
  ss_heartbeats :: "string list"

definition heartbeat_text :: "nat \<Rightarrow> string" where
  "heartbeat_text n = ''received '' @ itoa (int n) @ '' events''"

text \<open>The processing of one payload in the loop.\<close>

definition stream_event :: "bool \<Rightarrow> string \<Rightarrow> StreamState \<Rightarrow> StreamState" where
  "stream_event hb data st =
     (case processSSEData data (ss_result st) of (res, tokens) \<Rightarrow>
        let n = ss_events st + 1
        in st\<lparr>ss_result := res, ss_dataBuf := [], ss_tokens := wrap64 (ss_tokens st + tokens), ss_events := n,
              ss_heartbeats := (if hb \<and> n mod 10 = 0 then ss_heartbeats st @ [heartbeat_text n] else ss_heartbeats st)\<rparr>)"

text \<open>The loop over the lines; the second component is true when it ended at \<^verbatim>\<open>[DONE]\<close>.\<close>

fun sse_loop :: "bool \<Rightarrow> string list \<Rightarrow> StreamState \<Rightarrow> StreamState \<times> bool" where
  "sse_loop hb [] st = (st, False)"
| "sse_loop hb (line # lines) st =
     (if line = [] then
        (if ss_dataBuf st \<noteq> [] then
           (if ss_dataBuf st = ''[DONE]'' then (st\<lparr>ss_dataBuf := []\<rparr>, True)
            else sse_loop hb lines (stream_event hb (ss_dataBuf st) st))
         else sse_loop hb lines st)
      else if HasPrefix line ''data: '' then
        sse_loop hb lines (st\<lparr>ss_dataBuf :=
          (if ss_dataBuf st \<noteq> [] then ss_dataBuf st @ [CHR 10] else []) @ TrimPrefix line ''data: ''\<rparr>)
      else sse_loop hb lines st)"

definition ErrTooLong :: go_error where
  "ErrTooLong = Sentinel ''bufio.Scanner: token too long''"

text \<open>\<open>hb\<close>: whether a heartbeat function was given.  The result has the heartbeats that were reported.\<close>

definition stream_tail :: "StreamState \<Rightarrow> StreamState" where
  "stream_tail st =
     (if ss_dataBuf st \<noteq> [] \<and> ss_dataBuf st \<noteq> ''[DONE]'' then
        (case processSSEData (ss_dataBuf st) (ss_result st) of (res, tokens) \<Rightarrow>
           st\<lparr>ss_result := res, ss_tokens := wrap64 (ss_tokens st + tokens)\<rparr>)
      else st)"

definition empty_stream :: StreamState where
  "empty_stream = \<lparr>ss_result = [], ss_dataBuf = [], ss_tokens = 0, ss_events = 0, ss_heartbeats = []\<rparr>"

definition readSSEStream ::
  "bool \<Rightarrow> string \<Rightarrow> go_error option \<Rightarrow> header \<Rightarrow> (go_error + string \<times> int) \<times> string list" where
  "readSSEStream hb body body_err headers =
     (case sse_loop hb (scan_lines body) empty_stream of (st0, done) \<Rightarrow>
        let st = stream_tail st0;
            err = (if done then None else if scan_too_long body then Some ErrTooLong else body_err)
        in case err of
             Some e \<Rightarrow> (Inl (Wrapf ''opencode: reading stream: '' e), ss_heartbeats st)
           | None \<Rightarrow>
               (let v = Header_Get headers ''X-Usage-Total-Tokens'';
                    tokens = (if ss_tokens st = 0 \<and> v \<noteq> []
                              then (case atoi v of Some n \<Rightarrow> n | None \<Rightarrow> ss_tokens st) else ss_tokens st)
                in (Inr (ss_result st, tokens), ss_heartbeats st)))"

subsection \<open>SendMessage\<close>

definition message_json :: "string \<Rightarrow> json" where
  "message_json prompt = JObj [(''content'', JStr prompt), (''role'', JStr ''user'')]"

text \<open>The field \<^verbatim>\<open>Usage map[string]interface{}\<close>: a second object is merged into the map, \<^verbatim>\<open>null\<close> clears it.\<close>

definition usage_field :: "(string \<times> json) list \<Rightarrow> (string \<times> json) list option" where
  "usage_field ms =
     fold (\<lambda>(k, v) acc.
       if key_matches ''usage'' k then
         (case (acc, v) of
            (None, _) \<Rightarrow> None
          | (Some us, JObj vs) \<Rightarrow> if numbers_in_range v then Some (us @ vs) else None
          | (Some us, JNull) \<Rightarrow> Some []
          | _ \<Rightarrow> None)
       else acc) ms (Some [])"

definition decode_plain :: "string \<Rightarrow> (string \<times> int) option" where
  "decode_plain body =
     (case Decoder_Decode body of None \<Rightarrow> None
      | Some v \<Rightarrow> (case struct_members v of None \<Rightarrow> None
         | Some ms \<Rightarrow>
            (case (struct_field get_string ''content'' [] ms, usage_field ms) of
               (Some content, Some us) \<Rightarrow> Some (content, total_tokens us)
             | _ \<Rightarrow> None)))"

definition SendMessage :: "HttpClient \<Rightarrow> Client \<Rightarrow> string \<Rightarrow> string \<Rightarrow> bool \<Rightarrow> (go_error + SendResult) \<times> string list" where
  "SendMessage H c sessionID prompt hb =
     (let url = baseURL c @ ''/sessions/'' @ sessionID @ ''/messages'';
          body = json_Marshal (message_json prompt);
          h = Header_Set ''Accept'' ''text/event-stream'' (Header_Set ''Content-Type'' ''application/json'' [])
      in case hc_NewRequest H url of
           Some err \<Rightarrow> (Inl (Wrapf ''opencode: creating request: '' err), [])
         | None \<Rightarrow>
         (case hc_Do H (post_request url h body) of
            Inl err \<Rightarrow> (Inl (Wrapf ''opencode: sending message: '' err), [])
          | Inr resp \<Rightarrow>
            if resp_StatusCode resp \<noteq> 200
            then (Inl (Errorf (''opencode: send message status '' @ itoa (resp_StatusCode resp) @ '': '' @ resp_Body resp)), [])
            else if Contains (Header_Get (resp_Header resp) ''Content-Type'') ''text/event-stream''
            then (case readSSEStream hb (resp_Body resp) (resp_BodyErr resp) (resp_Header resp) of
                    (Inl err, hbs) \<Rightarrow> (Inl err, hbs)
                  | (Inr (content, tokens), hbs) \<Rightarrow> (Inr \<lparr>sr_Content = content, sr_TokensUsed = tokens\<rparr>, hbs))
            else (case decode_plain (resp_Body resp) of
                    None \<Rightarrow> (Inl (Wrapf ''opencode: decoding response: '' (hc_json_error H (resp_Body resp))), [])
                  | Some (content, tokens) \<Rightarrow> (Inr \<lparr>sr_Content = content, sr_TokensUsed = tokens\<rparr>, []))))"

text \<open>A well-formed stream: one payload per event, each on one line.\<close>

definition sse_frame :: "string \<Rightarrow> string" where
  "sse_frame d = ''data: '' @ d @ [CHR 10, CHR 10]"

definition payload_ok :: "string \<Rightarrow> bool" where
  "payload_ok d \<longleftrightarrow> d \<noteq> [] \<and> d \<noteq> ''[DONE]'' \<and> CHR 10 \<notin> set d \<and> last d \<noteq> CHR 13 \<and> length d + 6 \<le> max_line"

definition payload_text :: "string \<Rightarrow> string" where
  "payload_text d = fst (processSSEData d [])"

definition payload_tokens :: "string \<Rightarrow> int" where
  "payload_tokens d = snd (processSSEData d [])"

section \<open>Lemmas\<close>

subsection \<open>Lines\<close>

lemma raw_lines_Cons: "CHR 10 \<notin> set l \<Longrightarrow> raw_lines (l @ CHR 10 # s) = l # raw_lines s"
  by (simp add: raw_lines_def Let_def SplitChar_append)

lemma scan_lines_Cons:
  "CHR 10 \<notin> set l \<Longrightarrow> length l \<le> max_line \<Longrightarrow> scan_lines (l @ CHR 10 # s) = drop_cr l # scan_lines s"
  by (simp add: scan_lines_def raw_lines_Cons)

lemma scan_lines_frame:
  assumes "CHR 10 \<notin> set d" "last d \<noteq> CHR 13" "length d + 6 \<le> max_line" "d \<noteq> []"
  shows "scan_lines (sse_frame d @ s) = (''data: '' @ d) # [] # scan_lines s"
proof -
  have "scan_lines ((''data: '' @ d) @ CHR 10 # [] @ CHR 10 # s) = drop_cr (''data: '' @ d) # drop_cr [] # scan_lines s"
    using assms by (subst scan_lines_Cons) (auto simp: scan_lines_Cons [of "[]", simplified])
  moreover have "drop_cr (''data: '' @ d) = ''data: '' @ d" "drop_cr [] = []"
    using assms by (simp_all add: drop_cr_def)
  ultimately show ?thesis by (simp add: sse_frame_def)
qed

subsection \<open>Payloads\<close>

lemma processSSEData_append: "processSSEData d r = (r @ payload_text d, payload_tokens d)"
  by (simp add: processSSEData_def payload_text_def payload_tokens_def split: option.split json.split)

lemma stream_event_simps:
  "ss_result (stream_event hb d st) = ss_result st @ payload_text d"
  "ss_dataBuf (stream_event hb d st) = []"
  "ss_tokens (stream_event hb d st) = wrap64 (ss_tokens st + payload_tokens d)"
  "ss_events (stream_event hb d st) = ss_events st + 1"
  "ss_heartbeats (stream_event hb d st) = ss_heartbeats st @
     (if hb \<and> (ss_events st + 1) mod 10 = 0 then [heartbeat_text (ss_events st + 1)] else [])"
  by (simp_all add: stream_event_def processSSEData_append Let_def)

lemma sse_loop_frame:
  assumes "d \<noteq> []" "d \<noteq> ''[DONE]''" "ss_dataBuf st = []"
  shows "sse_loop hb ((''data: '' @ d) # [] # lines) st = sse_loop hb lines (stream_event hb d st)"
proof -
  have "TrimPrefix (CHR ''d'' # CHR ''a'' # CHR ''t'' # CHR ''a'' # CHR '':'' # CHR '' '' # d) ''data: '' = d"
    using TrimPrefix_append [of "''data: ''" d] by simp
  moreover have "HasPrefix (CHR ''d'' # CHR ''a'' # CHR ''t'' # CHR ''a'' # CHR '':'' # CHR '' '' # d) ''data: ''"
    using HasPrefix_append [of "''data: ''" d] by simp
  moreover have "stream_event hb d (st\<lparr>ss_dataBuf := d\<rparr>) = stream_event hb d st"
    by (simp add: stream_event_def Let_def split: prod.split)
  ultimately show ?thesis using assms by simp
qed

lemma sse_loop_done: "ss_dataBuf st = [] \<Longrightarrow> sse_loop hb (''data: [DONE]'' # [] # lines) st = (st, True)"
proof -
  assume b: "ss_dataBuf st = []"
  have "st\<lparr>ss_dataBuf := ''[DONE]''\<rparr>\<lparr>ss_dataBuf := []\<rparr> = st" using b by (cases st) simp
  then show ?thesis using b by (simp add: HasPrefix_def TrimPrefix_def)
qed

definition stream_of :: "string list \<Rightarrow> string" where
  "stream_of ds = concat (map sse_frame ds)"

lemma sse_loop_stream:
  "\<forall>d \<in> set ds. payload_ok d \<Longrightarrow> ss_dataBuf st = [] \<Longrightarrow>
     sse_loop hb (scan_lines (stream_of ds @ sse_frame ''[DONE]'' @ rest)) st =
       (fold (stream_event hb) ds st, True)"
proof (induction ds arbitrary: st)
  case Nil
  have "scan_lines (sse_frame ''[DONE]'' @ rest) = (''data: '' @ ''[DONE]'') # [] # scan_lines rest"
    by (rule scan_lines_frame) (simp_all add: max_line_def)
  then show ?case using Nil.prems(2) sse_loop_done [of st hb "scan_lines rest"] by (simp add: stream_of_def)
next
  case (Cons d ds)
  then have d: "payload_ok d" by simp
  let ?r = "stream_of ds @ sse_frame ''[DONE]'' @ rest"
  have "scan_lines (sse_frame d @ ?r) = (''data: '' @ d) # [] # scan_lines ?r"
    using d by (intro scan_lines_frame) (simp_all add: payload_ok_def)
  moreover have "sse_loop hb ((''data: '' @ d) # [] # scan_lines ?r) st = sse_loop hb (scan_lines ?r) (stream_event hb d st)"
    using d Cons.prems(2) by (intro sse_loop_frame) (simp_all add: payload_ok_def)
  ultimately show ?case
    using Cons.IH [of "stream_event hb d st"] Cons.prems(1) by (simp add: stream_of_def stream_event_simps)
qed

lemma wrap64_sum: "wrap64 (wrap64 a + b) = wrap64 (a + b)"
  by (rule wrap64_add_left)

lemma fold_stream_event:
  "ss_result (fold (stream_event hb) ds st) = ss_result st @ concat (map payload_text ds) \<and>
   ss_dataBuf (fold (stream_event hb) ds st) = (if ds = [] then ss_dataBuf st else []) \<and>
   wrap64 (ss_tokens (fold (stream_event hb) ds st)) = wrap64 (ss_tokens st + sum_list (map payload_tokens ds)) \<and>
   ss_events (fold (stream_event hb) ds st) = ss_events st + length ds \<and>
   ss_heartbeats (fold (stream_event hb) ds st) = ss_heartbeats st @
     (if hb then map heartbeat_text (filter (\<lambda>n. n mod 10 = 0) [ss_events st + 1..<ss_events st + 1 + length ds]) else [])"
proof (induction ds arbitrary: st)
  case (Cons d ds)
  note IH = Cons.IH [of "stream_event hb d st"]
  have "wrap64 (wrap64 (ss_tokens st + payload_tokens d) + sum_list (map payload_tokens ds)) =
      wrap64 (ss_tokens st + sum_list (map payload_tokens (d # ds)))"
    by (simp add: wrap64_sum add.assoc)
  moreover have "[ss_events st + 1..<ss_events st + 1 + length (d # ds)] =
      (ss_events st + 1) # [ss_events st + 1 + 1..<ss_events st + 1 + 1 + length ds]"
    by (subst upt_conv_Cons) simp_all
  ultimately show ?case using IH by (auto simp: stream_event_simps)
qed simp

lemma fold_stream_tokens_range:
  "in_int64 (ss_tokens st) \<Longrightarrow> in_int64 (ss_tokens (fold (stream_event hb) ds st))"
  by (induction ds arbitrary: st) (simp_all add: stream_event_simps)

text \<open>A whole stream.\<close>

lemma readSSEStream_frames:
  assumes "\<forall>d \<in> set ds. payload_ok d"
  shows "readSSEStream hb (stream_of ds @ sse_frame ''[DONE]'' @ rest) body_err headers =
    (Inr (concat (map payload_text ds),
       (let total = wrap64 (sum_list (map payload_tokens ds)); v = Header_Get headers ''X-Usage-Total-Tokens''
        in if total = 0 then (case atoi v of Some n \<Rightarrow> n | None \<Rightarrow> 0) else total)),
     if hb then map heartbeat_text (filter (\<lambda>n. n mod 10 = 0) [1..<Suc (length ds)]) else [])"
proof -
  let ?st = "fold (stream_event hb) ds empty_stream"
  have loop: "sse_loop hb (scan_lines (stream_of ds @ sse_frame ''[DONE]'' @ rest)) empty_stream = (?st, True)"
    using assms by (intro sse_loop_stream) (simp_all add: empty_stream_def)
  have f: "ss_result ?st = concat (map payload_text ds)" "ss_dataBuf ?st = []"
    "wrap64 (ss_tokens ?st) = wrap64 (sum_list (map payload_tokens ds))"
    "ss_heartbeats ?st = (if hb then map heartbeat_text (filter (\<lambda>n. n mod 10 = 0) [1..<Suc (length ds)]) else [])"
    using fold_stream_event [of hb ds empty_stream] by (simp_all add: empty_stream_def)
  have "in_int64 (ss_tokens ?st)" by (rule fold_stream_tokens_range) (simp add: empty_stream_def in_int64_def)
  with f(3) have tok: "ss_tokens ?st = wrap64 (sum_list (map payload_tokens ds))" by simp
  have tail: "stream_tail ?st = ?st" by (simp add: stream_tail_def f(2))
  show ?thesis
    using f(1,4) by (auto simp: readSSEStream_def loop tail tok Let_def split: option.split)
qed

section \<open>Properties\<close>

text \<open>Reading a well-formed event stream that ends with the \<^verbatim>\<open>[DONE]\<close> event yields exactly the text of all
  payloads in order and the sum of their token counts modulo 64 bits, or, when that sum is zero, the count
  of the \<^verbatim>\<open>X-Usage-Total-Tokens\<close> header if it is a number; a heartbeat is reported at every tenth event; what
  follows \<^verbatim>\<open>[DONE]\<close>, errors included, is ignored.\<close>

theorem readSSEStream_exact:
  assumes "\<forall>d \<in> set ds. payload_ok d"
  shows "readSSEStream hb (stream_of ds @ sse_frame ''[DONE]'' @ rest) body_err headers =
    (Inr (concat (map payload_text ds),
       (let total = wrap64 (sum_list (map payload_tokens ds)); v = Header_Get headers ''X-Usage-Total-Tokens''
        in if total = 0 then (case atoi v of Some n \<Rightarrow> n | None \<Rightarrow> 0) else total)),
     if hb then map heartbeat_text (filter (\<lambda>n. n mod 10 = 0) [1..<Suc (length ds)]) else [])"
  using assms by (rule readSSEStream_frames)

theorem readSSEStream_exact_witness:
  "payload_ok (json_Marshal (JObj [(''content'', JStr ''hi'')])) \<and>
   readSSEStream True (stream_of [json_Marshal (JObj [(''content'', JStr ''hi'')])] @ sse_frame ''[DONE]'' @ ''junk'')
     None [(''X-Usage-Total-Tokens'', [''7''])] = (Inr (''hi'', 7), [])"
proof -
  let ?d = "json_Marshal (JObj [(''content'', JStr ''hi'')])"
  have d: "?d = CHR ''{'' # quote # ''content'' @ quote # CHR '':'' # quote # ''hi'' @ quote # ''}''" by code_simp
  have ok: "payload_ok ?d" unfolding d by (simp add: payload_ok_def max_line_def)
  have vals: "payload_text ?d = ''hi''" "payload_tokens ?d = 0"
    "Header_Get [(''X-Usage-Total-Tokens'', [''7''])] ''X-Usage-Total-Tokens'' = ''7''" "atoi ''7'' = Some 7" "wrap64 0 = 0"
    by code_simp+
  have "\<forall>d \<in> set [?d]. payload_ok d" using ok by simp
  from readSSEStream_exact [OF this, of True "''junk''" None "[(''X-Usage-Total-Tokens'', [''7''])]"] ok vals
  show ?thesis by (simp del: json_Marshal.simps)
qed

end
