(* ===== verification/Schema_Validator.thy ===== *)
theory Schema_Validator
  imports Go_Json
begin

text \<open>
  Structured output, \<^verbatim>\<open>internal/schema/validator.go\<close>: finding a JSON document in the text of a language
  model, checking it against a JSON Schema and phrasing the request for a correction.

  The JSON Schema compiler is third-party code: \<open>SchemaLib\<close> holds what the code calls of it, and the
  error that \<^verbatim>\<open>encoding/json\<close> reports for a bad document.
\<close>

section \<open>Definitions\<close>

subsection \<open>Validate\<close>

record SchemaLib =
  sl_AddResource :: "json \<Rightarrow> go_error option"
  sl_Compile :: "json \<Rightarrow> go_error + (json \<Rightarrow> go_error option)"
  sl_json_error :: "string \<Rightarrow> go_error"

text \<open>\<^verbatim>\<open>json.Unmarshal\<close> into an \<^verbatim>\<open>interface{}\<close>.\<close>

definition unmarshal_any :: "SchemaLib \<Rightarrow> string \<Rightarrow> go_error + json" where
  "unmarshal_any L s =
     (case json_Unmarshal s of
        Some v \<Rightarrow> if numbers_in_range v then Inr v else Inl (sl_json_error L s)
      | None \<Rightarrow> Inl (sl_json_error L s))"

definition Validate :: "SchemaLib \<Rightarrow> string \<Rightarrow> string \<Rightarrow> go_error option" where
  "Validate L data jsonSchema =
     (case unmarshal_any L jsonSchema of
        Inl err \<Rightarrow> Some (Wrapf ''schema: decoding schema JSON: '' err)
      | Inr schemaDoc \<Rightarrow>
     (case sl_AddResource L schemaDoc of
        Some err \<Rightarrow> Some (Wrapf ''schema: adding resource: '' err)
      | None \<Rightarrow>
     (case sl_Compile L schemaDoc of
        Inl err \<Rightarrow> Some (Wrapf ''schema: compiling schema: '' err)
      | Inr sch \<Rightarrow>
     (case unmarshal_any L data of
        Inl err \<Rightarrow> Some (Wrapf ''schema: decoding JSON data: '' err)
      | Inr decoded \<Rightarrow>
     (case sch decoded of
        Some err \<Rightarrow> Some (Wrapf ''schema: validation failed: '' err)
      | None \<Rightarrow> None)))))"

subsection \<open>ExtractJSON\<close>

text \<open>The walk from the first opening character.  \<open>acc\<close> is \<^verbatim>\<open>raw[start:i]\<close> and the last argument \<^verbatim>\<open>raw[i:]\<close>.\<close>

fun walk :: "char \<Rightarrow> char \<Rightarrow> string \<Rightarrow> int \<Rightarrow> bool \<Rightarrow> bool \<Rightarrow> string \<Rightarrow> string option" where
  "walk op cl acc depth inString escaped [] = None"
| "walk op cl acc depth inString escaped (ch # rest) =
     (let candidate = acc @ [ch] in
      if escaped then walk op cl candidate depth inString False rest
      else if ch = backslash \<and> inString then walk op cl candidate depth inString True rest
      else if ch = quote then walk op cl candidate depth (\<not> inString) False rest
      else if inString then walk op cl candidate depth inString False rest
      else if ch = op then walk op cl candidate (depth + 1) inString False rest
      else if ch = cl then
        (if depth - 1 = 0 \<and> json_Valid candidate
         then Some (case json_Compact candidate of Some buf \<Rightarrow> buf | None \<Rightarrow> candidate)
         else walk op cl candidate (depth - 1) inString False rest)
      else walk op cl candidate depth inString False rest)"

definition try_pattern :: "char \<Rightarrow> char \<Rightarrow> string \<Rightarrow> string option" where
  "try_pattern op cl raw =
     (case IndexByte raw op of None \<Rightarrow> None | Some start \<Rightarrow> walk op cl [] 0 False False (drop start raw))"

text \<open>The leftmost match of \<^verbatim>\<open>(?s)(\{.*\}|\[.*\])\<close>, greedy, empty when there is none.\<close>

definition upto_last :: "char \<Rightarrow> string \<Rightarrow> string" where
  "upto_last x s = rev (dropWhile (\<lambda>c. c \<noteq> x) (rev s))"

fun regex_find :: "string \<Rightarrow> string" where
  "regex_find [] = []"
| "regex_find (c # cs) =
     (if c = CHR ''{'' \<and> CHR ''}'' \<in> set cs then c # upto_last (CHR ''}'') cs
      else if c = CHR ''['' \<and> CHR '']'' \<in> set cs then c # upto_last (CHR '']'') cs
      else regex_find cs)"

definition ExtractJSON :: "string \<Rightarrow> go_error + string" where
  "ExtractJSON raw =
     (case try_pattern (CHR ''{'') (CHR ''}'') raw of Some s \<Rightarrow> Inr s
      | None \<Rightarrow>
     (case try_pattern (CHR ''['') (CHR '']'') raw of Some s \<Rightarrow> Inr s
      | None \<Rightarrow>
        if regex_find raw \<noteq> [] \<and> json_Valid (regex_find raw) then Inr (regex_find raw)
        else Inl (Errorf ''schema: no valid JSON found in input'')))"

subsection \<open>Feedback\<close>

record ValidationResult =
  vr_Valid :: bool
  vr_Output :: string
  vr_Feedback :: string
  vr_Attempt :: int

definition ValidateWithFeedback :: "SchemaLib \<Rightarrow> string \<Rightarrow> string \<Rightarrow> ValidationResult" where
  "ValidateWithFeedback L data jsonSchema =
     (case ExtractJSON data of
        Inl err \<Rightarrow>
          \<lparr>vr_Valid = False, vr_Output = data,
           vr_Feedback = ''Could not find valid JSON in the output. Error: '' @ err_text err @
             ''. Please respond with only valid JSON matching the schema.'', vr_Attempt = 0\<rparr>
      | Inr extracted \<Rightarrow>
          (case Validate L extracted jsonSchema of
             Some err \<Rightarrow>
               \<lparr>vr_Valid = False, vr_Output = extracted,
                vr_Feedback = ''JSON was found but does not match the required schema. Error: '' @
                  err_text err @ ''. Please fix the JSON to match the schema.'', vr_Attempt = 0\<rparr>
           | None \<Rightarrow> \<lparr>vr_Valid = True, vr_Output = extracted, vr_Feedback = [], vr_Attempt = 0\<rparr>))"

definition nl :: string where "nl = [CHR 10]"

definition BuildRetryPrompt :: "string \<Rightarrow> string \<Rightarrow> string \<Rightarrow> string \<Rightarrow> string" where
  "BuildRetryPrompt originalPrompt failedOutput feedback sch =
     ''Your previous response did not produce valid structured output.'' @ nl @ nl @
     ''Original request: '' @ originalPrompt @ nl @ nl @
     ''Your previous output:'' @ nl @ failedOutput @ nl @ nl @
     ''Validation error: '' @ feedback @ nl @ nl @
     ''Required JSON Schema:'' @ nl @ sch @ nl @ nl @
     ''Please respond with ONLY valid JSON that matches the schema above. Do not include any explanation or markdown formatting.''"

section \<open>Lemmas\<close>

subsection \<open>The walk over a document\<close>

definition brackets :: "char \<Rightarrow> char \<Rightarrow> bool" where
  "brackets op cl \<longleftrightarrow> (op, cl) = (CHR ''{'', CHR ''}'') \<or> (op, cl) = (CHR ''['', CHR '']'')"

text \<open>\<open>level op cl u\<close>: walking over \<open>u\<close> below an open bracket returns to the same depth, outside strings,
  without proposing a candidate.\<close>

definition level :: "char \<Rightarrow> char \<Rightarrow> string \<Rightarrow> bool" where
  "level op cl u \<longleftrightarrow>
     (\<forall>acc d x. 1 \<le> d \<longrightarrow> walk op cl acc d False False (u @ x) = walk op cl (acc @ u) d False False x)"

lemma level_append: "level op cl u \<Longrightarrow> level op cl v \<Longrightarrow> level op cl (u @ v)"
  by (simp add: level_def)

lemma walk_plain:
  "\<forall>c \<in> set t. c \<noteq> quote \<and> c \<noteq> op \<and> c \<noteq> cl \<Longrightarrow>
     walk op cl acc d False False (t @ x) = walk op cl (acc @ t) d False False x"
  by (induction t arbitrary: acc) (simp_all add: Let_def)

lemma level_plain: "\<forall>c \<in> set t. c \<noteq> quote \<and> c \<noteq> op \<and> c \<noteq> cl \<Longrightarrow> level op cl t"
  by (simp add: level_def walk_plain)

lemma walk_seg: "str_seg b \<Longrightarrow> walk op cl acc d True False (b @ x) = walk op cl (acc @ b) d True False x"
proof (induction b arbitrary: acc rule: str_seg.induct)
  case (2 c cs)
  then have q: "c \<noteq> quote" by auto
  show ?case
  proof (cases "c = backslash")
    case True
    with "2.prems" q obtain e r where cs: "cs = e # r" "str_seg r" by (auto split: list.splits)
    with "2.IH"(1) [OF q True cs(1) cs(2), of "acc @ [c, e]"] True show ?thesis by (simp add: Let_def)
  next
    case False
    with "2.prems" q have "str_seg cs" by simp
    with "2.IH"(2) [OF q False this, of "acc @ [c]"] False q show ?thesis by (simp add: Let_def)
  qed
qed simp

lemma level_str: "str_seg b \<Longrightarrow> level op cl (quote # b @ [quote])"
  by (simp add: level_def Let_def walk_seg)

lemma level_wrap:
  assumes "brackets op cl" "brackets x y" "level op cl u"
  shows "level op cl (x # u @ [y])"
proof -
  have "walk op cl acc d False False ((x # u @ [y]) @ z) = walk op cl (acc @ x # u @ [y]) d False False z"
    if "1 \<le> d" for acc d z
  proof (cases "x = op")
    case True
    then have y: "y = cl" "op \<noteq> quote" "cl \<noteq> quote" "op \<noteq> cl" using assms(1,2) by (auto simp: brackets_def)
    have "walk op cl (acc @ [x]) (d + 1) False False (u @ y # z) = walk op cl (acc @ [x] @ u) (d + 1) False False (y # z)"
      using assms(3) that by (simp add: level_def)
    with True y that show ?thesis by (simp add: Let_def)
  next
    case False
    then have y: "y \<noteq> cl" "y \<noteq> op" "x \<noteq> cl" "x \<noteq> quote" "y \<noteq> quote" using assms(1,2) by (auto simp: brackets_def)
    have "walk op cl (acc @ [x]) d False False (u @ y # z) = walk op cl (acc @ [x] @ u) d False False (y # z)"
      using assms(3) that by (simp add: level_def)
    with False y show ?thesis by (simp add: Let_def)
  qed
  then show ?thesis unfolding level_def by blast
qed

lemma level_char: "brackets op cl \<Longrightarrow> c \<noteq> quote \<Longrightarrow> c \<notin> {CHR ''{'', CHR ''}'', CHR ''['', CHR '']''} \<Longrightarrow> level op cl [c]"
  by (rule level_plain) (auto simp: brackets_def)

lemma skip_ws_split:
  assumes "brackets op cl" "skip_ws s = cs"
  shows "\<exists>w. s = w @ cs \<and> level op cl w"
proof -
  have "s = takeWhile is_ws s @ cs" using assms(2) takeWhile_dropWhile_id [of is_ws s] by (simp add: skip_ws_def)
  moreover have "level op cl (takeWhile is_ws s)"
    using assms(1) by (intro level_plain) (auto simp: brackets_def is_ws_def dest: set_takeWhileD)
  ultimately show ?thesis by blast
qed

lemma level_parse_str:
  "parse_str cs = Some (t, r) \<Longrightarrow> \<exists>u. quote # cs = u @ r \<and> level op cl u"
  using parse_str_seg [of cs t r] level_str by force

lemma level_value:
  assumes "brackets op cl" and p: "parse_value (Suc n) s = Some (v, r)"
    and M: "\<forall>s x r. parse_members n s = Some (x, r) \<longrightarrow> (\<exists>u. s = u @ CHR ''}'' # r \<and> level op cl u)"
    and E: "\<forall>s x r. parse_elems n s = Some (x, r) \<longrightarrow> (\<exists>u. s = u @ CHR '']'' # r \<and> level op cl u)"
  shows "\<exists>w u. s = w @ u @ r \<and> skip_ws s = u @ r \<and> level op cl w \<and> level op cl u \<and>
    (\<exists>i. level op cl i \<and>
       (HasPrefix u ''{'' \<longrightarrow> u = CHR ''{'' # i @ ''}'') \<and> (HasPrefix u ''['' \<longrightarrow> u = CHR ''['' # i @ '']''))"
proof -
  obtain w where w: "s = w @ skip_ws s" "level op cl w" using skip_ws_split [OF assms(1)] by blast
  have wrapped: ?thesis if "skip_ws s = x # i @ y # r" "(x, y) = (CHR ''{'', CHR ''}'') \<or> (x, y) = (CHR ''['', CHR '']'')"
    "level op cl i" for x y i
    using w that level_wrap [OF assms(1), of x y i]
    by (intro exI [of _ w] exI [of _ "x # i @ [y]"]) (auto simp: brackets_def HasPrefix_def intro: exI [of _ i])
  have plain: ?thesis if "skip_ws s = u @ r" "level op cl u" "\<not> HasPrefix u ''{''" "\<not> HasPrefix u ''[''" for u
    using w that by metis
  show ?thesis using p
  proof (cases rule: parse_value_cases)
    case (obj0 cs)
    then obtain i where "cs = i @ CHR ''}'' # r" "level op cl i" using skip_ws_split [OF assms(1)] by blast
    then show ?thesis using wrapped obj0 by simp
  next
    case (obj cs d ds ms)
    then show ?thesis using M [rule_format, of cs] wrapped by fastforce
  next
    case (arr0 cs)
    then obtain i where "cs = i @ CHR '']'' # r" "level op cl i" using skip_ws_split [OF assms(1)] by blast
    then show ?thesis using wrapped arr0 by simp
  next
    case (arr cs d ds es)
    then show ?thesis using E [rule_format, of cs] wrapped by fastforce
  next
    case (str cs t)
    then obtain u where "quote # cs = u @ r" "level op cl u" using level_parse_str by blast
    moreover from this have "u \<noteq> []" using parse_str_length [OF str(2)] by auto
    ultimately show ?thesis using plain [of u] str(1) by (cases u) (auto simp: HasPrefix_def)
  next
    case (lit t)
    then have "level op cl t" using assms(1) by (intro level_plain) (auto simp: brackets_def)
    with lit plain [of t] show ?thesis by (auto simp: HasPrefix_def)
  next
    case (num t)
    with parse_num_exact [OF num(2)] obtain c cs where t: "t = c # cs" "num_char c" "\<forall>c \<in> set t. num_char c" by blast
    then have "level op cl t" using assms(1)
      by (intro level_plain) (auto simp: brackets_def dest: num_char_plain)
    then show ?thesis using plain [of t] num t(1) num_char_plain [OF t(2)] by (auto simp: HasPrefix_def)
  qed
qed

lemma level_parse:
  assumes "brackets op cl"
  shows "(\<forall>s v r. parse_value n s = Some (v, r) \<longrightarrow> (\<exists>u. s = u @ r \<and> level op cl u)) \<and>
    (\<forall>s x r. parse_members n s = Some (x, r) \<longrightarrow> (\<exists>u. s = u @ CHR ''}'' # r \<and> level op cl u)) \<and>
    (\<forall>s x r. parse_elems n s = Some (x, r) \<longrightarrow> (\<exists>u. s = u @ CHR '']'' # r \<and> level op cl u))"
proof (induction n)
  case 0
  show ?case by (simp add: parse_value.simps parse_members.simps parse_elems.simps)
next
  case (Suc n)
  have V: "\<And>s v r. parse_value n s = Some (v, r) \<Longrightarrow> \<exists>u. s = u @ r \<and> level op cl u"
    by (rule Suc.IH [THEN conjunct1, rule_format])
  have M: "\<And>s x r. parse_members n s = Some (x, r) \<Longrightarrow> \<exists>u. s = u @ CHR ''}'' # r \<and> level op cl u"
    by (rule Suc.IH [THEN conjunct2, THEN conjunct1, rule_format])
  have E: "\<And>s x r. parse_elems n s = Some (x, r) \<Longrightarrow> \<exists>u. s = u @ CHR '']'' # r \<and> level op cl u"
    by (rule Suc.IH [THEN conjunct2, THEN conjunct2, rule_format])
  note ws = skip_ws_split [OF assms] and chars = level_char [OF assms]
  have V': "\<exists>u. s = u @ r \<and> level op cl u" if "parse_value (Suc n) s = Some (v, r)" for s v r
    using level_value [OF assms that Suc.IH [THEN conjunct2, THEN conjunct1] Suc.IH [THEN conjunct2, THEN conjunct2]]
  proof (elim exE conjE)
    fix w u
    assume "s = w @ u @ r" "level op cl w" "level op cl u"
    then show ?thesis using level_append [of op cl w u] by (intro exI [of _ "w @ u"]) simp
  qed
  have M': "\<exists>u. s = u @ CHR ''}'' # r \<and> level op cl u" if "parse_members (Suc n) s = Some (x, r)" for s x r
    using that
  proof (cases rule: parse_members_cases)
    case (1 cs k r1 r2 v r3 e r4)
    obtain w0 where w0: "s = w0 @ quote # cs" "level op cl w0" using ws [OF 1(1)] by blast
    obtain b where b: "quote # cs = b @ r1" "level op cl b" using level_parse_str [OF 1(2)] by blast
    obtain w1 where w1: "r1 = w1 @ CHR '':'' # r2" "level op cl w1" using ws [OF 1(3)] by blast
    obtain a where a: "r2 = a @ r3" "level op cl a" using V [OF 1(4)] by blast
    obtain w3 where w3: "r3 = w3 @ e # r4" "level op cl w3" using ws [OF 1(5)] by blast
    have front: "s = (w0 @ b @ w1 @ '':'' @ a @ w3) @ e # r4" using w0 b w1 a w3 by simp
    have lv: "level op cl (w0 @ b @ w1 @ '':'' @ a @ w3)"
      using w0 b w1 a w3 chars [of "CHR '':''"] by (intro level_append) simp_all
    from 1(6) show ?thesis
    proof
      assume "e = CHR ''}'' \<and> x = [(k, v)] \<and> r = r4"
      then show ?thesis using front lv by blast
    next
      assume e: "e = CHR '','' \<and> (\<exists>ms'. parse_members n r4 = Some (ms', r) \<and> x = (k, v) # ms')"
      then obtain u where u: "r4 = u @ CHR ''}'' # r" "level op cl u" using M by blast
      let ?f = "w0 @ b @ w1 @ '':'' @ a @ w3"
      have c: "level op cl '',''" using chars [of "CHR '',''"] by simp
      have "level op cl (?f @ '','' @ u)" by (rule level_append [OF lv level_append [OF c u(2)]])
      moreover have "s = (?f @ '','' @ u) @ CHR ''}'' # r" using front u(1) e by simp
      ultimately show ?thesis by blast
    qed
  qed
  have E': "\<exists>u. s = u @ CHR '']'' # r \<and> level op cl u" if "parse_elems (Suc n) s = Some (x, r)" for s x r
    using that
  proof (cases rule: parse_elems_cases)
    case (1 v r1 d r2)
    obtain a where a: "s = a @ r1" "level op cl a" using V [OF 1(1)] by blast
    obtain w where w: "r1 = w @ d # r2" "level op cl w" using ws [OF 1(2)] by blast
    have lv: "level op cl (a @ w)" using a w by (intro level_append)
    from 1(3) show ?thesis
    proof
      assume "d = CHR '']'' \<and> x = [v] \<and> r = r2"
      then show ?thesis using a w lv by (intro exI [of _ "a @ w"]) simp
    next
      assume d: "d = CHR '','' \<and> (\<exists>es'. parse_elems n r2 = Some (es', r) \<and> x = v # es')"
      then obtain u where u: "r2 = u @ CHR '']'' # r" "level op cl u" using E by blast
      have c: "level op cl '',''" using chars [of "CHR '',''"] by simp
      have "level op cl ((a @ w) @ '','' @ u)" by (rule level_append [OF lv level_append [OF c u(2)]])
      with a w u d show ?thesis by (intro exI [of _ "(a @ w) @ '','' @ u"]) simp
    qed
  qed
  show ?case by (intro conjI allI impI; rule V' M' E', assumption)
qed

text \<open>A document that starts with the opening bracket is the first candidate that the walk accepts.\<close>

lemma walk_document:
  assumes "brackets op cl" "json_Valid doc" "doc = op # doc'" "last doc = cl"
  shows "walk op cl [] 0 False False (doc @ post) = Some (compact_out doc)"
proof -
  from assms(2) obtain v r where p: "json_parse doc = Some (v, r)" "skip_ws r = []"
    by (auto simp: json_Valid_def json_Unmarshal_def split: option.splits if_splits)
  have "\<not> is_ws cl" "op \<noteq> quote" "cl \<noteq> quote" "op \<noteq> cl" "\<not> is_ws op" using assms(1) by (auto simp: brackets_def is_ws_def)
  from p(1) obtain n where n: "parse_value n doc = Some (v, r)" by (auto simp: json_parse_iff)
  then obtain m where m: "n = Suc m" by (cases n) (auto simp: parse_value.simps)
  have skip: "skip_ws doc = doc" using assms(3) \<open>\<not> is_ws op\<close> by (simp add: skip_ws_nonspace)
  from level_value [OF assms(1) n [unfolded m] level_parse [OF assms(1), THEN conjunct2, THEN conjunct1]
      level_parse [OF assms(1), THEN conjunct2, THEN conjunct2]] obtain u i where
    u: "skip_ws doc = u @ r" "level op cl i" "HasPrefix u ''{'' \<longrightarrow> u = CHR ''{'' # i @ ''}''"
      "HasPrefix u ''['' \<longrightarrow> u = CHR ''['' # i @ '']''" by blast
  have "r = []"
  proof (rule ccontr)
    assume "r \<noteq> []"
    moreover have "\<forall>c \<in> set r. is_ws c" using p(2) by (simp add: skip_ws_def dropWhile_eq_Nil_conv)
    moreover have "last r = cl" using \<open>r \<noteq> []\<close> u(1) skip assms(4) by simp
    ultimately show False using \<open>\<not> is_ws cl\<close> last_in_set by blast
  qed
  with u skip assms(1,3) have doc: "doc = op # i @ [cl]" by (auto simp: brackets_def HasPrefix_def)
  have "walk op cl [op] 1 False False (i @ cl # post) = walk op cl (op # i) 1 False False (cl # post)"
    using u(2) by (simp add: level_def)
  then show ?thesis
    using doc assms(2) \<open>op \<noteq> quote\<close> \<open>cl \<noteq> quote\<close> \<open>op \<noteq> cl\<close> by (simp add: Let_def json_Compact_def)
qed

lemma try_pattern_document:
  assumes "brackets op cl" "json_Valid doc" "doc = op # doc'" "last doc = cl" "op \<notin> set pre"
  shows "try_pattern op cl (pre @ doc @ post) = Some (compact_out doc)"
  using walk_document [OF assms(1-4), of post] assms(3,5) IndexByte_append [of op pre "doc' @ post"]
  by (simp add: try_pattern_def)

subsection \<open>What the walk accepts\<close>

lemma walk_sound:
  "walk op cl acc d ins esc s = Some t \<Longrightarrow>
     \<exists>cand post. acc @ s = cand @ post \<and> length acc < length cand \<and> json_Valid cand \<and> t = compact_out cand"
proof (induction s arbitrary: acc d ins esc)
  case (Cons ch rest)
  have step: "\<exists>cand post. acc @ ch # rest = cand @ post \<and> length acc < length cand \<and> json_Valid cand \<and> t = compact_out cand"
    if "walk op cl (acc @ [ch]) d' ins' esc' rest = Some t" for d' ins' esc'
    using Cons.IH [OF that] by fastforce
  show ?case
  proof (cases "json_Valid (acc @ [ch]) \<and> t = compact_out (acc @ [ch])")
    case True
    then show ?thesis by (intro exI [of _ "acc @ [ch]"] exI [of _ rest]) simp
  next
    case False
    then show ?thesis using Cons.prems step
      by (auto simp: Let_def json_Compact_def split: if_splits)
  qed
qed simp

lemma try_pattern_sound:
  assumes "try_pattern op cl raw = Some t"
  shows "\<exists>pre cand post. raw = pre @ cand @ post \<and> HasPrefix cand [op] \<and> json_Valid cand \<and> t = compact_out cand"
proof -
  from assms obtain i where i: "IndexByte raw op = Some i" and w: "walk op cl [] 0 False False (drop i raw) = Some t"
    by (auto simp: try_pattern_def split: option.splits)
  from walk_sound [OF w] obtain cand post where c: "drop i raw = cand @ post" "cand \<noteq> []" "json_Valid cand" "t = compact_out cand"
    by auto
  have "i < length raw \<and> raw ! i = op" using i by (simp add: IndexByte_Some)
  then have "drop i raw = op # drop (Suc i) raw" by (metis Cons_nth_drop_Suc)
  with c have "HasPrefix cand [op]" by (cases cand) (auto simp: HasPrefix_def)
  moreover have "raw = take i raw @ cand @ post" using c(1) by (metis append_take_drop_id)
  ultimately show ?thesis using c(3,4) by blast
qed

lemma regex_find_sound:
  "regex_find raw \<noteq> [] \<Longrightarrow> \<exists>pre post. raw = pre @ regex_find raw @ post \<and>
     (HasPrefix (regex_find raw) ''{'' \<or> HasPrefix (regex_find raw) ''['')"
proof (induction raw)
  case (Cons c cs)
  have up: "\<exists>post. cs = upto_last x cs @ post" for x
    unfolding upto_last_def by (metis rev_append rev_rev_ident takeWhile_dropWhile_id)
  show ?case
  proof (cases "(c = CHR ''{'' \<and> CHR ''}'' \<in> set cs) \<or> (c = CHR ''['' \<and> CHR '']'' \<in> set cs)")
    case True
    then obtain x where eq: "regex_find (c # cs) = c # upto_last x cs" and c: "c = CHR ''{'' \<or> c = CHR ''[''" by auto
    from up [of x] obtain post where "c # cs = [] @ (c # upto_last x cs) @ post" by auto
    moreover have "HasPrefix (c # upto_last x cs) ''{'' \<or> HasPrefix (c # upto_last x cs) ''[''"
      using c by (auto simp: HasPrefix_def)
    ultimately show ?thesis unfolding eq by blast
  next
    case False
    then have eq: "regex_find (c # cs) = regex_find cs" by auto
    with Cons obtain pre post where "c # cs = (c # pre) @ regex_find cs @ post"
      "HasPrefix (regex_find cs) ''{'' \<or> HasPrefix (regex_find cs) ''[''" by auto
    then show ?thesis unfolding eq by blast
  qed
qed simp

lemma json_Valid_compact: "json_Valid s \<Longrightarrow> json_Unmarshal (compact_out s) = json_Unmarshal s"
  by (auto simp: json_Valid_def Unmarshal_Compact)

lemma ExtractJSON_cases:
  assumes "ExtractJSON raw = Inr t"
  shows "\<exists>pre cand post. raw = pre @ cand @ post \<and> (HasPrefix cand ''{'' \<or> HasPrefix cand ''['') \<and>
    json_Valid cand \<and> json_Unmarshal t = json_Unmarshal cand"
proof -
  consider "try_pattern (CHR ''{'') (CHR ''}'') raw = Some t" | "try_pattern (CHR ''['') (CHR '']'') raw = Some t"
    | "regex_find raw \<noteq> []" "json_Valid (regex_find raw)" "t = regex_find raw"
    using assms by (auto simp: ExtractJSON_def split: option.splits if_splits)
  then show ?thesis
  proof cases
    case 1
    from try_pattern_sound [OF this] json_Valid_compact show ?thesis by blast
  next
    case 2
    from try_pattern_sound [OF this] json_Valid_compact show ?thesis by blast
  next
    case 3
    with regex_find_sound [OF 3(1)] show ?thesis by blast
  qed
qed

subsection \<open>Printed documents\<close>

lemma str_seg_u_escape: "str_seg (u_escape n)"
proof -
  have "hex_char m \<noteq> quote \<and> hex_char m \<noteq> backslash" if "m < 16" for m
    using hex_val_char [OF that] hex_val_not_special by blast
  then show ?thesis by (simp add: u_escape_def)
qed

lemma str_seg_escape_ascii: "str_seg (escape_ascii c)"
  by (auto simp: escape_ascii_def str_seg_u_escape)

lemma str_seg_quote_body: "str_seg (quote_body s)"
proof (induction s rule: quote_body.induct)
  case (2 c cs)
  have "str_seg (take (utf8_len (c # cs)) (c # cs))" if "\<not> byte c < (128 :: nat)" "utf8_len (c # cs) \<noteq> 0"
  proof -
    from that(2) obtain k where k: "utf8_len (c # cs) = Suc k" by (cases "utf8_len (c # cs)") auto
    have "\<forall>d \<in> set (take k cs). 128 \<le> (byte d :: nat)" using utf8_cont_bytes [OF k] by blast
    then show ?thesis using that(1) k by (intro str_seg_plain) fastforce+
  qed
  with 2 show ?case
    by (auto simp: str_seg_append str_seg_escape_ascii str_seg_u_escape simp del: str_seg.simps(2))
qed simp

text \<open>\<open>keeps x\<close>: compaction copies \<open>x\<close>.\<close>

definition keeps :: "string \<Rightarrow> bool" where
  "keeps x \<longleftrightarrow> (\<forall>r. compact_out (x @ r) = x @ compact_out r)"

lemma keeps_append: "keeps x \<Longrightarrow> keeps y \<Longrightarrow> keeps (x @ y)"
  by (simp add: keeps_def)

lemma keeps_char: "\<not> is_ws c \<Longrightarrow> c \<noteq> quote \<Longrightarrow> keeps x \<Longrightarrow> keeps (c # x)"
  by (simp add: keeps_def)

lemma keeps_join: "\<forall>x \<in> set xs. keeps x \<Longrightarrow> keeps (join_comma xs)"
proof (induction xs rule: join_comma.induct)
  case (3 x y zs)
  then show ?case unfolding join_comma.simps
    by (intro keeps_append keeps_char) (simp_all add: is_ws_def)
qed (simp_all add: keeps_def)

lemma keeps_marshal_str: "keeps (marshal_str s)"
  using compact_in_seg [OF str_seg_quote_body] by (simp add: keeps_def marshal_str_def is_ws_def)

lemma keeps_marshal: "printable v \<Longrightarrow> keeps (json_Marshal v)"
proof (induction v)
  case (JNum t)
  then have "\<forall>c \<in> set t. num_char c" using parse_num_exact [of t t "[]"] by simp
  then show ?case using num_char_plain by (auto simp: keeps_def intro!: compact_plain)
next
  case (JArr vs)
  then have "keeps (join_comma (map json_Marshal vs))" by (intro keeps_join) (auto simp: list_all_iff)
  moreover have "keeps '']''" by (simp add: keeps_def is_ws_def)
  ultimately show ?case by (auto simp: is_ws_def intro!: keeps_char keeps_append)
next
  case (JObj ms)
  have "keeps (marshal_str (fst p) @ CHR '':'' # json_Marshal (snd p))" if "p \<in> set ms" for p
    using JObj that by (cases p) (auto simp: is_ws_def list_all_iff intro!: keeps_append keeps_char keeps_marshal_str)
  then have "keeps (join_comma (map (\<lambda>p. marshal_str (fst p) @ CHR '':'' # json_Marshal (snd p)) ms))"
    by (intro keeps_join) auto
  moreover have "keeps ''}''" by (simp add: keeps_def is_ws_def)
  ultimately show ?case by (auto simp: is_ws_def intro!: keeps_char keeps_append)
qed (simp_all add: keeps_def is_ws_def keeps_marshal_str [unfolded keeps_def])

lemma compact_marshal: "printable v \<Longrightarrow> compact_out (json_Marshal v) = json_Marshal v"
  using keeps_marshal [of v] unfolding keeps_def by (metis append_Nil2 compact_out.simps(1))

lemma json_depth_clean [simp]: "json_depth (json_clean v) = json_depth v"
proof (induction v)
  case (JArr vs)
  then have "map json_depth (map json_clean vs) = map json_depth vs" by simp
  moreover have "foldr (\<lambda>v m. max (json_depth v) m) xs 0 = foldr max (map json_depth xs) 0" for xs
    by (induction xs) simp_all
  ultimately show ?case by (simp only: json_clean.simps json_depth.simps)
next
  case (JObj ms)
  let ?cl = "\<lambda>p. (utf8_clean (fst p), json_clean (snd p))"
  have "map (json_depth \<circ> snd) (map ?cl ms) = map (json_depth \<circ> snd) ms"
    using JObj by (auto simp: snds.simps)
  moreover have "foldr (\<lambda>p m. max (json_depth (snd p)) m) xs 0 = foldr max (map (json_depth \<circ> snd) xs) 0"
    for xs :: "(string \<times> json) list"
    by (induction xs) simp_all
  ultimately show ?case by (simp only: json_clean.simps json_depth.simps)
qed simp_all

lemma Valid_marshal: "printable v \<Longrightarrow> json_depth v \<le> 10000 \<Longrightarrow> json_Valid (json_Marshal v)"
  by (simp add: json_Valid_def Unmarshal_Marshal)

lemma ExtractJSON_object:
  assumes "json_Valid doc" "HasPrefix doc ''{''" "last doc = CHR ''}''" "CHR ''{'' \<notin> set pre"
  shows "ExtractJSON (pre @ doc @ post) = Inr (compact_out doc)"
proof -
  obtain doc' where "doc = CHR ''{'' # doc'" using assms(2) by (cases doc) (auto simp: HasPrefix_def)
  then have "try_pattern (CHR ''{'') (CHR ''}'') (pre @ doc @ post) = Some (compact_out doc)"
    using assms by (intro try_pattern_document) (auto simp: brackets_def)
  then show ?thesis by (simp add: ExtractJSON_def)
qed

text \<open>A document and the text around it.\<close>

definition sample_doc :: string where
  "sample_doc = CHR ''{'' # quote # ''a'' @ quote # '': [1, 2]}''"

lemma sample_doc_valid: "json_Valid sample_doc"
  by code_simp

lemma sample_doc_found: "ExtractJSON (''Sure: '' @ sample_doc @ '' done'') = Inr (compact_out sample_doc)"
  by (rule ExtractJSON_object) (simp_all add: sample_doc_valid, simp_all add: sample_doc_def HasPrefix_def)

lemma Validate_None:
  "Validate L data sch = None \<longleftrightarrow>
     (\<exists>S check v. json_Unmarshal sch = Some S \<and> numbers_in_range S \<and> sl_AddResource L S = None \<and>
        sl_Compile L S = Inr check \<and> json_Unmarshal data = Some v \<and> numbers_in_range v \<and> check v = None)"
  by (auto simp: Validate_def unmarshal_any_def split: option.splits sum.splits if_splits)

section \<open>Properties\<close>

text \<open>C17: What \<open>ExtractJSON\<close> returns is a JSON document, and it is the document of a contiguous piece of
  the input that starts with an opening brace or bracket.\<close>

theorem ExtractJSON_sound:
  assumes "ExtractJSON raw = Inr t"
  shows "\<exists>pre cand post v. raw = pre @ cand @ post \<and> (HasPrefix cand ''{'' \<or> HasPrefix cand ''['') \<and>
    json_Unmarshal cand = Some v \<and> json_Unmarshal t = Some v"
proof -
  from ExtractJSON_cases [OF assms] obtain pre cand post where c: "raw = pre @ cand @ post"
    "HasPrefix cand ''{'' \<or> HasPrefix cand ''[''" "json_Valid cand" "json_Unmarshal t = json_Unmarshal cand" by blast
  moreover from c(3) obtain v where "json_Unmarshal cand = Some v" by (auto simp: json_Valid_def)
  ultimately show ?thesis by metis
qed

theorem ExtractJSON_sound_witness:
  "ExtractJSON (''Sure: '' @ sample_doc @ '' done'') = Inr (compact_out sample_doc) \<and>
   (\<exists>pre cand post v. ''Sure: '' @ sample_doc @ '' done'' = pre @ cand @ post \<and>
      (HasPrefix cand ''{'' \<or> HasPrefix cand ''['') \<and>
      json_Unmarshal cand = Some v \<and> json_Unmarshal (compact_out sample_doc) = Some v)"
  using ExtractJSON_sound [OF sample_doc_found] sample_doc_found by blast

text \<open>C16: \<open>ExtractJSON\<close> finds the JSON object, whatever its white space, in text around it, provided that no
  brace precedes it, and returns it compacted.\<close>

theorem ExtractJSON_finds_object:
  assumes "json_Valid doc" "HasPrefix doc ''{''" "last doc = CHR ''}''" "CHR ''{'' \<notin> set pre"
  shows "ExtractJSON (pre @ doc @ post) = Inr (compact_out doc) \<and>
    json_Unmarshal (compact_out doc) = json_Unmarshal doc"
  using ExtractJSON_object [OF assms] json_Valid_compact [OF assms(1)] by simp

theorem ExtractJSON_finds_object_witness:
  "json_Valid sample_doc \<and> ExtractJSON (''Sure: '' @ sample_doc @ '' done'') = Inr (compact_out sample_doc)"
  using ExtractJSON_finds_object [of sample_doc "''Sure: ''" "'' done''"] sample_doc_valid
  by (simp add: sample_doc_def HasPrefix_def)

text \<open>When the output is a JSON array whose first element is an object, \<open>ExtractJSON\<close> returns that
  element and not the array: objects are looked for first.\<close>

theorem ExtractJSON_array_of_objects:
  assumes "printable (JArr (JObj ms # vs))" "json_depth (JArr (JObj ms # vs)) \<le> 10000"
  shows "ExtractJSON (json_Marshal (JArr (JObj ms # vs))) = Inr (json_Marshal (JObj ms))"
proof -
  let ?doc = "json_Marshal (JObj ms)"
  have p: "printable (JObj ms)" "json_depth (JObj ms) \<le> 10000" using assms by simp_all
  have "json_Marshal (JArr (JObj ms # vs)) = ''['' @ ?doc @
      (if vs = [] then '']'' else CHR '','' # join_comma (map json_Marshal vs) @ '']'')"
    by (cases vs) simp_all
  moreover have "ExtractJSON (''['' @ ?doc @ post) = Inr (compact_out ?doc)" for post
    using Valid_marshal [OF p] by (intro ExtractJSON_object) (simp_all add: HasPrefix_def)
  ultimately show ?thesis using compact_marshal [OF p(1)] by simp
qed

theorem ExtractJSON_array_of_objects_witness:
  "printable (JArr [JObj [(''a'', JNum ''1'')], JObj []]) \<and>
   ExtractJSON (json_Marshal (JArr [JObj [(''a'', JNum ''1'')], JObj []])) = Inr (json_Marshal (JObj [(''a'', JNum ''1'')]))"
proof -
  have "printable (JArr [JObj [(''a'', JNum ''1'')], JObj []])"
    "json_depth (JArr [JObj [(''a'', JNum ''1'')], JObj []]) \<le> 10000" by code_simp+
  from ExtractJSON_array_of_objects [OF this] this(1) show ?thesis by blast
qed

text \<open>C18: A result is valid exactly when a document was extracted, the schema is a document the schema
  library accepts and compiles, and the compiled schema accepts the document; the output is then that
  document.  Feedback is given exactly when the result is not valid.\<close>

theorem ValidateWithFeedback_exact:
  "(vr_Valid (ValidateWithFeedback L data sch) \<longleftrightarrow>
      (\<exists>doc S check v. ExtractJSON data = Inr doc \<and> vr_Output (ValidateWithFeedback L data sch) = doc \<and>
         json_Unmarshal sch = Some S \<and> numbers_in_range S \<and> sl_AddResource L S = None \<and>
         sl_Compile L S = Inr check \<and> json_Unmarshal doc = Some v \<and> numbers_in_range v \<and> check v = None)) \<and>
   (vr_Valid (ValidateWithFeedback L data sch) \<longleftrightarrow> vr_Feedback (ValidateWithFeedback L data sch) = [])"
proof (cases "ExtractJSON data")
  case (Inr doc)
  show ?thesis
    using Validate_None [of L doc sch]
    by (cases "Validate L doc sch") (simp_all add: ValidateWithFeedback_def Inr)
qed (simp add: ValidateWithFeedback_def)

end
