(* ===== verification/Coding_Workflow.thy ===== *)
theory Coding_Workflow
  imports Pool_Manager OpenCode_Client Schema_Validator
begin

text \<open>
  The coding-task workflow, \<^verbatim>\<open>internal/workflow/task.go\<close>, its activities, \<^verbatim>\<open>internal/workflow/activities.go\<close>,
  data types, \<^verbatim>\<open>internal/workflow/schema.go\<close>, and metrics, \<^verbatim>\<open>internal/workflow/metrics.go\<close>.

  The workflow engine is third-party code.  To the workflow an activity is a call
  \<^verbatim>\<open>ExecuteActivity(...).Get(...)\<close> that ends with a value or an error: \<open>ActivityCalls\<close> holds one such call per
  activity (with the retry policy of its options inside), over a state of the outside world.  The workflow
  keeps the list of the calls it made.  The clock readings \<^verbatim>\<open>workflow.Now\<close> are arguments.

  The methods of \<^verbatim>\<open>Activities\<close> are defined over the pool, the OpenCode client and the validator;
  \<open>single_attempt\<close> is the engine that runs each activity once.
\<close>

section \<open>Definitions\<close>

subsection \<open>Data\<close>

record TaskInput =
  ti_UserID :: string
  ti_Prompt :: string
  ti_OutputSchema :: string
  ti_Timeout :: int

record TaskOutput =
  to_SessionID :: string
  to_Result :: string
  to_Duration :: int
  to_TokensUsed :: int

record ExecutionResult =
  er_Output :: string
  er_TokensUsed :: int

record SessionInfo =
  si_ID :: string
  si_SandboxName :: string
  si_ServiceFQDN :: string

record WfAllocation =
  wa_SandboxName :: string
  wa_ServiceFQDN :: string
  wa_UserID :: string

definition zero_output :: TaskOutput where
  "zero_output = \<lparr>to_SessionID = [], to_Result = [], to_Duration = 0, to_TokensUsed = 0\<rparr>"

subsection \<open>Calls of activities\<close>

record 'w ActivityCalls =
  ac_Allocate :: "string \<Rightarrow> 'w \<Rightarrow> (go_error + WfAllocation) \<times> 'w"
  ac_CreateSession :: "WfAllocation \<Rightarrow> 'w \<Rightarrow> (go_error + SessionInfo) \<times> 'w"
  ac_Execute :: "int \<Rightarrow> SessionInfo \<Rightarrow> string \<Rightarrow> 'w \<Rightarrow> (go_error + ExecutionResult) \<times> 'w"
  ac_Validate :: "ExecutionResult \<Rightarrow> string \<Rightarrow> 'w \<Rightarrow> (go_error + ExecutionResult) \<times> 'w"
  ac_Release :: "string \<Rightarrow> 'w \<Rightarrow> go_error option \<times> 'w"

datatype wf_call =
    CallAllocate string
  | CallCreateSession WfAllocation
  | CallExecute int SessionInfo string "go_error + ExecutionResult"
  | CallValidate ExecutionResult string "go_error + ExecutionResult"
  | CallRelease string

text \<open>The state of a workflow run: the world and the calls made so far.\<close>

record 'w Run =
  run_world :: 'w
  run_calls :: "wf_call list"

definition call_allocate :: "'w ActivityCalls \<Rightarrow> string \<Rightarrow> 'w Run \<Rightarrow> (go_error + WfAllocation) \<times> 'w Run" where
  "call_allocate A u R = (case ac_Allocate A u (run_world R) of (res, w) \<Rightarrow>
     (res, \<lparr>run_world = w, run_calls = run_calls R @ [CallAllocate u]\<rparr>))"

definition call_create_session :: "'w ActivityCalls \<Rightarrow> WfAllocation \<Rightarrow> 'w Run \<Rightarrow> (go_error + SessionInfo) \<times> 'w Run" where
  "call_create_session A alloc R = (case ac_CreateSession A alloc (run_world R) of (res, w) \<Rightarrow>
     (res, \<lparr>run_world = w, run_calls = run_calls R @ [CallCreateSession alloc]\<rparr>))"

definition call_execute :: "'w ActivityCalls \<Rightarrow> int \<Rightarrow> SessionInfo \<Rightarrow> string \<Rightarrow> 'w Run \<Rightarrow> (go_error + ExecutionResult) \<times> 'w Run" where
  "call_execute A t s p R = (case ac_Execute A t s p (run_world R) of (res, w) \<Rightarrow>
     (res, \<lparr>run_world = w, run_calls = run_calls R @ [CallExecute t s p res]\<rparr>))"

definition call_validate :: "'w ActivityCalls \<Rightarrow> ExecutionResult \<Rightarrow> string \<Rightarrow> 'w Run \<Rightarrow> (go_error + ExecutionResult) \<times> 'w Run" where
  "call_validate A r sch R = (case ac_Validate A r sch (run_world R) of (res, w) \<Rightarrow>
     (res, \<lparr>run_world = w, run_calls = run_calls R @ [CallValidate r sch res]\<rparr>))"

definition call_release :: "'w ActivityCalls \<Rightarrow> string \<Rightarrow> 'w Run \<Rightarrow> 'w Run" where
  "call_release A n R = (case ac_Release A n (run_world R) of (res, w) \<Rightarrow>
     \<lparr>run_world = w, run_calls = run_calls R @ [CallRelease n]\<rparr>)"

subsection \<open>The workflow\<close>

definition maxValidationRetries :: nat where "maxValidationRetries = 3"

text \<open>The validation loop with \<open>k\<close> attempts left.  It ends with an early return (\<open>Inl\<close>) or with the execution
  result and the last validation error; the output collects the tokens.\<close>

fun validation_loop ::
  "'w ActivityCalls \<Rightarrow> TaskInput \<Rightarrow> SessionInfo \<Rightarrow> int \<Rightarrow> nat \<Rightarrow> ExecutionResult \<Rightarrow> go_error option \<Rightarrow> TaskOutput \<Rightarrow>
   'w Run \<Rightarrow> (go_error + ExecutionResult \<times> go_error option) \<times> TaskOutput \<times> 'w Run" where
  "validation_loop A inp sess t 0 execResult lastErr out R = (Inr (execResult, lastErr), out, R)"
| "validation_loop A inp sess t (Suc k) execResult lastErr out R =
     (case call_validate A execResult (ti_OutputSchema inp) R of
        (Inr validated, R1) \<Rightarrow> (Inr (validated, None), out, R1)
      | (Inl err, R1) \<Rightarrow>
          if maxValidationRetries - k < maxValidationRetries then
            (case call_execute A t sess
                    (BuildRetryPrompt (ti_Prompt inp) (er_Output execResult) (err_text err) (ti_OutputSchema inp)) R1 of
               (Inl retryErr, R2) \<Rightarrow>
                 (Inl (Wrapf (''retry prompt (attempt '' @ itoa (int (maxValidationRetries - k)) @ ''): '') retryErr), out, R2)
             | (Inr retryResult, R2) \<Rightarrow>
                 validation_loop A inp sess t k retryResult (Some err)
                   (out\<lparr>to_TokensUsed := wrap64 (to_TokensUsed out + er_TokensUsed retryResult)\<rparr>) R2)
          else validation_loop A inp sess t k execResult (Some err) out R1)"

definition exec_timeout :: "TaskInput \<Rightarrow> int" where
  "exec_timeout inp = (if ti_Timeout inp > 0 then ti_Timeout inp else 30 * Minute)"

text \<open>The body between the allocation and the deferred release.\<close>

definition workflow_body ::
  "'w ActivityCalls \<Rightarrow> TaskInput \<Rightarrow> int \<Rightarrow> int \<Rightarrow> WfAllocation \<Rightarrow> 'w Run \<Rightarrow> (TaskOutput \<times> go_error option) \<times> 'w Run" where
  "workflow_body A inp startTime endTime alloc R =
     (case call_create_session A alloc R of
        (Inl err, R1) \<Rightarrow> ((zero_output, Some (Wrapf ''creating session: '' err)), R1)
      | (Inr sess, R1) \<Rightarrow>
     (let out1 = zero_output\<lparr>to_SessionID := si_ID sess\<rparr>; t = exec_timeout inp in
      case call_execute A t sess (ti_Prompt inp) R1 of
        (Inl err, R2) \<Rightarrow> ((out1, Some (Wrapf ''executing prompt: '' err)), R2)
      | (Inr execResult, R2) \<Rightarrow>
     (let out2 = out1\<lparr>to_TokensUsed := er_TokensUsed execResult\<rparr>;
          finish = (\<lambda>r out. out\<lparr>to_Result := er_Output r, to_Duration := time_sub endTime startTime\<rparr>)
      in if ti_OutputSchema inp \<noteq> [] then
           (case validation_loop A inp sess t maxValidationRetries execResult None out2 R2 of
              (Inl err, out3, R3) \<Rightarrow> ((out3, Some err), R3)
            | (Inr (r, Some lastErr), out3, R3) \<Rightarrow>
                ((out3, Some (Wrapf (''validation failed after '' @ itoa (int maxValidationRetries) @ '' attempts: '') lastErr)), R3)
            | (Inr (r, None), out3, R3) \<Rightarrow> ((finish r out3, None), R3))
         else ((finish execResult out2, None), R2))))"

definition CodingTaskWorkflow ::
  "'w ActivityCalls \<Rightarrow> TaskInput \<Rightarrow> int \<Rightarrow> int \<Rightarrow> 'w \<Rightarrow> (TaskOutput \<times> go_error option) \<times> 'w Run" where
  "CodingTaskWorkflow A inp startTime endTime w =
     (case call_allocate A (ti_UserID inp) \<lparr>run_world = w, run_calls = []\<rparr> of
        (Inl err, R) \<Rightarrow> ((zero_output, Some (Wrapf ''allocating sandbox: '' err)), R)
      | (Inr alloc, R) \<Rightarrow>
          (case workflow_body A inp startTime endTime alloc R of (res, R1) \<Rightarrow>
             (res, if wa_SandboxName alloc \<noteq> [] then call_release A (wa_SandboxName alloc) R1 else R1)))"

subsection \<open>Metrics\<close>

record WorkflowMetrics =
  wm_taskDuration :: "(int \<times> string) list"
  wm_taskStatus :: "(int \<times> string) list"
  wm_llmTokensUsed :: "int list"

definition NewWorkflowMetrics :: "(string \<Rightarrow> go_error option) \<Rightarrow> go_error + WorkflowMetrics" where
  "NewWorkflowMetrics meter =
     (case meter ''opencode_scale_task_duration'' of Some err \<Rightarrow> Inl err | None \<Rightarrow>
     (case meter ''opencode_scale_task_status'' of Some err \<Rightarrow> Inl err | None \<Rightarrow>
     (case meter ''opencode_scale_llm_tokens_total'' of Some err \<Rightarrow> Inl err | None \<Rightarrow>
        Inr \<lparr>wm_taskDuration = [], wm_taskStatus = [], wm_llmTokensUsed = []\<rparr>)))"

definition RecordTaskDuration :: "int \<Rightarrow> string \<Rightarrow> WorkflowMetrics \<Rightarrow> WorkflowMetrics" where
  "RecordTaskDuration d status m = m\<lparr>wm_taskDuration := wm_taskDuration m @ [(d, status)]\<rparr>"

definition RecordTaskStatus :: "string \<Rightarrow> WorkflowMetrics \<Rightarrow> WorkflowMetrics" where
  "RecordTaskStatus status m = m\<lparr>wm_taskStatus := wm_taskStatus m @ [(1, status)]\<rparr>"

definition RecordTokens :: "int \<Rightarrow> WorkflowMetrics \<Rightarrow> WorkflowMetrics" where
  "RecordTokens n m = m\<lparr>wm_llmTokensUsed := wm_llmTokensUsed m @ [n]\<rparr>"

subsection \<open>Activities\<close>

record 'p Activities =
  act_Pool :: "'p PoolManager option"
  act_Metrics :: "WorkflowMetrics option"
  act_heartbeats :: "string list"

definition AllocateSandboxActivity ::
  "'p SandboxProvider \<Rightarrow> map_order \<Rightarrow> CallEnv \<Rightarrow> string \<Rightarrow> 'p Activities \<Rightarrow> (go_error + WfAllocation) \<times> 'p Activities" where
  "AllocateSandboxActivity P ord e userID a =
     (case act_Pool a of
        None \<Rightarrow>
          (Inr \<lparr>wa_SandboxName = ''sandbox-'' @ userID @ ''-'' @ itoa (UnixMilli (env_now e)),
                wa_ServiceFQDN = ''sandbox-'' @ userID @ ''.opencode-scale.svc.cluster.local:4096'',
                wa_UserID = userID\<rparr>, a)
      | Some pm \<Rightarrow>
          (case Allocate P ord e userID pm of
             (Inl err, pm') \<Rightarrow> (Inl (Wrapf ''allocating sandbox: '' err), a\<lparr>act_Pool := Some pm'\<rparr>)
           | (Inr addr, pm') \<Rightarrow>
               (Inr \<lparr>wa_SandboxName = SandboxName (alloc_at pm' addr), wa_ServiceFQDN = ServiceFQDN (alloc_at pm' addr),
                     wa_UserID = userID\<rparr>, a\<lparr>act_Pool := Some pm'\<rparr>)))"

definition CreateSessionActivity :: "HttpClient \<Rightarrow> WfAllocation \<Rightarrow> 'p Activities \<Rightarrow> (go_error + SessionInfo) \<times> 'p Activities" where
  "CreateSessionActivity H alloc a =
     (case CreateSession H (NewClient (''http://'' @ wa_ServiceFQDN alloc)) of
        Inl err \<Rightarrow> (Inl (Wrapf ''creating opencode session: '' err), a)
      | Inr s \<Rightarrow> (Inr \<lparr>si_ID = sess_ID s, si_SandboxName = wa_SandboxName alloc, si_ServiceFQDN = wa_ServiceFQDN alloc\<rparr>, a))"

definition heartbeat_all :: "string list \<Rightarrow> 'p Activities \<Rightarrow> 'p Activities" where
  "heartbeat_all ms a = a\<lparr>act_heartbeats := act_heartbeats a @ ms\<rparr>"

definition ExecutePromptActivity ::
  "HttpClient \<Rightarrow> SessionInfo \<Rightarrow> string \<Rightarrow> 'p Activities \<Rightarrow> (go_error + ExecutionResult) \<times> 'p Activities" where
  "ExecutePromptActivity H sess prompt a =
     (let a1 = heartbeat_all [''starting prompt execution''] a in
      case SendMessage H (NewClient (''http://'' @ si_ServiceFQDN sess)) (si_ID sess) prompt True of
        (Inl err, hbs) \<Rightarrow> (Inl (Wrapf ''executing prompt: '' err), heartbeat_all hbs a1)
      | (Inr r, hbs) \<Rightarrow>
          (let a2 = heartbeat_all (hbs @ [''prompt execution complete'']) a1;
               result = \<lparr>er_Output = sr_Content r, er_TokensUsed = sr_TokensUsed r\<rparr>
           in (Inr result, a2\<lparr>act_Metrics := map_option (RecordTokens (er_TokensUsed result)) (act_Metrics a2)\<rparr>)))"

text \<open>A \<^verbatim>\<open>ValidationError\<close> is an error of its own type; the workflow uses its text only.\<close>

definition ValidationError_Error :: "string \<Rightarrow> string" where
  "ValidationError_Error feedback = ''output validation failed: '' @ feedback"

definition ValidateOutputActivity ::
  "SchemaLib \<Rightarrow> ExecutionResult \<Rightarrow> string \<Rightarrow> 'p Activities \<Rightarrow> (go_error + ExecutionResult) \<times> 'p Activities" where
  "ValidateOutputActivity L result jsonSchema a =
     (let vr = ValidateWithFeedback L (er_Output result) jsonSchema in
      if \<not> vr_Valid vr then (Inl (Errorf (ValidationError_Error (vr_Feedback vr))), a)
      else (Inr \<lparr>er_Output = vr_Output vr, er_TokensUsed = er_TokensUsed result\<rparr>, a))"

definition ReleaseSandboxActivity ::
  "'p SandboxProvider \<Rightarrow> string \<Rightarrow> 'p Activities \<Rightarrow> go_error option \<times> 'p Activities" where
  "ReleaseSandboxActivity P sandboxName a =
     (case act_Pool a of
        None \<Rightarrow> (None, a)
      | Some pm \<Rightarrow> (case Release P sandboxName pm of (err, pm') \<Rightarrow> (err, a\<lparr>act_Pool := Some pm'\<rparr>)))"

definition single_attempt ::
  "'p SandboxProvider \<Rightarrow> map_order \<Rightarrow> CallEnv \<Rightarrow> HttpClient \<Rightarrow> SchemaLib \<Rightarrow> 'p Activities ActivityCalls" where
  "single_attempt P ord e H L =
     \<lparr>ac_Allocate = AllocateSandboxActivity P ord e, ac_CreateSession = CreateSessionActivity H,
      ac_Execute = (\<lambda>_. ExecutePromptActivity H), ac_Validate = ValidateOutputActivity L,
      ac_Release = ReleaseSandboxActivity P\<rparr>"

text \<open>The standalone activities, for use without dependency injection: \<open>AllocateSandboxActivity\<close> and
  \<open>ValidateOutputActivity\<close> call the methods of an empty \<open>Activities\<close>, the others are mocks.\<close>

definition no_dependencies :: "'p Activities" where
  "no_dependencies = \<lparr>act_Pool = None, act_Metrics = None, act_heartbeats = []\<rparr>"

definition standalone_Allocate ::
  "'p SandboxProvider \<Rightarrow> map_order \<Rightarrow> CallEnv \<Rightarrow> string \<Rightarrow> go_error + WfAllocation" where
  "standalone_Allocate P ord e userID = fst (AllocateSandboxActivity P ord e userID no_dependencies)"

definition standalone_CreateSession :: "int \<Rightarrow> WfAllocation \<Rightarrow> go_error + SessionInfo" where
  "standalone_CreateSession now alloc =
     Inr \<lparr>si_ID = ''sess-'' @ itoa (UnixMilli now), si_SandboxName = wa_SandboxName alloc, si_ServiceFQDN = wa_ServiceFQDN alloc\<rparr>"

definition standalone_ExecutePrompt ::
  "SessionInfo \<Rightarrow> string \<Rightarrow> 'p Activities \<Rightarrow> (go_error + ExecutionResult) \<times> 'p Activities" where
  "standalone_ExecutePrompt sess prompt a =
     (Inr \<lparr>er_Output = ''placeholder result for prompt: '' @ prompt, er_TokensUsed = 0\<rparr>,
      heartbeat_all [''starting prompt execution'', ''prompt execution complete''] a)"

definition standalone_ValidateOutput :: "SchemaLib \<Rightarrow> ExecutionResult \<Rightarrow> string \<Rightarrow> go_error + ExecutionResult" where
  "standalone_ValidateOutput L result jsonSchema =
     fst (ValidateOutputActivity L result jsonSchema (no_dependencies :: unit Activities))"

definition standalone_Release :: "string \<Rightarrow> go_error option" where
  "standalone_Release sandboxName = None"

definition standalone_activities ::
  "'p SandboxProvider \<Rightarrow> map_order \<Rightarrow> CallEnv \<Rightarrow> SchemaLib \<Rightarrow> 'p Activities ActivityCalls" where
  "standalone_activities P ord e L =
     \<lparr>ac_Allocate = (\<lambda>u a. (standalone_Allocate P ord e u, a)),
      ac_CreateSession = (\<lambda>alloc a. (standalone_CreateSession (env_now e) alloc, a)),
      ac_Execute = (\<lambda>_. standalone_ExecutePrompt),
      ac_Validate = (\<lambda>r sch a. (standalone_ValidateOutput L r sch, a)),
      ac_Release = (\<lambda>n a. (standalone_Release n, a))\<rparr>"

text \<open>What a list of calls contains.\<close>

fun is_execute :: "wf_call \<Rightarrow> bool" where
  "is_execute (CallExecute t s p r) = True"
| "is_execute _ = False"

fun is_validate :: "wf_call \<Rightarrow> bool" where
  "is_validate (CallValidate r s v) = True"
| "is_validate _ = False"

definition execute_tokens :: "wf_call list \<Rightarrow> int" where
  "execute_tokens cs =
     sum_list (map (\<lambda>c. case c of CallExecute t s p (Inr r) \<Rightarrow> er_TokensUsed r | _ \<Rightarrow> 0) cs)"

section \<open>Lemmas\<close>

lemma call_calls:
  "call_allocate A u R = (res1, R1) \<Longrightarrow> run_calls R1 = run_calls R @ [CallAllocate u]"
  "call_create_session A al R = (res2, R1) \<Longrightarrow> run_calls R1 = run_calls R @ [CallCreateSession al]"
  "call_execute A t s p R = (res3, R1) \<Longrightarrow> run_calls R1 = run_calls R @ [CallExecute t s p res3]"
  "call_validate A r sch R = (res4, R1) \<Longrightarrow> run_calls R1 = run_calls R @ [CallValidate r sch res4]"
  "run_calls (call_release A n R) = run_calls R @ [CallRelease n]"
  by (auto simp: call_allocate_def call_create_session_def call_execute_def call_validate_def call_release_def
      split: prod.splits)

lemma execute_tokens_simps [simp]:
  "execute_tokens [] = 0"
  "execute_tokens (cs @ ds) = execute_tokens cs + execute_tokens ds"
  "execute_tokens (CallExecute t s p (Inr r) # cs) = er_TokensUsed r + execute_tokens cs"
  "execute_tokens (CallExecute t s p (Inl e) # cs) = execute_tokens cs"
  "execute_tokens (CallValidate x sch v # cs) = execute_tokens cs"
  "execute_tokens (CallAllocate u # cs) = execute_tokens cs"
  "execute_tokens (CallCreateSession al # cs) = execute_tokens cs"
  "execute_tokens (CallRelease n # cs) = execute_tokens cs"
  by (simp_all add: execute_tokens_def)

text \<open>\<open>loop_calls k cs\<close>: calls that a validation loop with \<open>k\<close> attempts can make.\<close>

definition loop_calls :: "nat \<Rightarrow> wf_call list \<Rightarrow> bool" where
  "loop_calls k cs \<longleftrightarrow> list_all (\<lambda>c. is_execute c \<or> is_validate c) cs \<and>
     length (filter is_execute cs) \<le> k - 1 \<and> length (filter is_validate cs) \<le> k"

lemma validation_loop_calls:
  "validation_loop A inp sess t k r le out R = (res, out', R') \<Longrightarrow> k \<le> maxValidationRetries \<Longrightarrow>
     \<exists>cs. run_calls R' = run_calls R @ cs \<and> loop_calls k cs \<and>
       wrap64 (to_TokensUsed out') = wrap64 (to_TokensUsed out + execute_tokens cs) \<and>
       (\<forall>v. res = Inr (v, None) \<longrightarrow> k \<noteq> 0 \<or> le \<noteq> None \<longrightarrow>
          (\<exists>x. last cs = CallValidate x (ti_OutputSchema inp) (Inr v) \<and> cs \<noteq> []))"
proof (induction A inp sess t k r le out R arbitrary: res out' R' rule: validation_loop.induct)
  case (1 A inp sess t r le out R)
  then show ?case by (auto simp: loop_calls_def)
next
  case (2 A inp sess t k r le out R)
  let ?sch = "ti_OutputSchema inp"
  obtain v R1 where v: "call_validate A r ?sch R = (v, R1)" by force
  note R1 = call_calls(4) [OF v]
  show ?case
  proof (cases v)
    case (Inr validated)
    then show ?thesis using "2.prems"(1) v R1
      by (intro exI [of _ "[CallValidate r ?sch v]"]) (auto simp: loop_calls_def)
  next
    case (Inl err)
    show ?thesis
    proof (cases "k = 0")
      case True
      then show ?thesis using "2.prems"(1) v R1 Inl
        by (intro exI [of _ "[CallValidate r ?sch v]"]) (auto simp: loop_calls_def)
    next
      case False
      then have lt: "maxValidationRetries - k < maxValidationRetries"
        using "2.prems"(2) by (simp add: maxValidationRetries_def)
      let ?p = "BuildRetryPrompt (ti_Prompt inp) (er_Output r) (err_text err) ?sch"
      obtain x R2 where x: "call_execute A t sess ?p R1 = (x, R2)" by force
      note R2 = call_calls(3) [OF x]
      show ?thesis
      proof (cases x)
        case xl: (Inl e)
        then show ?thesis using "2.prems"(1) v R1 Inl lt x R2 False
          by (intro exI [of _ "[CallValidate r ?sch v, CallExecute t sess ?p x]"]) (auto simp: loop_calls_def)
      next
        case xr: (Inr rr)
        let ?out = "out\<lparr>to_TokensUsed := wrap64 (to_TokensUsed out + er_TokensUsed rr)\<rparr>"
        have rec: "validation_loop A inp sess t k rr (Some err) ?out R2 = (res, out', R')"
          using "2.prems"(1) v Inl lt x xr by simp
        from "2.IH"(1) [OF v [symmetric] Inl lt x [symmetric] xr rec] "2.prems"(2)
        obtain cs where cs: "run_calls R' = run_calls R2 @ cs" "loop_calls k cs"
          "wrap64 (to_TokensUsed out') = wrap64 (to_TokensUsed ?out + execute_tokens cs)"
          "\<forall>v. res = Inr (v, None) \<longrightarrow> (\<exists>x. last cs = CallValidate x ?sch (Inr v) \<and> cs \<noteq> [])"
          using False by auto
        have "wrap64 (to_TokensUsed out') = wrap64 (to_TokensUsed out + (er_TokensUsed rr + execute_tokens cs))"
          using cs(3) wrap64_add_left [of "to_TokensUsed out + er_TokensUsed rr" "execute_tokens cs"] by (simp add: add.assoc)
        then show ?thesis using cs R1 R2 Inl xr False
          by (intro exI [of _ "CallValidate r ?sch v # CallExecute t sess ?p x # cs"]) (auto simp: loop_calls_def)
      qed
    qed
  qed
qed

text \<open>What the body of the workflow leaves behind: its calls, its token count, and, when it succeeds, where
  the result comes from.\<close>

definition body_spec :: "TaskInput \<Rightarrow> TaskOutput \<Rightarrow> go_error option \<Rightarrow> wf_call list \<Rightarrow> bool" where
  "body_spec inp out err cs \<longleftrightarrow>
     list_all (\<lambda>c. is_execute c \<or> is_validate c) cs \<and>
     length (filter is_execute cs) \<le> maxValidationRetries \<and> length (filter is_validate cs) \<le> maxValidationRetries \<and>
     wrap64 (to_TokensUsed out) = wrap64 (execute_tokens cs) \<and>
     (err = None \<longrightarrow>
        (if ti_OutputSchema inp \<noteq> []
         then \<exists>x v. cs \<noteq> [] \<and> last cs = CallValidate x (ti_OutputSchema inp) (Inr v) \<and> to_Result out = er_Output v
         else \<exists>s r. cs = [CallExecute (exec_timeout inp) s (ti_Prompt inp) (Inr r)] \<and> to_Result out = er_Output r))"

lemma workflow_body_calls:
  assumes "workflow_body A inp t0 t1 alloc R = ((out, err), R')"
  shows "\<exists>cs. run_calls R' = run_calls R @ CallCreateSession alloc # cs \<and> body_spec inp out err cs"
proof -
  obtain ses R1 where c1: "call_create_session A alloc R = (ses, R1)" by force
  note R1 = call_calls(2) [OF c1]
  show ?thesis
  proof (cases ses)
    case (Inl e)
    then show ?thesis using assms c1 R1
      by (intro exI [of _ "[]"]) (auto simp: workflow_body_def body_spec_def zero_output_def)
  next
    case (Inr sess)
    let ?t = "exec_timeout inp"
    obtain x R2 where c2: "call_execute A ?t sess (ti_Prompt inp) R1 = (x, R2)" by force
    note R2 = call_calls(3) [OF c2]
    let ?c = "CallExecute ?t sess (ti_Prompt inp) x"
    show ?thesis
    proof (cases x)
      case xl: (Inl e)
      then show ?thesis using assms c1 c2 R1 R2 Inr
        by (intro exI [of _ "[?c]"])
           (auto simp: workflow_body_def body_spec_def zero_output_def Let_def maxValidationRetries_def)
    next
      case xr: (Inr r)
      let ?out = "zero_output\<lparr>to_SessionID := si_ID sess, to_TokensUsed := er_TokensUsed r\<rparr>"
      show ?thesis
      proof (cases "ti_OutputSchema inp = []")
        case True
        then show ?thesis using assms c1 c2 R1 R2 Inr xr
          by (intro exI [of _ "[?c]"])
             (auto simp: workflow_body_def body_spec_def zero_output_def Let_def maxValidationRetries_def)
      next
        case False
        obtain res out3 R3 where l: "validation_loop A inp sess ?t maxValidationRetries r None ?out R2 = (res, out3, R3)"
          by (rule prod_cases3)
        from validation_loop_calls [OF l] obtain cs where cs: "run_calls R3 = run_calls R2 @ cs"
          "loop_calls maxValidationRetries cs"
          "wrap64 (to_TokensUsed out3) = wrap64 (er_TokensUsed r + execute_tokens cs)"
          "\<And>v. res = Inr (v, None) \<Longrightarrow> \<exists>x. last cs = CallValidate x (ti_OutputSchema inp) (Inr v) \<and> cs \<noteq> []"
          by (auto simp: maxValidationRetries_def)
        have fin: "R' = R3 \<and> to_TokensUsed out = to_TokensUsed out3 \<and>
            (err = None \<longrightarrow> (\<exists>v. res = Inr (v, None) \<and> to_Result out = er_Output v))"
          using assms c1 c2 Inr xr False l
          by (auto simp: workflow_body_def Let_def split: sum.splits option.splits prod.splits)
        show ?thesis using fin cs R1 R2 xr False
          by (intro exI [of _ "?c # cs"])
             (fastforce simp: body_spec_def loop_calls_def maxValidationRetries_def)
      qed
    qed
  qed
qed

text \<open>The calls of a whole run.\<close>

lemma workflow_calls:
  assumes "CodingTaskWorkflow A inp t0 t1 w = ((out, err), R)"
  obtains (no_sandbox) e where "fst (ac_Allocate A (ti_UserID inp) w) = Inl e" "run_calls R = [CallAllocate (ti_UserID inp)]"
    "err = Some (Wrapf ''allocating sandbox: '' e)" "out = zero_output"
  | (sandbox) alloc cs where "fst (ac_Allocate A (ti_UserID inp) w) = Inr alloc"
    "run_calls R = [CallAllocate (ti_UserID inp), CallCreateSession alloc] @ cs @
       (if wa_SandboxName alloc \<noteq> [] then [CallRelease (wa_SandboxName alloc)] else [])"
    "body_spec inp out err cs"
proof -
  let ?R0 = "\<lparr>run_world = w, run_calls = []\<rparr>"
  obtain al R1 where c: "call_allocate A (ti_UserID inp) ?R0 = (al, R1)" by force
  note R1 = call_calls(1) [OF c]
  have al: "fst (ac_Allocate A (ti_UserID inp) w) = al" using c by (auto simp: call_allocate_def split: prod.splits)
  show ?thesis
  proof (cases al)
    case (Inl e)
    then show ?thesis using no_sandbox [of e] assms c R1 al by (auto simp: CodingTaskWorkflow_def)
  next
    case (Inr alloc)
    obtain o' e' R2 where b: "workflow_body A inp t0 t1 alloc R1 = ((o', e'), R2)" by (metis surj_pair)
    from workflow_body_calls [OF b] obtain cs where cs: "run_calls R2 = run_calls R1 @ CallCreateSession alloc # cs"
      "body_spec inp o' e' cs" by blast
    have "o' = out" "e' = err" "R = (if wa_SandboxName alloc \<noteq> [] then call_release A (wa_SandboxName alloc) R2 else R2)"
      using assms c Inr b by (simp_all add: CodingTaskWorkflow_def)
    with sandbox [of alloc cs] cs al Inr R1 show ?thesis by (simp add: call_calls(5))
  qed
qed

text \<open>The recorded results are results of the activities.\<close>

definition recorded :: "'w ActivityCalls \<Rightarrow> wf_call list \<Rightarrow> bool" where
  "recorded A cs \<longleftrightarrow>
     (\<forall>x sch r. CallValidate x sch r \<in> set cs \<longrightarrow> (\<exists>w. fst (ac_Validate A x sch w) = r)) \<and>
     (\<forall>t s p r. CallExecute t s p r \<in> set cs \<longrightarrow> (\<exists>w. fst (ac_Execute A t s p w) = r))"

lemma recorded_calls:
  "call_allocate A u R = (res1, R1) \<Longrightarrow> recorded A (run_calls R) \<Longrightarrow> recorded A (run_calls R1)"
  "call_create_session A al R = (res2, R1) \<Longrightarrow> recorded A (run_calls R) \<Longrightarrow> recorded A (run_calls R1)"
  "call_execute A t s p R = (res3, R1) \<Longrightarrow> recorded A (run_calls R) \<Longrightarrow> recorded A (run_calls R1)"
  "call_validate A r sch R = (res4, R1) \<Longrightarrow> recorded A (run_calls R) \<Longrightarrow> recorded A (run_calls R1)"
  "recorded A (run_calls R) \<Longrightarrow> recorded A (run_calls (call_release A n R))"
  by (auto simp: recorded_def call_allocate_def call_create_session_def call_execute_def call_validate_def
      call_release_def split: prod.splits) (metis fst_conv)+

lemma recorded_loop:
  "validation_loop A inp sess t k r le out R = (res, out', R') \<Longrightarrow> recorded A (run_calls R) \<Longrightarrow>
     recorded A (run_calls R')"
proof (induction A inp sess t k r le out R arbitrary: res out' R' rule: validation_loop.induct)
  case (2 A inp sess t k r le out R)
  then show ?case
    by (auto split: prod.splits sum.splits if_splits dest: recorded_calls)
qed simp

lemma recorded_workflow:
  assumes "CodingTaskWorkflow A inp t0 t1 w = (res, R)"
  shows "recorded A (run_calls R)"
proof -
  have body: "recorded A (run_calls R2)" if "workflow_body A inp t0 t1 alloc R1 = (res, R2)" "recorded A (run_calls R1)"
    for alloc R1 R2 res
    using that by (auto simp: workflow_body_def Let_def dest: recorded_calls recorded_loop
        split: prod.splits sum.splits option.splits if_splits)
  obtain al R1 where c: "call_allocate A (ti_UserID inp) \<lparr>run_world = w, run_calls = []\<rparr> = (al, R1)"
    by (meson surj_pair)
  have R1: "recorded A (run_calls R1)" by (rule recorded_calls(1) [OF c]) (simp add: recorded_def)
  show ?thesis
  proof (cases al)
    case (Inr alloc)
    obtain res' R2 where b: "workflow_body A inp t0 t1 alloc R1 = (res', R2)" by (meson surj_pair)
    note R2 = body [OF b R1]
    from assms c Inr b have "R = (if wa_SandboxName alloc \<noteq> [] then call_release A (wa_SandboxName alloc) R2 else R2)"
      by (simp add: CodingTaskWorkflow_def)
    then show ?thesis using R2 recorded_calls(5) [OF R2] by simp
  qed (use assms c R1 in \<open>simp add: CodingTaskWorkflow_def\<close>)
qed

lemma ValidateOutput_Inr:
  assumes "fst (ValidateOutputActivity L x sch a) = Inr v"
  shows "vr_Valid (ValidateWithFeedback L (er_Output x) sch) \<and>
    er_Output v = vr_Output (ValidateWithFeedback L (er_Output x) sch)"
  using assms by (auto simp: ValidateOutputActivity_def Let_def split: if_splits)

lemma Valid_result:
  assumes "vr_Valid (ValidateWithFeedback L data sch)"
  shows "\<exists>S check v. json_Unmarshal sch = Some S \<and> sl_Compile L S = Inr check \<and>
    json_Unmarshal (vr_Output (ValidateWithFeedback L data sch)) = Some v \<and> check v = None"
proof -
  from assms obtain doc where "ExtractJSON data = Inr doc" "Validate L doc sch = None"
    and "vr_Output (ValidateWithFeedback L data sch) = doc"
    by (auto simp: ValidateWithFeedback_def split: sum.splits option.splits)
  then show ?thesis unfolding Validate_None by auto
qed

text \<open>The activities between allocation and release do not touch the pool.\<close>

definition world_kept :: "('w \<Rightarrow> bool) \<Rightarrow> 'w ActivityCalls \<Rightarrow> bool" where
  "world_kept I A \<longleftrightarrow>
     (\<forall>al w. I w \<longrightarrow> I (snd (ac_CreateSession A al w))) \<and>
     (\<forall>t s p w. I w \<longrightarrow> I (snd (ac_Execute A t s p w))) \<and>
     (\<forall>r sch w. I w \<longrightarrow> I (snd (ac_Validate A r sch w)))"

lemma world_kept_calls:
  assumes "world_kept I A"
  shows "call_create_session A al R = (res2, R1) \<Longrightarrow> I (run_world R) \<Longrightarrow> I (run_world R1)"
    "call_execute A t s p R = (res3, R1) \<Longrightarrow> I (run_world R) \<Longrightarrow> I (run_world R1)"
    "call_validate A r sch R = (res4, R1) \<Longrightarrow> I (run_world R) \<Longrightarrow> I (run_world R1)"
  using assms
  by (auto simp: world_kept_def call_create_session_def call_execute_def call_validate_def split: prod.splits)
     (metis snd_conv)+

lemma world_kept_loop:
  "world_kept I A \<Longrightarrow> validation_loop A inp sess t k r le out R = (res, out', R') \<Longrightarrow> I (run_world R) \<Longrightarrow>
     I (run_world R')"
proof (induction A inp sess t k r le out R arbitrary: res out' R' rule: validation_loop.induct)
  case (2 A inp sess t k r le out R)
  then show ?case
    by (auto split: prod.splits sum.splits if_splits dest: world_kept_calls [OF "2.prems"(1)])
qed simp

lemma world_kept_body:
  assumes "world_kept I A" "workflow_body A inp t0 t1 alloc R = (res, R')" "I (run_world R)"
  shows "I (run_world R')"
  using assms(2,3)
  by (auto simp: workflow_body_def Let_def dest: world_kept_calls [OF assms(1)] world_kept_loop [OF assms(1)]
      split: prod.splits sum.splits option.splits if_splits)

lemma pool_kept: "world_kept (\<lambda>a. act_Pool a = Some pm) (single_attempt P ord e H L)"
  by (auto simp: world_kept_def single_attempt_def CreateSessionActivity_def ExecutePromptActivity_def
      ValidateOutputActivity_def heartbeat_all_def Let_def split: sum.splits prod.splits)

lemma workflow_pool:
  assumes "act_Pool a = Some pm" "CodingTaskWorkflow (single_attempt P ord e H L) inp t0 t1 a = (res, R)"
  shows "act_Pool (run_world R) = Some
    (case Allocate P ord e (ti_UserID inp) pm of
       (Inl err, pm1) \<Rightarrow> pm1
     | (Inr ad, pm1) \<Rightarrow>
         if SandboxName (alloc_at pm1 ad) \<noteq> [] then snd (Release P (SandboxName (alloc_at pm1 ad)) pm1) else pm1)"
proof -
  let ?A = "single_attempt P ord e H L"
  obtain r pm1 where al: "Allocate P ord e (ti_UserID inp) pm = (r, pm1)" by (meson surj_pair)
  obtain al1 R1 where c: "call_allocate ?A (ti_UserID inp) \<lparr>run_world = a, run_calls = []\<rparr> = (al1, R1)" by (meson surj_pair)
  have R1: "act_Pool (run_world R1) = Some pm1"
    and al1: "al1 = map_sum (Wrapf ''allocating sandbox: '') (\<lambda>ad. \<lparr>wa_SandboxName = SandboxName (alloc_at pm1 ad),
      wa_ServiceFQDN = ServiceFQDN (alloc_at pm1 ad), wa_UserID = ti_UserID inp\<rparr>) r"
    using c al assms(1)
    by (auto simp: call_allocate_def single_attempt_def AllocateSandboxActivity_def split: prod.splits sum.splits)
  show ?thesis
  proof (cases r)
    case (Inl err)
    then show ?thesis using assms(2) c R1 al1 al by (simp add: CodingTaskWorkflow_def)
  next
    case (Inr ad)
    let ?alloc = "\<lparr>wa_SandboxName = SandboxName (alloc_at pm1 ad), wa_ServiceFQDN = ServiceFQDN (alloc_at pm1 ad),
      wa_UserID = ti_UserID inp\<rparr>"
    obtain res2 R2 where b: "workflow_body ?A inp t0 t1 ?alloc R1 = (res2, R2)" by (meson surj_pair)
    have "act_Pool (run_world R2) = Some pm1" by (rule world_kept_body [OF pool_kept b R1])
    then show ?thesis using assms(2) c al1 al Inr b
      by (auto simp: CodingTaskWorkflow_def call_release_def single_attempt_def ReleaseSandboxActivity_def split: prod.splits)
  qed
qed

text \<open>A sample run: the standalone activities, with a schema library that accepts everything, and a
  server that refuses every connection.\<close>

definition sample_lib :: SchemaLib where
  "sample_lib = \<lparr>sl_AddResource = (\<lambda>_. None), sl_Compile = (\<lambda>_. Inr (\<lambda>_. None)),
     sl_json_error = (\<lambda>_. Errorf ''invalid JSON'')\<rparr>"

definition no_server :: HttpClient where
  "no_server = \<lparr>hc_NewRequest = (\<lambda>_. None), hc_Do = (\<lambda>_. Inl (Errorf ''connection refused'')),
     hc_json_error = (\<lambda>_. Errorf ''invalid JSON''), hc_time_ok = (\<lambda>_. True)\<rparr>"

definition sample_standalone :: "MockSandboxProvider Activities ActivityCalls" where
  "sample_standalone = standalone_activities mock_provider (\<lambda>xs. xs) (sample_env 1000000 ''u1'') sample_lib"

definition sample_input :: TaskInput where
  "sample_input = \<lparr>ti_UserID = ''alice'', ti_Prompt = sample_doc, ti_OutputSchema = ''{}'', ti_Timeout = 0\<rparr>"

lemma standalone_validate: "ac_Validate (standalone_activities P ord e L) = ValidateOutputActivity L"
  by (intro ext) (simp add: standalone_activities_def standalone_ValidateOutput_def ValidateOutputActivity_def Let_def)

lemma sample_doc_value:
  "json_Unmarshal (compact_out sample_doc) = Some (JObj [(''a'', JArr [JNum ''1'', JNum ''2''])])"
  "numbers_in_range (JObj [(''a'', JArr [JNum ''1'', JNum ''2''])])"
proof -
  have "num_value ''1'' = (False, 1, 1)" "num_value ''2'' = (False, 2, 1)" by code_simp+
  then show "numbers_in_range (JObj [(''a'', JArr [JNum ''1'', JNum ''2''])])" by (simp add: f64_in_range_def)
qed code_simp

lemma sample_schema_value: "json_Unmarshal ''{}'' = Some (JObj [])"
  by code_simp

lemma sample_output: 
  "vr_Valid (ValidateWithFeedback sample_lib (''placeholder result for prompt: '' @ sample_doc) ''{}'')"
  "vr_Output (ValidateWithFeedback sample_lib (''placeholder result for prompt: '' @ sample_doc) ''{}'') = compact_out sample_doc"
proof -
  have "ExtractJSON (''placeholder result for prompt: '' @ sample_doc @ []) = Inr (compact_out sample_doc)"
    by (rule ExtractJSON_object) (simp_all add: sample_doc_valid, simp_all add: sample_doc_def HasPrefix_def)
  moreover have "Validate sample_lib (compact_out sample_doc) ''{}'' = None"
    using sample_doc_value sample_schema_value by (auto simp: Validate_None sample_lib_def)
  ultimately show "vr_Valid (ValidateWithFeedback sample_lib (''placeholder result for prompt: '' @ sample_doc) ''{}'')"
    and "vr_Output (ValidateWithFeedback sample_lib (''placeholder result for prompt: '' @ sample_doc) ''{}'') = compact_out sample_doc"
    by (simp_all add: ValidateWithFeedback_def)
qed

lemma sample_run_any:
  "fst (CodingTaskWorkflow sample_standalone (sample_input\<lparr>ti_Timeout := x\<rparr>) t0 t1 no_dependencies) =
     (\<lparr>to_SessionID = ''sess-1'', to_Result = compact_out sample_doc, to_Duration = time_sub t1 t0, to_TokensUsed = 0\<rparr>, None)"
proof -
  have "itoa (UnixMilli 1000000) = ''1''" by code_simp
  then show ?thesis
    by (simp add: CodingTaskWorkflow_def workflow_body_def sample_standalone_def standalone_activities_def
      sample_input_def call_allocate_def standalone_Allocate_def AllocateSandboxActivity_def no_dependencies_def
      call_create_session_def standalone_CreateSession_def call_execute_def standalone_ExecutePrompt_def
      call_validate_def standalone_ValidateOutput_def ValidateOutputActivity_def maxValidationRetries_def
      numeral_3_eq_3 Let_def sample_output sample_output [simplified] sample_env_def zero_output_def
      del: append_Cons)
qed

lemma sample_run:
  "fst (CodingTaskWorkflow sample_standalone sample_input 0 7 no_dependencies) =
     (\<lparr>to_SessionID = ''sess-1'', to_Result = compact_out sample_doc, to_Duration = 7, to_TokensUsed = 0\<rparr>, None)"
proof -
  have "time_sub 7 0 = 7" "sample_input\<lparr>ti_Timeout := 0\<rparr> = sample_input" by (code_simp, simp add: sample_input_def)
  then show ?thesis using sample_run_any [of 0 0 7] by simp
qed

text \<open>Where a successful result comes from.\<close>

lemma validated_result:
  assumes "CodingTaskWorkflow A inp t0 t1 w = ((out, None), R)"
    and "ac_Validate A = ValidateOutputActivity L"
  shows "if ti_OutputSchema inp \<noteq> []
    then \<exists>S check v. json_Unmarshal (ti_OutputSchema inp) = Some S \<and> sl_Compile L S = Inr check \<and>
           json_Unmarshal (to_Result out) = Some v \<and> check v = None
    else \<exists>t s r. filter is_execute (run_calls R) = [CallExecute t s (ti_Prompt inp) (Inr r)] \<and> to_Result out = er_Output r"
proof (cases rule: workflow_calls [OF assms(1)])
  case (2 alloc cs)
  show ?thesis
  proof (cases "ti_OutputSchema inp = []")
    case True
    with 2 show ?thesis by (auto simp: body_spec_def)
  next
    case False
    with 2(3) obtain x v where x: "cs \<noteq> []" "last cs = CallValidate x (ti_OutputSchema inp) (Inr v)"
      "to_Result out = er_Output v" by (auto simp: body_spec_def)
    then have "CallValidate x (ti_OutputSchema inp) (Inr v) \<in> set (run_calls R)"
      using 2(2) last_in_set [of cs] by auto
    then obtain a where "fst (ac_Validate A x (ti_OutputSchema inp) a) = Inr v"
      using recorded_workflow [OF assms(1)] unfolding recorded_def by blast
    then have "fst (ValidateOutputActivity L x (ti_OutputSchema inp) a) = Inr v" by (simp add: assms(2))
    note valid = ValidateOutput_Inr [OF this]
    show ?thesis using Valid_result [OF conjunct1 [OF valid]] valid x(3) False by simp
  qed
qed simp

section \<open>Properties\<close>

text \<open>C14: Every run of the workflow follows its protocol, whatever the activities return: it allocates once; if
  that fails it makes no other call; otherwise it creates one session, sends at most three prompts and
  validates at most three times, and its last call releases the sandbox that was allocated.\<close>

theorem workflow_protocol:
  assumes "CodingTaskWorkflow A inp t0 t1 w = ((out, err), R)"
  shows "(case fst (ac_Allocate A (ti_UserID inp) w) of
      Inl e \<Rightarrow> run_calls R = [CallAllocate (ti_UserID inp)] \<and> err = Some (Wrapf ''allocating sandbox: '' e)
    | Inr alloc \<Rightarrow> \<exists>cs. run_calls R = [CallAllocate (ti_UserID inp), CallCreateSession alloc] @ cs @
          (if wa_SandboxName alloc \<noteq> [] then [CallRelease (wa_SandboxName alloc)] else []) \<and>
        list_all (\<lambda>c. is_execute c \<or> is_validate c) cs \<and>
        length (filter is_execute cs) \<le> 3 \<and> length (filter is_validate cs) \<le> 3)"
  by (cases rule: workflow_calls [OF assms]) (auto simp: body_spec_def maxValidationRetries_def)

theorem workflow_protocol_witness:
  "\<exists>cs al. run_calls (snd (CodingTaskWorkflow sample_standalone sample_input 0 7 no_dependencies)) =
     [CallAllocate ''alice'', CallCreateSession al] @ cs @ [CallRelease ''sandbox-alice-1''] \<and>
     length (filter is_execute cs) \<le> 3 \<and> length (filter is_validate cs) \<le> 3"
proof -
  have al: "fst (ac_Allocate sample_standalone (ti_UserID sample_input) no_dependencies) =
      Inr \<lparr>wa_SandboxName = ''sandbox-alice-1'', wa_ServiceFQDN = ''sandbox-alice.opencode-scale.svc.cluster.local:4096'',
        wa_UserID = ''alice''\<rparr>" by code_simp
  have u: "ti_UserID sample_input = ''alice''" by (simp add: sample_input_def)
  show ?thesis
    using workflow_protocol [OF surjective_pairing [of "CodingTaskWorkflow sample_standalone sample_input 0 7 no_dependencies",
      unfolded sample_run]]
    unfolding al [unfolded u] u by auto
qed

text \<open>The token count of the output is the sum, modulo 64 bits, of the token counts of all prompts that
  were answered, on success and on failure alike.\<close>

theorem workflow_tokens:
  assumes "CodingTaskWorkflow A inp t0 t1 w = ((out, err), R)"
  shows "wrap64 (to_TokensUsed out) = wrap64 (execute_tokens (run_calls R))"
  by (cases rule: workflow_calls [OF assms]) (auto simp: body_spec_def zero_output_def)

theorem workflow_tokens_witness:
  "wrap64 (execute_tokens (run_calls (snd (CodingTaskWorkflow sample_standalone sample_input 0 7 no_dependencies)))) = 0"
  using workflow_tokens [OF surjective_pairing [of "CodingTaskWorkflow sample_standalone sample_input 0 7 no_dependencies",
      unfolded sample_run]] by (simp add: in_int64_def)

text \<open>C15: When a task asks for structured output and the workflow succeeds, its result is a JSON document that
  the compiled schema accepts; when it asks for none, the result is what the single prompt was answered
  with.\<close>

theorem workflow_result_validated:
  assumes "CodingTaskWorkflow A inp t0 t1 w = ((out, None), R)"
    and "ac_Validate A = ValidateOutputActivity L"
  shows "if ti_OutputSchema inp \<noteq> []
    then \<exists>S check v. json_Unmarshal (ti_OutputSchema inp) = Some S \<and> sl_Compile L S = Inr check \<and>
           json_Unmarshal (to_Result out) = Some v \<and> check v = None
    else \<exists>t s r. filter is_execute (run_calls R) = [CallExecute t s (ti_Prompt inp) (Inr r)] \<and> to_Result out = er_Output r"
  using assms by (rule validated_result)

theorem workflow_result_validated_witness:
  "ti_OutputSchema sample_input \<noteq> [] \<and>
   (\<exists>v. json_Unmarshal (to_Result (fst (fst (CodingTaskWorkflow sample_standalone sample_input 0 7 no_dependencies)))) = Some v)"
proof -
  have v: "ac_Validate sample_standalone = ValidateOutputActivity sample_lib"
    by (simp add: sample_standalone_def standalone_validate)
  have i: "ti_OutputSchema sample_input \<noteq> []" by (simp add: sample_input_def)
  with workflow_result_validated [OF surjective_pairing [of "CodingTaskWorkflow sample_standalone sample_input 0 7 no_dependencies",
      unfolded sample_run] v] show ?thesis unfolding sample_run by auto
qed

text \<open>A task run over the pool gives back what it took: when the provider deletes what it is asked to,
  the registry after the run is the registry before it without the sandbox the task had, whatever happened
  to the session, the prompts and the validation in between; a task that got no sandbox changes nothing in
  the registry.\<close>

theorem workflow_returns_sandbox:
  assumes "sandbox_provider P live ready" and "range_order ord" and "pool_inv live pm"
    and "ready (Suc k) (provider pm)" and "env_fresh e (store pm)"
    and "\<forall>n p. fst (DeleteSandbox P n p) = None" and "\<forall>p. [] \<notin> live p"
    and "act_Pool a = Some pm"
    and "CodingTaskWorkflow (single_attempt P ord e H L) inp t0 t1 a = (res, R)"
  shows "\<exists>pm'. act_Pool (run_world R) = Some pm' \<and>
    (case Allocate P ord e (ti_UserID inp) pm of
       (Inl err, pm1) \<Rightarrow> registry (store pm') = registry (store pm)
     | (Inr ad, pm1) \<Rightarrow> registry (store pm') = (registry (store pm))(SandboxName (alloc_at pm1 ad) := None))"
proof -
  obtain r pm1 where al: "Allocate P ord e (ti_UserID inp) pm = (r, pm1)" by (meson surj_pair)
  show ?thesis
  proof (cases r)
    case (Inl err)
    have "registry (store pm1) = registry (store pm)"
      using al Inl by (auto simp: Allocate_def claimIdle_None Let_def split: if_splits prod.splits sum.splits option.splits)
    then show ?thesis using workflow_pool [OF assms(8,9)] al Inl by simp
  next
    case (Inr ad)
    let ?x = "alloc_at pm1 ad"
    let ?n = "SandboxName ?x"
    note got = Allocate_returns [OF assms(1-5) al [unfolded Inr]]
    have inv: "pool_inv live pm1"
      using sandbox_provider.Allocate_inv(1) [OF assms(1-5) al] .
    have x: "registry (store pm1) ?n = Some ?x" using got by simp
    have "?n \<in> live (provider pm1)" using x inv unfolding pool_inv_def by blast
    then have n: "?n \<noteq> []" using assms(7) by metis
    obtain d pm2 where rel: "Release P ?n pm1 = (d, pm2)" by (meson surj_pair)
    note p = Release_present [OF pool_invD(1) [OF inv] x rel]
    have "d = None" using p(3) assms(6) by (metis fst_conv)
    then have "registry (store pm2) = (registry (store pm))(?n := None)" using p(4) got by simp
    then show ?thesis using workflow_pool [OF assms(8,9)] al Inr n rel by simp
  qed
qed

theorem workflow_returns_sandbox_witness:
  "\<exists>pm' :: MockSandboxProvider PoolManager.
     act_Pool (run_world (snd (CodingTaskWorkflow
       (single_attempt mock_provider (\<lambda>xs. xs) (sample_env 1 ''u1'') no_server sample_lib) sample_input 0 7
       \<lparr>act_Pool = Some (sample_pool 1), act_Metrics = None, act_heartbeats = []\<rparr>))) = Some pm' \<and>
     registry (store pm') ''mock-sandbox-1'' = None"
proof -
  have f: "env_fresh (sample_env 1 ''u1'') (store (sample_pool 1))"
    by (simp add: env_fresh_def sample_env_def sample_pool_def NewPoolManager_def)
  have d: "\<forall>n p. fst (DeleteSandbox mock_provider n p) = None" by (simp add: Mock_Delete_step)
  have l: "\<forall>p. [] \<notin> mock_live p" by (auto simp: mock_live_def)
  have al: "Allocate mock_provider (\<lambda>xs. xs) (sample_env 1 ''u1'') (ti_UserID sample_input) (sample_pool 1) =
      (Inr 0, snd (sample_alloc 1 ''u1'' (sample_pool 1)))"
    using sample_alloc_eq [of 1 1 "''u1''"] by (simp add: sample_alloc_def sample_input_def)
  have n: "SandboxName (alloc_at (snd (sample_alloc 1 ''u1'' (sample_pool 1))) 0) = ''mock-sandbox-1''"
    by (simp add: sample_alloc_eq alloc_at_def store_new_def active_alloc_def Let_def empty_store_def)
  let ?a = "\<lparr>act_Pool = Some (sample_pool 1), act_Metrics = None, act_heartbeats = []\<rparr>"
  have a: "act_Pool ?a = Some (sample_pool 1)" by simp
  show ?thesis
    using workflow_returns_sandbox [OF mock.sandbox_provider_axioms range_order_id sample_pool_inv sample_pool_ready f d l a
      surjective_pairing, where H = no_server and L = sample_lib and inp = sample_input and ?t0.0 = 0 and ?t1.0 = 7]
    unfolding al by (auto simp: n)
qed

end
