(* ===== verification/Activity_Retries.thy ===== *)
theory Activity_Retries
  imports Coding_Workflow
begin

text \<open>
  The options with which \<^verbatim>\<open>internal/workflow/task.go\<close> runs its activities, and what the retries of the workflow engine
  make of a task.

  The engine is third-party code.  \<open>activity_run\<close> states its documented behaviour: an activity is run in attempts, an
  attempt that fails is repeated unless the attempts are used up or the type of the error is listed as not
  retryable, and the result of an attempt may get lost (the worker dies, or the attempt exceeds its time),
  in which case it is repeated too, whatever it has done.  Only a call that can be cancelled may end without a last attempt.
\<close>

section \<open>Definitions\<close>

text \<open>The coefficients in the source are whole numbers; a field that is not set is zero.\<close>

record RetryPolicy =
  ry_MaximumAttempts :: int
  ry_InitialInterval :: int
  ry_BackoffCoefficient :: int
  ry_NonRetryableErrorTypes :: "string list"

record ActivityOptions =
  ao_StartToCloseTimeout :: int
  ao_HeartbeatTimeout :: int
  ao_RetryPolicy :: RetryPolicy

definition retry_policy :: "int \<Rightarrow> int \<Rightarrow> int \<Rightarrow> string list \<Rightarrow> RetryPolicy" where
  "retry_policy attempts interval backoff types =
     \<lparr>ry_MaximumAttempts = attempts, ry_InitialInterval = interval, ry_BackoffCoefficient = backoff, ry_NonRetryableErrorTypes = types\<rparr>"

definition release_options :: ActivityOptions where
  "release_options = \<lparr>ao_StartToCloseTimeout = 5 * Minute, ao_HeartbeatTimeout = 0, ao_RetryPolicy = retry_policy 3 (5 * Second) 2 []\<rparr>"

definition alloc_options :: ActivityOptions where
  "alloc_options = \<lparr>ao_StartToCloseTimeout = 5 * Minute, ao_HeartbeatTimeout = 0,
     ao_RetryPolicy = retry_policy 3 (5 * Second) 2 [''pool: all sandbox slots are in use'']\<rparr>"

definition session_options :: ActivityOptions where
  "session_options = \<lparr>ao_StartToCloseTimeout = 5 * Minute, ao_HeartbeatTimeout = 0, ao_RetryPolicy = retry_policy 3 (2 * Second) 2 []\<rparr>"

definition exec_options :: "TaskInput \<Rightarrow> ActivityOptions" where
  "exec_options inp = \<lparr>ao_StartToCloseTimeout = exec_timeout inp, ao_HeartbeatTimeout = 1 * Minute, ao_RetryPolicy = retry_policy 1 0 0 []\<rparr>"

definition validate_options :: ActivityOptions where
  "validate_options = \<lparr>ao_StartToCloseTimeout = 1 * Minute, ao_HeartbeatTimeout = 0, ao_RetryPolicy = retry_policy 1 0 0 []\<rparr>"

subsection \<open>Documented behaviour of the engine\<close>

text \<open>Zero attempts stand for no limit.  \<open>ty\<close> gives the type that the engine sees of an error.\<close>

definition attempts_left :: "ActivityOptions \<Rightarrow> nat \<Rightarrow> bool" where
  "attempts_left opts n \<longleftrightarrow> ry_MaximumAttempts (ao_RetryPolicy opts) = 0 \<or> int n < ry_MaximumAttempts (ao_RetryPolicy opts)"

definition retried :: "(go_error \<Rightarrow> string) \<Rightarrow> ActivityOptions \<Rightarrow> nat \<Rightarrow> go_error \<Rightarrow> bool" where
  "retried ty opts n e \<longleftrightarrow> attempts_left opts n \<and> ty e \<notin> set (ry_NonRetryableErrorTypes (ao_RetryPolicy opts))"

text \<open>
  \<open>activity_run ty opts lossy cancel act n w r w' k\<close>: the call, about to make attempt \<open>n\<close> in the world \<open>w\<close>, ends with the
  result \<open>r\<close> in the world \<open>w'\<close> after \<open>k\<close> runs of the activity.  Errors reach the workflow in an error of the engine.
\<close>

inductive activity_run ::
  "(go_error \<Rightarrow> string) \<Rightarrow> ActivityOptions \<Rightarrow> bool \<Rightarrow> bool \<Rightarrow> (nat \<Rightarrow> 'w \<Rightarrow> (go_error + 'a) \<times> 'w) \<Rightarrow>
   nat \<Rightarrow> 'w \<Rightarrow> go_error + 'a \<Rightarrow> 'w \<Rightarrow> nat \<Rightarrow> bool"
  for ty opts lossy cancel act where
  run_done: "act n w = (Inr v, w') \<Longrightarrow> activity_run ty opts lossy cancel act n w (Inr v) w' 1"
| run_failed: "act n w = (Inl e, w') \<Longrightarrow> \<not> retried ty opts n e \<Longrightarrow> activity_run ty opts lossy cancel act n w (Inl e') w' 1"
| run_retried: "act n w = (Inl e, w1) \<Longrightarrow> retried ty opts n e \<Longrightarrow> activity_run ty opts lossy cancel act (Suc n) w1 r w' k \<Longrightarrow>
    activity_run ty opts lossy cancel act n w r w' (Suc k)"
| run_lost: "lossy \<Longrightarrow> act n w = (r0, w1) \<Longrightarrow> attempts_left opts n \<Longrightarrow> activity_run ty opts lossy cancel act (Suc n) w1 r w' k \<Longrightarrow>
    activity_run ty opts lossy cancel act n w r w' (Suc k)"
| run_lost_last: "lossy \<Longrightarrow> act n w = (r0, w1) \<Longrightarrow> \<not> attempts_left opts n \<Longrightarrow>
    activity_run ty opts lossy cancel act n w (Inl e') w1 1"
| run_missed: "lossy \<Longrightarrow> attempts_left opts n \<Longrightarrow> activity_run ty opts lossy cancel act (Suc n) w r w' k \<Longrightarrow>
    activity_run ty opts lossy cancel act n w r w' k"
| run_missed_last: "lossy \<Longrightarrow> \<not> attempts_left opts n \<Longrightarrow> activity_run ty opts lossy cancel act n w (Inl e') w 0"
| run_cancelled: "cancel \<Longrightarrow> activity_run ty opts lossy cancel act n w (Inl e') w 0"

text \<open>\<open>attempts_ok\<close>: the calls of \<open>A\<close> are runs of the activities with the options of the workflow.  The network may
  answer each attempt in a different way.  \<open>lossy\<close> says whether results of the allocation can get lost; those of
  the other activities always can.  The release runs in a disconnected context, which cannot be cancelled.\<close>

definition as_result :: "go_error option \<times> 'w \<Rightarrow> (go_error + unit) \<times> 'w" where
  "as_result r = (case r of (None, w) \<Rightarrow> (Inr (), w) | (Some e, w) \<Rightarrow> (Inl e, w))"

definition attempts_ok ::
  "(go_error \<Rightarrow> string) \<Rightarrow> bool \<Rightarrow> 'p SandboxProvider \<Rightarrow> map_order \<Rightarrow> (nat \<Rightarrow> CallEnv) \<Rightarrow> SchemaLib \<Rightarrow> TaskInput \<Rightarrow>
   'p Activities ActivityCalls \<Rightarrow> bool" where
  "attempts_ok ty lossy P ord env L inp A \<longleftrightarrow>
     (\<forall>u a r a'. ac_Allocate A u a = (r, a') \<longrightarrow>
        (\<exists>k. activity_run ty alloc_options lossy True (\<lambda>n. AllocateSandboxActivity P ord (env n) u) 1 a r a' k)) \<and>
     (\<forall>al a r a'. ac_CreateSession A al a = (r, a') \<longrightarrow>
        (\<exists>H k. activity_run ty session_options True True (\<lambda>n. CreateSessionActivity (H n) al) 1 a r a' k)) \<and>
     (\<forall>t s p a r a'. ac_Execute A t s p a = (r, a') \<longrightarrow>
        (\<exists>H k. activity_run ty (exec_options inp) True True (\<lambda>n. ExecutePromptActivity (H n) s p) 1 a r a' k)) \<and>
     (\<forall>x sch a r a'. ac_Validate A x sch a = (r, a') \<longrightarrow>
        (\<exists>k. activity_run ty validate_options True True (\<lambda>n. ValidateOutputActivity L x sch) 1 a r a' k)) \<and>
     (\<forall>n a e a'. ac_Release A n a = (e, a') \<longrightarrow>
        (\<exists>k. activity_run ty release_options True False (\<lambda>i a. as_result (ReleaseSandboxActivity P n a)) 1 a
               (fst (as_result (e, a'))) a' k))"

text \<open>An engine that loses the result of the first attempt to allocate, for examples.\<close>

definition lost_first ::
  "'p SandboxProvider \<Rightarrow> map_order \<Rightarrow> (nat \<Rightarrow> CallEnv) \<Rightarrow> HttpClient \<Rightarrow> SchemaLib \<Rightarrow> 'p Activities ActivityCalls" where
  "lost_first P ord env H L =
     (single_attempt P ord (env 1) H L)
       \<lparr>ac_Allocate := \<lambda>u a. AllocateSandboxActivity P ord (env 2) u (snd (AllocateSandboxActivity P ord (env 1) u a)),
        ac_Release := \<lambda>n a. ReleaseSandboxActivity P n a\<rparr>"

definition sample_activities :: "int \<Rightarrow> MockSandboxProvider Activities" where
  "sample_activities maxSz = \<lparr>act_Pool = Some (sample_pool maxSz), act_Metrics = None, act_heartbeats = []\<rparr>"

definition sample_envs2 :: "nat \<Rightarrow> CallEnv" where
  "sample_envs2 i = sample_env (int i) (CHR ''u'' # itoa (int i))"

definition sample_lossy :: "MockSandboxProvider Activities ActivityCalls" where
  "sample_lossy = lost_first mock_provider (\<lambda>xs. xs) sample_envs2 no_server sample_lib"

section \<open>Lemmas\<close>

lemma attempts_left_options [simp]:
  "attempts_left alloc_options n \<longleftrightarrow> n < 3" "attempts_left session_options n \<longleftrightarrow> n < 3" "attempts_left release_options n \<longleftrightarrow> n < 3"
  "attempts_left (exec_options inp) n \<longleftrightarrow> n < 1" "attempts_left validate_options n \<longleftrightarrow> n < 1"
  by (auto simp: attempts_left_def alloc_options_def session_options_def release_options_def exec_options_def
      validate_options_def retry_policy_def)

text \<open>The number of runs is bounded by the attempts.\<close>

lemma activity_run_bound:
  "activity_run ty opts lossy cancel act n w r w' k \<Longrightarrow> (\<forall>i. attempts_left opts i \<longleftrightarrow> i < m) \<Longrightarrow> n \<le> m \<Longrightarrow> k + n \<le> Suc m"
  by (induction rule: activity_run.induct) (auto simp: retried_def)

lemma activity_run_inv:
  "activity_run ty opts lossy cancel act n w r w' k \<Longrightarrow> (\<And>i v. I v \<Longrightarrow> I (snd (act i v))) \<Longrightarrow> I w \<Longrightarrow> I w'"
  by (induction rule: activity_run.induct) (metis snd_conv)+

lemma attempts_okD:
  assumes "attempts_ok ty lossy P ord env L inp A"
  shows "ac_Allocate A u a = (r1, a') \<Longrightarrow>
      \<exists>k. activity_run ty alloc_options lossy True (\<lambda>n. AllocateSandboxActivity P ord (env n) u) 1 a r1 a' k"
    "ac_Release A n a = (e, a') \<Longrightarrow>
      \<exists>k. activity_run ty release_options True False (\<lambda>i a. as_result (ReleaseSandboxActivity P n a)) 1 a (fst (as_result (e, a'))) a' k"
  using assms unfolding attempts_ok_def by simp_all

lemma run_keeps:
  assumes "activity_run ty opts lossy cancel act n w r w' k" and "\<And>i v. f (snd (act i v)) = f v"
  shows "f w' = f w"
  using activity_run_inv [OF assms(1), where I = "\<lambda>v. f v = f w"] assms(2) by simp

lemma attempts_keep_pool:
  assumes "attempts_ok ty lossy P ord env L inp A"
  shows "world_kept (\<lambda>a. act_Pool a = Some pm) A"
proof -
  have c: "act_Pool (snd (CreateSessionActivity H al v)) = act_Pool v" "act_Pool (snd (ExecutePromptActivity H s p v)) = act_Pool v"
    "act_Pool (snd (ValidateOutputActivity L x sch v)) = act_Pool v" for H al s p x sch v
    by (auto simp: CreateSessionActivity_def ExecutePromptActivity_def ValidateOutputActivity_def heartbeat_all_def Let_def
        split: sum.splits prod.splits)
  have "\<forall>al w. act_Pool (snd (ac_CreateSession A al w)) = act_Pool w"
    using assms unfolding attempts_ok_def by (metis run_keeps [where f = act_Pool] c(1) surjective_pairing)
  moreover have "\<forall>t se p w. act_Pool (snd (ac_Execute A t se p w)) = act_Pool w"
    using assms unfolding attempts_ok_def by (metis run_keeps [where f = act_Pool] c(2) surjective_pairing)
  moreover have "\<forall>x sch w. act_Pool (snd (ac_Validate A x sch w)) = act_Pool w"
    using assms unfolding attempts_ok_def by (metis run_keeps [where f = act_Pool] c(3) surjective_pairing)
  ultimately show ?thesis by (simp add: world_kept_def)
qed

text \<open>A failed attempt to allocate leaves the cache as it was.\<close>

lemma Allocate_error_store: "Allocate P ord e u pm = (Inl err, pm') \<Longrightarrow> store pm' = store pm"
  by (auto simp: Allocate_def claimIdle_None Let_def split: if_splits prod.splits sum.splits option.splits)

lemma alloc_run_effect:
  assumes "activity_run ty opts False cancel (\<lambda>n. AllocateSandboxActivity P ord (env n) u) n a r a' k"
    and "sandbox_provider P live ready" "range_order ord" "\<forall>p. [] \<notin> live p"
    and "act_Pool a = Some pm" "pool_inv live pm" "ready j (provider pm)" "k \<le> j" "\<forall>i. env_fresh (env i) (store pm)"
  shows "\<exists>pm'. act_Pool a' = Some pm' \<and> store_ok (store pm') \<and>
    (case r of Inl _ \<Rightarrow> store pm' = store pm
     | Inr al \<Rightarrow> wa_SandboxName al \<noteq> [] \<and> (\<exists>x. registry (store pm') = (registry (store pm))(wa_SandboxName al \<mapsto> x)))"
  using assms(1,5-9)
proof (induction arbitrary: pm j rule: activity_run.induct)
  case (run_done n w v w')
  then obtain j' where j: "j = Suc j'" by (cases j) auto
  obtain ad pm1 where al: "Allocate P ord (env n) u pm = (Inr ad, pm1)" and v: "wa_SandboxName v = SandboxName (alloc_at pm1 ad)"
    and w': "act_Pool w' = Some pm1"
    using run_done by (auto simp: AllocateSandboxActivity_def split: prod.splits sum.splits)
  note e = run_done.prems(3) [unfolded j] run_done.prems(5) [rule_format, of n]
  note got = Allocate_returns [OF assms(2,3) run_done.prems(2) e al]
  have inv: "pool_inv live pm1" by (rule sandbox_provider.Allocate_inv(1) [OF assms(2,3) run_done.prems(2) e al])
  moreover from got have "registry (store pm1) (wa_SandboxName v) = Some (alloc_at pm1 ad)" by (simp add: v)
  ultimately have "wa_SandboxName v \<in> live (provider pm1)" unfolding pool_inv_def by blast
  then have "wa_SandboxName v \<noteq> []" using assms(4) by metis
  with inv got w' v show ?case by (auto simp: pool_invD)
next
  case (run_failed n w e w' e')
  then obtain j' err pm1 where j: "j = Suc j'" and al: "Allocate P ord (env n) u pm = (Inl err, pm1)" and w': "act_Pool w' = Some pm1"
    by (cases j) (auto simp: AllocateSandboxActivity_def split: prod.splits sum.splits)
  with Allocate_error_store [OF al] run_failed.prems(2) show ?case by (auto simp: pool_invD)
next
  case (run_retried n w e w1 r w' k)
  then obtain j' err pm1 where j: "j = Suc j'" and al: "Allocate P ord (env n) u pm = (Inl err, pm1)" and w1: "act_Pool w1 = Some pm1"
    by (cases j) (auto simp: AllocateSandboxActivity_def split: prod.splits sum.splits)
  note st = Allocate_error_store [OF al]
  note e = run_retried.prems(3) [unfolded j] run_retried.prems(5) [rule_format, of n]
  note inv = sandbox_provider.Allocate_inv(1,2) [OF assms(2,3) run_retried.prems(2) e al]
  from run_retried.IH [OF w1 inv, unfolded st] run_retried.prems(4,5) j show ?case by simp
next
  case (run_cancelled n w e')
  then show ?case by (auto simp: pool_invD)
qed simp_all

text \<open>What an attempt to allocate does to the pool: it takes an idle or a new sandbox and leaves every other entry alone.\<close>

lemma Allocate_target:
  assumes "sandbox_provider P live ready" "range_order ord" "pool_inv live pm" "ready (Suc k) (provider pm)" "env_fresh e (store pm)"
    and "Allocate P ord e u pm = (Inr ad, pm')" "registry (store pm) (SandboxName (alloc_at pm' ad)) = Some y"
  shows "Status y = StatusIdle"
  using assms(6)
proof (cases rule: Allocate_success_cases)
  case claim
  obtain n x where "registry (store pm) n = Some x" "Status x = StatusIdle" "SandboxName x = n" "alloc_at pm' ad = claimed e u x"
    by (rule claimIdle_Some [OF assms(2,3,5) claim])
  then show ?thesis using assms(7) by (simp add: claimed_def)
next
  case (new n f p')
  have "SandboxName (alloc_at pm' ad) = n" using new by (simp add: alloc_at_def store_new_def Let_def active_alloc_def)
  moreover have "n \<notin> live (provider pm)" using sandbox_provider.create_fresh [OF assms(1,4) new(3)] by blast
  ultimately show ?thesis using assms(3,7) unfolding pool_inv_def by blast
qed

definition taken_by :: "string \<Rightarrow> CallEnv \<Rightarrow> Allocation \<Rightarrow> bool" where
  "taken_by u e x \<longleftrightarrow> Status x = StatusActive \<and> UserID x = u \<and> SessionID x = env_uuid e"

lemma alloc_attempt:
  assumes "AllocateSandboxActivity P ord e u a = (r, a1)" "sandbox_provider P live ready" "range_order ord"
    and "act_Pool a = Some pm" "pool_inv live pm" "ready (Suc j) (provider pm)" "env_fresh e (store pm)"
  obtains pm1 where "act_Pool a1 = Some pm1" "pool_inv live pm1" "ready j (provider pm1)"
    and "\<And>e'. env_fresh e' (store pm) \<Longrightarrow> env_uuid e' \<noteq> env_uuid e \<Longrightarrow> env_fresh e' (store pm1)"
    and "\<And>m x. registry (store pm) m = Some x \<Longrightarrow> Status x \<noteq> StatusIdle \<Longrightarrow>
      registry (store pm1) m = Some x \<and> (\<forall>al. r = Inr al \<longrightarrow> wa_SandboxName al \<noteq> m)"
    and "\<And>al. r = Inr al \<Longrightarrow> wa_SandboxName al \<in> live (provider pm1) \<and>
      (\<exists>x. registry (store pm1) (wa_SandboxName al) = Some x \<and> taken_by u e x)"
proof -
  obtain res pm1 where al: "Allocate P ord e u pm = (res, pm1)" by (meson surj_pair)
  have a1: "act_Pool a1 = Some pm1" using assms(1,4) al by (auto simp: AllocateSandboxActivity_def split: sum.splits)
  note inv = sandbox_provider.Allocate_inv(1,2) [OF assms(2,3,5,6,7) al]
  show ?thesis
  proof (cases res)
    case (Inl err)
    then have "store pm1 = store pm" "\<nexists>al. r = Inr al"
      using al Allocate_error_store assms(1,4) by (auto simp: AllocateSandboxActivity_def)
    with a1 inv show ?thesis by (intro that [of pm1]) auto
  next
    case (Inr ad)
    then have al': "Allocate P ord e u pm = (Inr ad, pm1)" using al by simp
    let ?x = "alloc_at pm1 ad"
    have r: "\<exists>al. r = Inr al \<and> wa_SandboxName al = SandboxName ?x"
      using assms(1,4) al' by (auto simp: AllocateSandboxActivity_def)
    note got = Allocate_returns [OF assms(2,3,5-7) al'] and tgt = Allocate_target [OF assms(2,3,5-7) al']
    have reg: "registry (store pm1) (SandboxName ?x) = Some ?x" using got by simp
    then have "SandboxName ?x \<in> live (provider pm1)" using inv(1) unfolding pool_inv_def by blast
    with a1 inv r got tgt reg show ?thesis
      by (intro that [of pm1]) (auto simp: env_fresh_def taken_by_def)
  qed
qed

lemma alloc_run_keeps:
  assumes "activity_run ty opts lossy cancel (\<lambda>n. AllocateSandboxActivity P ord (env n) u) n a r a' k"
    and "sandbox_provider P live ready" "range_order ord" "inj (\<lambda>i. env_uuid (env i))"
    and "act_Pool a = Some pm" "pool_inv live pm" "ready j (provider pm)" "k \<le> j" "\<forall>i \<ge> n. env_fresh (env i) (store pm)"
    and "registry (store pm) m = Some x" "Status x \<noteq> StatusIdle"
  shows "\<exists>pm'. act_Pool a' = Some pm' \<and> pool_inv live pm' \<and> registry (store pm') m = Some x \<and>
    (\<forall>al. r = Inr al \<longrightarrow> wa_SandboxName al \<noteq> m \<and> wa_SandboxName al \<in> live (provider pm'))"
proof -
  have uuid: "env_uuid (env i) \<noteq> env_uuid (env n)" if "i \<noteq> n" for i n using that assms(4) by (auto dest: injD)
  show ?thesis
    using assms(1,5-11)
  proof (induction arbitrary: pm j rule: activity_run.induct)
    case (run_done n w v w')
    from run_done.prems(3,4) obtain j' where "ready (Suc j') (provider pm)" by (cases j) auto
    with run_done.prems run_done.hyps show ?case by (elim alloc_attempt [OF _ assms(2,3)]) auto
  next
    case (run_failed n w e w' e')
    from run_failed.prems(3,4) obtain j' where "ready (Suc j') (provider pm)" by (cases j) auto
    with run_failed.prems run_failed.hyps(1) show ?case by (elim alloc_attempt [OF _ assms(2,3)]) auto
  next
    case (run_retried n w e w1 r w' k)
    from run_retried.prems(3,4) obtain j' where j: "ready (Suc j') (provider pm)" "k \<le> j'" by (cases j) auto
    from run_retried.prems(5) have "env_fresh (env n) (store pm)" by simp
    from alloc_attempt [OF run_retried.hyps(1) assms(2,3) run_retried.prems(1,2) j(1) this] obtain pm1 where
      p: "act_Pool w1 = Some pm1" "pool_inv live pm1" "ready j' (provider pm1)" "registry (store pm1) m = Some x"
      "\<forall>i \<ge> Suc n. env_fresh (env i) (store pm1)"
      using run_retried.prems(5-7) uuid by (metis Suc_leD Suc_n_not_le_n)
    show ?case by (rule run_retried.IH [OF p(1-3) j(2) p(5,4) run_retried.prems(7)])
  next
    case (run_lost n w r0 w1 r w' k)
    from run_lost.prems(3,4) obtain j' where j: "ready (Suc j') (provider pm)" "k \<le> j'" by (cases j) auto
    from run_lost.prems(5) have "env_fresh (env n) (store pm)" by simp
    from alloc_attempt [OF run_lost.hyps(2) assms(2,3) run_lost.prems(1,2) j(1) this] obtain pm1 where
      p: "act_Pool w1 = Some pm1" "pool_inv live pm1" "ready j' (provider pm1)" "registry (store pm1) m = Some x"
      "\<forall>i \<ge> Suc n. env_fresh (env i) (store pm1)"
      using run_lost.prems(5-7) uuid by (metis Suc_leD Suc_n_not_le_n)
    show ?case by (rule run_lost.IH [OF p(1-3) j(2) p(5,4) run_lost.prems(7)])
  next
    case (run_lost_last n w r0 w1 e')
    from run_lost_last.prems(3,4) obtain j' where "ready (Suc j') (provider pm)" by (cases j) auto
    with run_lost_last.prems run_lost_last.hyps(2) show ?case by (elim alloc_attempt [OF _ assms(2,3)]) auto
  next
    case (run_missed n w r w' k)
    then show ?case by simp
  qed auto
qed

lemma release_attempt:
  assumes "ReleaseSandboxActivity P n a = (e, a1)" "act_Pool a = Some pm" "store_ok (store pm)"
  shows "\<exists>pm1. act_Pool a1 = Some pm1 \<and> store_ok (store pm1) \<and> (\<forall>m. m \<noteq> n \<longrightarrow> registry (store pm1) m = registry (store pm) m) \<and>
    (e = None \<longrightarrow> registry (store pm1) n = None)"
proof -
  obtain pm1 where r: "Release P n pm = (e, pm1)" and a1: "act_Pool a1 = Some pm1"
    using assms(1,2) by (auto simp: ReleaseSandboxActivity_def split: prod.splits)
  show ?thesis
  proof (cases "registry (store pm) n")
    case None
    with r a1 assms(3) show ?thesis by (simp add: Release_absent)
  next
    case (Some x)
    note Release_present [OF assms(3) Some r]
    with a1 show ?thesis by simp
  qed
qed

lemma release_run_effect:
  "activity_run ty opts lossy cancel (\<lambda>i a. as_result (ReleaseSandboxActivity P n a)) i a r a' k \<Longrightarrow>
   act_Pool a = Some pm \<Longrightarrow> store_ok (store pm) \<Longrightarrow>
   \<exists>pm'. act_Pool a' = Some pm' \<and> (\<forall>m. m \<noteq> n \<longrightarrow> registry (store pm') m = registry (store pm) m) \<and>
     (r = Inr () \<longrightarrow> registry (store pm') n = None)"
proof (induction arbitrary: pm rule: activity_run.induct)
  case (run_done i w v w')
  then show ?case using release_attempt [of P n w None w' pm] by (auto simp: as_result_def split: prod.splits option.splits)
next
  case (run_failed i w e w' e')
  then show ?case using release_attempt [of P n w "Some e" w' pm] by (auto simp: as_result_def split: prod.splits option.splits)
next
  case (run_retried i w e w1 r w' k)
  then have "ReleaseSandboxActivity P n w = (Some e, w1)" by (auto simp: as_result_def split: prod.splits option.splits)
  from release_attempt [OF this run_retried.prems] run_retried.IH show ?case by fastforce
next
  case (run_lost i w r0 w1 r w' k)
  then obtain e where "ReleaseSandboxActivity P n w = (e, w1)" by (auto simp: as_result_def split: prod.splits option.splits)
  from release_attempt [OF this run_lost.prems] run_lost.IH show ?case by fastforce
next
  case (run_lost_last i w r0 w1 e')
  then obtain e where "ReleaseSandboxActivity P n w = (e, w1)" by (auto simp: as_result_def split: prod.splits option.splits)
  from release_attempt [OF this run_lost_last.prems] show ?case by auto
qed auto

text \<open>The mock provider never refuses a deletion.\<close>

lemma mock_Release_done: "fst (Release mock_provider n pm) = None"
  by (auto simp: Release_def Mock_Delete_step Let_def split: option.split)

text \<open>Between allocation and release the pool does not change.\<close>

lemma workflow_world:
  assumes "attempts_ok ty lossy P ord env L inp A" "ac_Allocate A (ti_UserID inp) a = (Inr al, a1)" "act_Pool a1 = Some pm1"
    and "wa_SandboxName al \<noteq> []" "CodingTaskWorkflow A inp t0 t1 a = (res, R)"
  obtains w where "act_Pool w = Some pm1" "run_world R = snd (ac_Release A (wa_SandboxName al) w)"
proof -
  let ?R = "\<lparr>run_world = a1, run_calls = [CallAllocate (ti_UserID inp)]\<rparr>"
  obtain res2 R2 where b: "workflow_body A inp t0 t1 al ?R = (res2, R2)" by (meson surj_pair)
  have "act_Pool (run_world R2) = Some pm1"
    using world_kept_body [OF attempts_keep_pool [OF assms(1)] b] assms(3) by simp
  moreover have "run_world R = snd (ac_Release A (wa_SandboxName al) (run_world R2))"
    using assms(2,4,5) b by (auto simp: CodingTaskWorkflow_def call_allocate_def call_release_def split: prod.splits)
  ultimately show ?thesis by (rule that)
qed

text \<open>Engines: one attempt per call that is cancelled when it fails, and one that loses the first allocation.\<close>

lemma run_once: "act n w = (r, w') \<Longrightarrow> \<exists>k. activity_run ty opts lossy True act n w r w' k"
  by (cases r) (metis run_done run_failed run_retried run_cancelled)+

lemma release_once:
  assumes "act 1 w = (r, w')"
  shows "\<exists>k. activity_run ty release_options True False act 1 w r w' k"
proof (cases r)
  case (Inl e)
  have "activity_run ty release_options True False act (Suc (Suc 1)) w' (Inl e) w' 0" by (rule run_missed_last) simp_all
  then have "activity_run ty release_options True False act (Suc 1) w' (Inl e) w' 0" by (rule run_missed [rotated 2]) simp_all
  note missed = this
  have a: "act 1 w = (Inl e, w')" using assms Inl by simp
  show ?thesis
  proof (cases "retried ty release_options 1 e")
    case True
    show ?thesis unfolding Inl by (rule exI) (rule run_retried [of act, OF a True missed])
  next
    case False
    show ?thesis unfolding Inl by (rule exI) (rule run_failed [of act, OF a False])
  qed
next
  case (Inr v)
  with assms show ?thesis by (metis run_done)
qed

lemma as_result_collapse: "as_result x = (fst (as_result x), snd x)"
  by (simp add: as_result_def split: prod.split option.split)

lemma release_call: "ReleaseSandboxActivity P n a = (e, a') \<Longrightarrow>
    \<exists>k. activity_run ty release_options True False (\<lambda>i a. as_result (ReleaseSandboxActivity P n a)) 1 a (fst (as_result (e, a'))) a' k"
  by (rule release_once) (metis as_result_collapse snd_conv)

lemma single_attempt_ok: "attempts_ok ty lossy P ord env L inp (single_attempt P ord (env 1) H L)"
  unfolding attempts_ok_def single_attempt_def ActivityCalls.simps
  by (intro conjI allI impI release_call; (rule exI [of _ "\<lambda>_. H"])?; (rule run_once)?) simp_all

lemma lost_first_ok: "attempts_ok ty True P ord env L inp (lost_first P ord env H L)"
proof -
  have "\<exists>k. activity_run ty alloc_options True True (\<lambda>n. AllocateSandboxActivity P ord (env n) u) 1 a r a' k"
    if "AllocateSandboxActivity P ord (env 2) u (snd (AllocateSandboxActivity P ord (env 1) u a)) = (r, a')" for u a r a'
  proof -
    let ?act = "\<lambda>n. AllocateSandboxActivity P ord (env n) u"
    have "?act (Suc 1) (snd (?act 1 a)) = (r, a')" using that by (simp add: numeral_2_eq_2)
    from run_once [of ?act, OF this] obtain k where "activity_run ty alloc_options True True ?act (Suc 1) (snd (?act 1 a)) r a' k" by blast
    from run_lost [OF _ _ _ this] show ?thesis by (metis attempts_left_options(1) one_less_numeral_iff semiring_norm(77) surjective_pairing)
  qed
  with single_attempt_ok [of ty True P ord env L inp H] show ?thesis
    by (simp add: attempts_ok_def lost_first_def single_attempt_def)
qed

lemma sample_lossy_ok: "attempts_ok ty True mock_provider (\<lambda>xs. xs) sample_envs2 sample_lib sample_input sample_lossy"
  unfolding sample_lossy_def by (rule lost_first_ok)

lemma sample_envs2_inj: "inj (\<lambda>i. env_uuid (sample_envs2 i))"
  by (rule injI) (simp add: sample_envs2_def sample_env_def itoa_inject)

lemma sample_first_attempt:
  "\<exists>lost a1. AllocateSandboxActivity mock_provider (\<lambda>xs. xs) (sample_envs2 1) (ti_UserID sample_input) (sample_activities 2) =
     (Inr lost, a1) \<and> wa_SandboxName lost = ''mock-sandbox-1''"
proof -
  have "itoa 1 = ''1''" by code_simp
  then have e: "sample_envs2 1 = sample_env 1 ''u1''" by (simp add: sample_envs2_def)
  show ?thesis
    unfolding e using sample_alloc_eq [of 2 1 "''u1''"]
    by (simp add: sample_alloc_def sample_input_def AllocateSandboxActivity_def sample_activities_def
        alloc_at_def store_new_def active_alloc_def Let_def empty_store_def)
qed

section \<open>Properties\<close>

text \<open>C6: The sandbox of a task is given back in spite of retries.  Let the engine retry each activity as the workflow tells it
  to, with results lost in all activities but the allocation.  Then a task that gets no sandbox leaves the registry of
  the pool as it was.  A task that gets one touches no other entry, ends with the release of it, and when this release is
  reported as done, the registry is as before without that sandbox, even if attempts to release it failed or
  their results were lost.\<close>

theorem task_returns_sandbox_despite_retries:
  assumes "sandbox_provider P live ready" "range_order ord" "pool_inv live pm" "ready 3 (provider pm)" "\<forall>p. [] \<notin> live p"
    and "\<forall>i. env_fresh (env i) (store pm)" "act_Pool a = Some pm" "attempts_ok ty False P ord env L inp A"
    and "CodingTaskWorkflow A inp t0 t1 a = (res, R)"
  shows "\<exists>pm'. act_Pool (run_world R) = Some pm' \<and>
    (case fst (ac_Allocate A (ti_UserID inp) a) of
       Inl _ \<Rightarrow> registry (store pm') = registry (store pm)
     | Inr al \<Rightarrow> (\<forall>m. m \<noteq> wa_SandboxName al \<longrightarrow> registry (store pm') m = registry (store pm) m) \<and>
         (\<exists>w. run_world R = snd (ac_Release A (wa_SandboxName al) w) \<and>
            (fst (ac_Release A (wa_SandboxName al) w) = None \<longrightarrow>
               registry (store pm') = (registry (store pm))(wa_SandboxName al := None))))"
proof -
  obtain r a1 where al: "ac_Allocate A (ti_UserID inp) a = (r, a1)" by (meson surj_pair)
  then obtain k where run: "activity_run ty alloc_options False True (\<lambda>n. AllocateSandboxActivity P ord (env n) (ti_UserID inp)) 1 a r a1 k"
    using attempts_okD(1) [OF assms(8)] by metis
  have "k \<le> 3" using activity_run_bound [OF run, of 3] by simp
  from alloc_run_effect [OF run assms(1,2,5,7,3,4) this assms(6)] obtain pm1
    where pm1: "act_Pool a1 = Some pm1" "store_ok (store pm1)"
    and c: "case r of Inl _ \<Rightarrow> store pm1 = store pm
      | Inr al \<Rightarrow> wa_SandboxName al \<noteq> [] \<and> (\<exists>x. registry (store pm1) = (registry (store pm))(wa_SandboxName al \<mapsto> x))" by blast
  show ?thesis
  proof (cases r)
    case (Inl e)
    then show ?thesis using assms(9) c pm1 al by (auto simp: CodingTaskWorkflow_def call_allocate_def)
  next
    case (Inr alloc)
    let ?n = "wa_SandboxName alloc"
    have "?n \<noteq> []" using c Inr by simp
    then obtain w where w: "act_Pool w = Some pm1" "run_world R = snd (ac_Release A ?n w)"
      by (rule workflow_world [OF assms(8) al [unfolded Inr] pm1(1) _ assms(9)])
    obtain e a2 where rel: "ac_Release A ?n w = (e, a2)" by (meson surj_pair)
    from attempts_okD(2) [OF assms(8) this] obtain k' where "activity_run ty release_options True False
        (\<lambda>i a. as_result (ReleaseSandboxActivity P ?n a)) 1 w (fst (as_result (e, a2))) a2 k'" ..
    from release_run_effect [OF this w(1) pm1(2)] obtain pm2 where pm2: "act_Pool a2 = Some pm2"
      "\<forall>m. m \<noteq> ?n \<longrightarrow> registry (store pm2) m = registry (store pm1) m" "e = None \<longrightarrow> registry (store pm2) ?n = None"
      by (cases e) (auto simp: as_result_def)
    have f: "\<forall>m. m \<noteq> ?n \<longrightarrow> registry (store pm2) m = registry (store pm) m" using pm2(2) c Inr by auto
    have "registry (store pm2) = (registry (store pm))(?n := None)" if "e = None" using that f pm2(3) by auto
    with f w(2) pm2(1) rel show ?thesis by (auto simp: al Inr intro!: exI [of _ w])
  qed
qed

theorem task_returns_sandbox_despite_retries_witness:
  "\<exists>pm' :: MockSandboxProvider PoolManager.
     act_Pool (run_world (snd (CodingTaskWorkflow
       (single_attempt mock_provider (\<lambda>xs. xs) (sample_env 1 ''u1'') no_server sample_lib) sample_input 0 7 (sample_activities 1)))) = Some pm' \<and>
     registry (store pm') ''mock-sandbox-1'' = None \<and> registry (store pm') ''mock-sandbox-2'' = None"
proof -
  let ?A = "single_attempt mock_provider (\<lambda>xs. xs) (sample_env 1 ''u1'') no_server sample_lib"
  have eng: "attempts_ok (\<lambda>_. ''wrapError'') False mock_provider (\<lambda>xs. xs) (\<lambda>_. sample_env 1 ''u1'') sample_lib sample_input ?A"
    by (rule single_attempt_ok)
  have f: "\<forall>i::nat. env_fresh (sample_env 1 ''u1'') (store (sample_pool 1))"
    by (simp add: env_fresh_def sample_env_def sample_pool_def NewPoolManager_def)
  have l: "\<forall>p. [] \<notin> mock_live p" by (auto simp: mock_live_def)
  have rd: "mock_ready 3 (provider (sample_pool 1))"
    by (simp add: sample_pool_def NewPoolManager_def mock_ready_def NewMockSandboxProvider_def)
  have al: "fst (ac_Allocate ?A (ti_UserID sample_input) (sample_activities 1)) =
      Inr \<lparr>wa_SandboxName = ''mock-sandbox-1'', wa_ServiceFQDN = ''localhost:4096'', wa_UserID = ''alice''\<rparr>"
    using sample_alloc_eq [of 1 1 "''u1''"]
    by (simp add: sample_alloc_def sample_input_def single_attempt_def AllocateSandboxActivity_def sample_activities_def
        alloc_at_def store_new_def active_alloc_def Let_def empty_store_def)
  have rel: "fst (ac_Release ?A n w) = None" for n w
    using mock_Release_done
    by (auto simp: single_attempt_def ReleaseSandboxActivity_def split: option.split prod.split) (metis fst_conv)
  have empty: "registry (store (sample_pool 1)) n = None" for n by (simp add: sample_pool_def NewPoolManager_def)
  have "act_Pool (sample_activities 1) = Some (sample_pool 1)" by (simp add: sample_activities_def)
  from task_returns_sandbox_despite_retries [OF mock.sandbox_provider_axioms range_order_id sample_pool_inv rd l f this eng
      surjective_pairing, of 0 7] al rel empty
  show ?thesis by auto
qed

text \<open>C36: When the result of an attempt to allocate gets lost, its sandbox is. Over any provider that honours its contract: if the
  first attempt of a task to allocate succeeds and the engine loses its result, then whatever the engine makes of the
  attempts that are left (it may report a later sandbox, an error or a cancellation, and lose more results), the sandbox of
  the first attempt is still in the pool when the workflow has ended: active, in the name of the user, under a session
  that nobody knows; the task was given another one, if any, and releases only that.\<close>

theorem lost_allocation_leaks:
  assumes "sandbox_provider P live ready" "range_order ord" "pool_inv live pm" "ready 3 (provider pm)" "\<forall>p. [] \<notin> live p"
    and "\<forall>i. env_fresh (env i) (store pm)" "inj (\<lambda>i. env_uuid (env i))" "act_Pool a = Some pm"
    and "attempts_ok ty True P ord env L inp A"
    and "AllocateSandboxActivity P ord (env 1) (ti_UserID inp) a = (Inr lost, a1)"
    and "activity_run ty alloc_options True True (\<lambda>n. AllocateSandboxActivity P ord (env n) (ti_UserID inp)) 2 a1 r a2 k"
    and "ac_Allocate A (ti_UserID inp) a = (r, a2)" "CodingTaskWorkflow A inp t0 t1 a = (res, R)"
  shows "\<exists>pm' x. act_Pool (run_world R) = Some pm' \<and> registry (store pm') (wa_SandboxName lost) = Some x \<and>
    Status x = StatusActive \<and> UserID x = ti_UserID inp \<and> SessionID x = env_uuid (env 1) \<and>
    (\<forall>al. r = Inr al \<longrightarrow> wa_SandboxName al \<noteq> wa_SandboxName lost)"
proof -
  let ?u = "ti_UserID inp" and ?m = "wa_SandboxName lost"
  have uuid: "env_uuid (env i) \<noteq> env_uuid (env 1)" if "2 \<le> i" for i using that injD [OF assms(7), of i 1] by auto
  have r3: "ready (Suc 2) (provider pm)" using assms(4) by (simp add: eval_nat_numeral)
  obtain pm1 x where pm1: "act_Pool a1 = Some pm1" "pool_inv live pm1" "ready 2 (provider pm1)"
    and fr: "\<forall>i \<ge> 2. env_fresh (env i) (store pm1)" and x: "registry (store pm1) ?m = Some x" "taken_by ?u (env 1) x"
    using alloc_attempt [OF assms(10,1,2,8,3) r3 assms(6) [rule_format]] assms(6) uuid by (metis (no_types))
  have "k \<le> 2" using activity_run_bound [OF assms(11), of 3] by simp
  with alloc_run_keeps [OF assms(11,1,2,7) pm1 _ fr x(1)] x(2) obtain pm2 where
    pm2: "act_Pool a2 = Some pm2" "pool_inv live pm2" "registry (store pm2) ?m = Some x"
    and other: "\<And>al. r = Inr al \<Longrightarrow> wa_SandboxName al \<noteq> ?m \<and> wa_SandboxName al \<in> live (provider pm2)"
    by (auto simp: taken_by_def)
  have "\<exists>pm'. act_Pool (run_world R) = Some pm' \<and> registry (store pm') ?m = Some x"
  proof (cases r)
    case (Inl e)
    with assms(12,13) pm2 show ?thesis by (auto simp: CodingTaskWorkflow_def call_allocate_def)
  next
    case (Inr al)
    let ?n = "wa_SandboxName al"
    have n: "?n \<noteq> ?m" "?n \<noteq> []" using other [OF Inr] assms(5) by metis+
    obtain w where w: "act_Pool w = Some pm2" "run_world R = snd (ac_Release A ?n w)"
      by (rule workflow_world [OF assms(9) assms(12) [unfolded Inr] pm2(1) n(2) assms(13)])
    obtain e a3 where rel: "ac_Release A ?n w = (e, a3)" by (meson surj_pair)
    from attempts_okD(2) [OF assms(9) this] obtain k' where "activity_run ty release_options True False
        (\<lambda>i a. as_result (ReleaseSandboxActivity P ?n a)) 1 w (fst (as_result (e, a3))) a3 k'" ..
    from release_run_effect [OF this w(1) pool_invD(1) [OF pm2(2)]] n(1) pm2(3) w(2) rel show ?thesis by fastforce
  qed
  with x(2) other show ?thesis by (auto simp: taken_by_def)
qed

theorem lost_allocation_leaks_witness:
  "\<exists>pm' x. act_Pool (run_world (snd (CodingTaskWorkflow sample_lossy sample_input 0 7 (sample_activities 2)))) = Some pm' \<and>
     registry (store pm') ''mock-sandbox-1'' = Some x \<and> UserID x = ''alice''"
proof -
  let ?act = "\<lambda>n. AllocateSandboxActivity mock_provider (\<lambda>xs. xs) (sample_envs2 n) (ti_UserID sample_input)"
  obtain lost a1 where first: "?act 1 (sample_activities 2) = (Inr lost, a1)" and name: "wa_SandboxName lost = ''mock-sandbox-1''"
    using sample_first_attempt by blast
  obtain r a2 where al: "ac_Allocate sample_lossy (ti_UserID sample_input) (sample_activities 2) = (r, a2)" by (meson surj_pair)
  then have "?act 2 a1 = (r, a2)" using first by (simp add: sample_lossy_def lost_first_def)
  from run_once [of ?act, OF this, of "\<lambda>_. []" alloc_options True] obtain k where
    run: "activity_run (\<lambda>_. []) alloc_options True True ?act 2 a1 r a2 k" by blast
  have f: "\<forall>i. env_fresh (sample_envs2 i) (store (sample_pool 2))"
    by (simp add: env_fresh_def sample_envs2_def sample_env_def sample_pool_def NewPoolManager_def)
  have l: "\<forall>p. [] \<notin> mock_live p" by (auto simp: mock_live_def)
  have rd: "mock_ready 3 (provider (sample_pool 2))"
    by (simp add: sample_pool_def NewPoolManager_def mock_ready_def NewMockSandboxProvider_def)
  have p: "act_Pool (sample_activities 2) = Some (sample_pool 2)" by (simp add: sample_activities_def)
  from lost_allocation_leaks [OF mock.sandbox_provider_axioms range_order_id sample_pool_inv rd l f sample_envs2_inj p
      sample_lossy_ok first run al surjective_pairing, of 0 7] name
  show ?thesis by (auto simp: sample_input_def)
qed

text \<open>C37: The option that is to keep an exhausted pool from being asked again has no effect: it names the text of the error,
  while the engine compares the type of the error, which is that of a wrapped error for every failure of the activity.
  So with every attempt reported and no cancellation, the activity is run exactly three times against a full pool without
  warm sandboxes, and the call fails.\<close>

theorem exhausted_pool_is_retried:
  assumes "\<forall>m e. ty (Wrapf m e) = ''wrapError''" and "act_Pool a = Some pm"
    and "\<forall>i. Allocate P ord (env i) u pm = (Inl ErrPoolExhausted, pm)"
  shows "activity_run ty alloc_options False False (\<lambda>n. AllocateSandboxActivity P ord (env n) u) 1 a r a' k \<longleftrightarrow>
    k = 3 \<and> a' = a \<and> (\<exists>e. r = Inl e)"
proof -
  let ?act = "\<lambda>n. AllocateSandboxActivity P ord (env n) u"
  let ?run = "activity_run ty alloc_options False False ?act"
  have act: "?act n a = (Inl (Wrapf ''allocating sandbox: '' ErrPoolExhausted), a)" for n
    using assms(2,3) by (simp add: AllocateSandboxActivity_def)
  have ret: "retried ty alloc_options n (Wrapf ''allocating sandbox: '' ErrPoolExhausted) \<longleftrightarrow> n < 3" for n
    using assms(1) by (simp add: retried_def) (simp add: alloc_options_def retry_policy_def)
  have step: "?run n a r a' k \<longleftrightarrow> (if n < 3 then \<exists>k'. k = Suc k' \<and> ?run (Suc n) a r a' k' else k = 1 \<and> a' = a \<and> (\<exists>e. r = Inl e))" for n k
    by (subst activity_run.simps) (auto simp: act ret)
  show ?thesis unfolding step [of 1] step [of "Suc 1"] step [of "Suc (Suc 1)"] by (auto simp: eval_nat_numeral)
qed

theorem exhausted_pool_is_retried_witness:
  "activity_run (\<lambda>_. ''wrapError'') alloc_options False False
     (\<lambda>n. AllocateSandboxActivity mock_provider (\<lambda>xs. xs) (sample_envs2 n) ''alice'') 1 (sample_activities 0)
     (Inl ErrPoolExhausted) (sample_activities 0) 3"
proof -
  have "\<forall>i. Allocate mock_provider (\<lambda>xs. xs) (sample_envs2 i) ''alice'' (sample_pool 0) = (Inl ErrPoolExhausted, sample_pool 0)"
    by (simp add: Allocate_def claimIdle_def sample_pool_def NewPoolManager_def empty_store_def NewAllocationCache_def
        Cache_ListByStatus_def store_len_def Cache_Len_def)
  from exhausted_pool_is_retried [OF _ _ this, of "\<lambda>_. ''wrapError''" "sample_activities 0"] show ?thesis
    by (simp add: sample_activities_def)
qed

end
