(* ===== verification/Http_Middleware.thy ===== *)
theory Http_Middleware
  imports Http_Model
begin

text \<open>
  The middleware of the router, \<^verbatim>\<open>internal/router/middleware.go\<close> and \<^verbatim>\<open>internal/router/audit.go\<close>: API keys,
  the limit on request bodies and the audit log.  A middleware maps handlers to handlers.  Log lines
  other than the audit entries are left out.
\<close>

section \<open>Definitions\<close>

subsection \<open>API keys\<close>

definition extractAPIKey :: "Request \<Rightarrow> string" where
  "extractAPIKey r =
     (let auth = Header_Get (req_Header r) ''Authorization''
      in if auth \<noteq> [] \<and> HasPrefix auth ''Bearer '' then TrimPrefix auth ''Bearer ''
         else Header_Get (req_Header r) ''X-API-Key'')"

definition missing_key_body :: string where
  "missing_key_body = CHR ''{'' # quote # ''code'' @ quote # '':401,'' @ quote # ''message'' @ quote # '':'' @
     quote # ''missing API key'' @ quote # ''}''"

definition invalid_key_body :: string where
  "invalid_key_body = CHR ''{'' # quote # ''code'' @ quote # '':403,'' @ quote # ''message'' @ quote # '':'' @
     quote # ''invalid API key'' @ quote # ''}''"

definition APIKeyAuth :: "string list \<Rightarrow> 's handler \<Rightarrow> 's handler" where
  "APIKeyAuth apiKeys nxt =
     (if apiKeys = [] then nxt
      else (\<lambda>r (w, s).
        if req_Path r = ''/health'' then nxt r (w, s)
        else (let key = extractAPIKey r in
          if key = [] then (http_Error missing_key_body 401 w, s)
          else if key \<notin> set apiKeys then (http_Error invalid_key_body 403 w, s)
          else nxt r (w, s))))"

subsection \<open>Body size\<close>

definition MaxBodySize :: "int \<Rightarrow> 's handler \<Rightarrow> 's handler" where
  "MaxBodySize maxBytes nxt =
     (if maxBytes \<le> 0 then nxt
      else (\<lambda>r ws. case req_Body r of
              Some b \<Rightarrow> nxt (r\<lparr>req_Body := Some (MaxBytesReader maxBytes b)\<rparr>) ws
            | None \<Rightarrow> nxt r ws))"

subsection \<open>Audit log\<close>

definition extractUserID :: "Request \<Rightarrow> string" where
  "extractUserID r =
     (let v = Header_Get (req_Header r) ''X-User-ID'' in if v \<noteq> [] then v else ''anonymous'')"

record AuditEntry =
  au_method :: string
  au_path :: string
  au_status :: int
  au_duration_ms :: int
  au_remote :: string
  au_user_id :: string

fun sw_status :: "ResponseWriter \<Rightarrow> int" where
  "sw_status (StatusWriter w status wroteHeader) = status"
| "sw_status (Base b) = 200"

text \<open>\<^verbatim>\<open>statusWriter.Unwrap\<close>.\<close>

fun Unwrap :: "ResponseWriter \<Rightarrow> ResponseWriter" where
  "Unwrap (StatusWriter w status wroteHeader) = w"
| "Unwrap (Base b) = Base b"

text \<open>The request is served between the times \<open>start\<close> and \<open>now\<close>.  The audit log is part of the state.\<close>

definition AuditLog :: "int \<Rightarrow> int \<Rightarrow> 's handler \<Rightarrow> ('s \<times> AuditEntry list) handler" where
  "AuditLog start now nxt = (\<lambda>r (w, s, log).
     case nxt r (StatusWriter w 200 False, s) of (sw, s') \<Rightarrow>
       (Unwrap sw, s', log @
         [\<lparr>au_method = req_Method r, au_path = req_Path r, au_status = sw_status sw,
           au_duration_ms = go_div (time_sub now start) Millisecond, au_remote = req_RemoteAddr r,
           au_user_id = extractUserID r\<rparr>]))"

section \<open>The interface: handlers that are audited truthfully\<close>

text \<open>The client gets informational status lines and then the final one; the server sends 200 when the
  handler sent none.  \<open>fresh\<close>: a status writer on which nothing was sent.  \<open>synced\<close>: the status it
  recorded is that of the first line the client gets.\<close>

definition client_status :: "ResponseWriter \<Rightarrow> int" where
  "client_status w = (case wr_status (underlying w) of Some c \<Rightarrow> c | None \<Rightarrow> 200)"

definition first_status :: "ResponseWriter \<Rightarrow> int" where
  "first_status w = hd (wr_info (underlying w) @ [client_status w])"

abbreviation unsent :: "ResponseWriter \<Rightarrow> bool" where
  "unsent w \<equiv> wr_status (underlying w) = None \<and> wr_info (underlying w) = []"

fun fresh :: "ResponseWriter \<Rightarrow> bool" where
  "fresh (StatusWriter w status wroteHeader) = (\<not> wroteHeader \<and> status = 200 \<and> unsent w)"
| "fresh (Base b) = False"

fun synced :: "ResponseWriter \<Rightarrow> bool" where
  "synced (StatusWriter w status wroteHeader) =
     (case wr_info (underlying w) of
        [] \<Rightarrow> if wroteHeader then wr_status (underlying w) = Some status
              else status = 200 \<and> wr_status (underlying w) \<in> {None, Some 200}
      | i # _ \<Rightarrow> wroteHeader \<and> status = i)"
| "synced (Base b) = False"

locale audited_handler =
  fixes h :: "'s handler"
  assumes truthful: "fresh w \<Longrightarrow> synced (fst (h r (w, s)))"
begin

text \<open>The audit entry of a request carries the first status that the client gets.\<close>

lemma audit_entry_truthful:
  assumes "unsent w"
  shows "\<exists>w' s' e. AuditLog t0 t1 h r (w, s, log) = (w', s', log @ [e]) \<and>
    au_status e = first_status w' \<and> au_method e = req_Method r \<and> au_path e = req_Path r"
proof -
  obtain sw s' where h: "h r (StatusWriter w 200 False, s) = (sw, s')" by (meson surj_pair)
  have "fresh (StatusWriter w 200 False)" using assms by simp
  from truthful [OF this, of r s] h have "synced sw" by simp
  then have "sw_status sw = first_status (Unwrap sw)"
    by (cases sw) (auto simp: first_status_def client_status_def split: if_splits option.splits list.splits)
  then show ?thesis using h by (simp add: AuditLog_def)
qed

end

text \<open>A request, for examples.\<close>

definition sample_request :: "string \<Rightarrow> string \<Rightarrow> header \<Rightarrow> string \<Rightarrow> Request" where
  "sample_request method path h body =
     \<lparr>req_Method = method, req_Path = path, req_URLScheme = [], req_URLHost = [], req_Host = ''router'',
      req_RemoteAddr = ''10.0.0.7:4711'', req_Header = h, req_Cookies = [], req_Query = [],
      req_Body = Some (Raw body)\<rparr>"

section \<open>Lemmas\<close>

lemma wire_info_set: "wr_info (wire_WriteHeader code b) =
    (if wr_status b = None \<and> 100 \<le> code \<and> code \<le> 199 \<and> code \<noteq> 101 then wr_info b @ [code] else wr_info b)"
  by (simp add: wire_WriteHeader_def)

lemmas wire_sets = underlying_ops wire_status_set wire_info_set

lemma fresh_Header [simp]: "fresh w \<Longrightarrow> fresh (RW_Header f w)"
  by (cases w) (simp_all add: underlying_ops)

lemma fresh_synced: "fresh w \<Longrightarrow> synced w"
  by (cases w) simp_all

lemma fresh_not_Flusher: "fresh w \<Longrightarrow> \<not> is_Flusher w"
  by (cases w) simp_all

lemma synced_Header: "synced w \<Longrightarrow> synced (RW_Header f w)"
  by (cases w) (auto simp: underlying_ops split: if_splits list.splits)

lemma synced_WriteHeader: "fresh w \<Longrightarrow> 200 \<le> code \<Longrightarrow> synced (WriteHeader code w)"
  by (cases w) (simp_all add: wire_sets)

lemma synced_Write: "synced w \<Longrightarrow> synced (RW_Write s w)"
  by (cases w) (auto simp: wire_sets Let_def split: if_splits list.splits)

lemma synced_http_Error: "fresh w \<Longrightarrow> 200 \<le> code \<Longrightarrow> synced (http_Error msg code w)"
  by (simp add: http_Error_def synced_Write synced_WriteHeader)

lemma synced_write_json: "synced w \<Longrightarrow> synced (write_json v w)"
  by (simp add: write_json_def synced_Write)

text \<open>Once a status writer has recorded a status, later ones, informational or final, do not disturb it.\<close>

fun recorded :: "ResponseWriter \<Rightarrow> bool" where
  "recorded (StatusWriter w status wroteHeader) = (wroteHeader \<and> synced (StatusWriter w status wroteHeader))"
| "recorded (Base b) = False"

lemma recorded_synced: "recorded w \<Longrightarrow> synced w"
  by (cases w) (auto split: list.splits)

lemma recorded_Header: "recorded w \<Longrightarrow> recorded (RW_Header f w)"
  by (cases w) (auto simp: underlying_ops split: if_splits list.splits)

lemma recorded_WriteHeader: "recorded w \<Longrightarrow> recorded (WriteHeader code w)"
  by (cases w) (auto simp: wire_sets split: if_splits list.splits)

lemma fresh_records: "fresh w \<Longrightarrow> 100 \<le> code \<Longrightarrow> code \<noteq> 101 \<Longrightarrow> recorded (WriteHeader code w)"
  by (cases w) (auto simp: wire_sets split: if_splits list.splits)

lemmas synced_ops = synced_Header synced_WriteHeader synced_Write synced_http_Error synced_write_json

text \<open>The other middleware keeps handlers truthful.\<close>

lemma audited_APIKeyAuth:
  assumes "audited_handler h"
  shows "audited_handler (APIKeyAuth keys h)"
proof
  fix w :: ResponseWriter and r s
  assume "fresh w"
  with audited_handler.truthful [OF assms] show "synced (fst (APIKeyAuth keys h r (w, s)))"
    by (simp add: APIKeyAuth_def Let_def synced_http_Error)
qed

lemma audited_MaxBodySize:
  assumes "audited_handler h"
  shows "audited_handler (MaxBodySize n h)"
proof
  fix w :: ResponseWriter and r s
  assume "fresh w"
  with audited_handler.truthful [OF assms] show "synced (fst (MaxBodySize n h r (w, s)))"
    by (simp add: MaxBodySize_def split: option.split)
qed

section \<open>Properties\<close>

text \<open>A key is presented as the bearer token of the \<^verbatim>\<open>Authorization\<close> header or, without a bearer token
  there, as the \<^verbatim>\<open>X-API-Key\<close> header.\<close>

definition presents :: "Request \<Rightarrow> string \<Rightarrow> bool" where
  "presents r k \<longleftrightarrow>
     Header_Get (req_Header r) ''Authorization'' = ''Bearer '' @ k \<or>
     (\<not> HasPrefix (Header_Get (req_Header r) ''Authorization'') ''Bearer '' \<and>
      Header_Get (req_Header r) ''X-API-Key'' = k)"

lemma presents_iff: "presents r k \<longleftrightarrow> extractAPIKey r = k"
proof (cases "HasPrefix (Header_Get (req_Header r) ''Authorization'') ''Bearer ''")
  case True
  then obtain t where "Header_Get (req_Header r) ''Authorization'' = ''Bearer '' @ t" using HasPrefixE by blast
  then show ?thesis by (simp add: presents_def extractAPIKey_def HasPrefix_def TrimPrefix_def)
next
  case False
  then have "Header_Get (req_Header r) ''Authorization'' \<noteq> ''Bearer '' @ k" using HasPrefix_append by metis
  with False show ?thesis by (simp add: presents_def extractAPIKey_def)
qed

text \<open>C22: A request reaches the handler, unchanged, exactly when no API keys are configured, it is for the health
  endpoint, or it presents one of the keys, as bearer token or else in \<^verbatim>\<open>X-API-Key\<close> (a configured empty key
  admits nobody). Any other request leaves the server's state untouched and gets 401 with the missing-key
  message if it presents no key, and 403 with the invalid-key message if it presents another one.\<close>

theorem APIKeyAuth_exact:
  assumes "wr_status (underlying w) = None"
  shows "if keys = [] \<or> req_Path r = ''/health'' \<or> (\<exists>k. k \<in> set keys \<and> k \<noteq> [] \<and> presents r k)
    then APIKeyAuth keys h r (w, s) = h r (w, s)
    else snd (APIKeyAuth keys h r (w, s)) = s \<and>
         client_status (fst (APIKeyAuth keys h r (w, s))) = (if presents r [] then 401 else 403) \<and>
         wr_body (underlying (fst (APIKeyAuth keys h r (w, s)))) =
           wr_body (underlying w) @ [(if presents r [] then missing_key_body else invalid_key_body) @ newline]"
  using assms by (auto simp: APIKeyAuth_def presents_iff Let_def client_status_def http_Error_status http_Error_body)

theorem APIKeyAuth_exact_witness:
  "client_status (fst (APIKeyAuth [''k1''] (\<lambda>r ws. ws)
     (sample_request ''GET'' ''/api/v1/x'' [(''Authorization'', [''Bearer k2''])] [])
     (new_writer, ()))) = 403 \<and>
   APIKeyAuth [] (\<lambda>r ws. ws) (sample_request ''GET'' ''/api/v1/x'' [] []) (new_writer, ()) = (new_writer, ())"
proof -
  let ?r = "sample_request ''GET'' ''/api/v1/x'' [(''Authorization'', [''Bearer k2''])] []"
  have key: "extractAPIKey ?r = ''k2''" by code_simp
  have path: "req_Path ?r \<noteq> ''/health''" by (simp add: sample_request_def)
  have w: "wr_status (underlying new_writer) = None" by (simp add: new_writer_def)
  show ?thesis
    using APIKeyAuth_exact [OF w, of "[''k1'']" ?r "\<lambda>r ws. ws" "()"] key path
      APIKeyAuth_exact [OF w, of "[]" "sample_request ''GET'' ''/api/v1/x'' [] []" "\<lambda>r ws. ws" "()"]
    by (auto simp: presents_iff split: if_splits)
qed

text \<open>Behind \<open>MaxBodySize\<close> a handler can read at most the configured number of bytes of the body; it reads
  all of a body within the limit, and otherwise the first bytes up to the limit and then an error.\<close>

theorem MaxBodySize_limits:
  assumes "0 < n" "req_Body r = Some b" "body_read b = (bytes, False)"
  shows "\<exists>b'. MaxBodySize n h r ws = h (r\<lparr>req_Body := Some b'\<rparr>) ws \<and>
    (if int (length bytes) \<le> n then body_read b' = (bytes, False)
     else body_read b' = (take (nat n) bytes, True) \<and> length (fst (body_read b')) = nat n)"
  using assms by (intro exI [of _ "MaxBytesReader n b"]) (auto simp: MaxBodySize_def)

theorem MaxBodySize_limits_witness:
  "\<exists>b'. MaxBodySize 2 (\<lambda>r ws. (fst ws, body_read (the (req_Body r))))
      (sample_request ''POST'' ''/'' [] ''abc'') (new_writer, ([], False)) =
      (new_writer, body_read b') \<and> body_read b' = (''ab'', True)"
proof -
  let ?r = "sample_request ''POST'' ''/'' [] ''abc''"
  have "req_Body ?r = Some (Raw ''abc'')" by (simp add: sample_request_def)
  from MaxBodySize_limits [OF _ this, of 2 "''abc''" "\<lambda>r ws. (fst ws, body_read (the (req_Body r)))" "(new_writer, ([], False))"]
  show ?thesis by auto
qed

end
