(* ===== verification/Task_API.thy ===== *)
theory Task_API
  imports Http_Middleware Coding_Workflow
begin

text \<open>
  The task endpoints, \<^verbatim>\<open>internal/router/tasks.go\<close>, with the API types of \<^verbatim>\<open>api/v1/types.go\<close>.

  The Temporal client is third-party code: \<open>Temporal\<close> holds the calls the handler makes, over a state of the
  Temporal server.  A task is known by the workflow ID of its run, \<^verbatim>\<open>run.GetID()\<close>, with which \<open>ExecuteWorkflow\<close> answers;
  the run ID is only logged.  The text of times, of float64 numbers and of JSON errors is given by \<open>TextLib\<close>.
\<close>

section \<open>Definitions\<close>

subsection \<open>API types\<close>

datatype TaskStatus = TaskStatusPending | TaskStatusRunning | TaskStatusCompleted | TaskStatusFailed | TaskStatusTimeout

fun status_text :: "TaskStatus \<Rightarrow> string" where
  "status_text TaskStatusPending = ''pending''"
| "status_text TaskStatusRunning = ''running''"
| "status_text TaskStatusCompleted = ''completed''"
| "status_text TaskStatusFailed = ''failed''"
| "status_text TaskStatusTimeout = ''timeout''"

record TaskRequest =
  tq_Prompt :: string
  tq_OutputSchema :: string
  tq_Timeout :: int
  tq_UserID :: string
  tq_Metadata :: "(string \<times> string) list"

record TaskResponse =
  tr_TaskID :: string
  tr_SessionID :: string
  tr_Status :: TaskStatus
  tr_Result :: string
  tr_Error :: string
  tr_CreatedAt :: int
  tr_CompletedAt :: "int option"

text \<open>The duration of an event is kept in nanoseconds; its text is that of \<^verbatim>\<open>Duration.Seconds()\<close>.\<close>

record TaskStreamEvent =
  te_Status :: TaskStatus
  te_SessionID :: string
  te_Result :: string
  te_Error :: string
  te_Duration :: int
  te_TokensUsed :: int
  te_CompletedAt :: "int option"

record ErrorResponse =
  eresp_Code :: int
  eresp_Message :: string

record TextLib =
  tl_time :: "int \<Rightarrow> string"
  tl_seconds :: "int \<Rightarrow> string"
  tl_ratio :: "int \<Rightarrow> int \<Rightarrow> string"
  tl_json_error :: "string \<Rightarrow> bool \<Rightarrow> string"

subsection \<open>Their JSON\<close>

definition omit_str :: "string \<Rightarrow> string \<Rightarrow> (string \<times> json) list" where
  "omit_str k v = (if v = [] then [] else [(k, JStr v)])"

definition omit_time :: "TextLib \<Rightarrow> string \<Rightarrow> int option \<Rightarrow> (string \<times> json) list" where
  "omit_time T k t = (case t of None \<Rightarrow> [] | Some x \<Rightarrow> [(k, JStr (tl_time T x))])"

definition response_json :: "TextLib \<Rightarrow> TaskResponse \<Rightarrow> json" where
  "response_json T r = JObj ([(''taskId'', JStr (tr_TaskID r))] @ omit_str ''sessionId'' (tr_SessionID r) @
     [(''status'', JStr (status_text (tr_Status r)))] @ omit_str ''result'' (tr_Result r) @
     omit_str ''error'' (tr_Error r) @ [(''createdAt'', JStr (tl_time T (tr_CreatedAt r)))] @
     omit_time T ''completedAt'' (tr_CompletedAt r))"

definition event_json :: "TextLib \<Rightarrow> TaskStreamEvent \<Rightarrow> json" where
  "event_json T e = JObj ([(''status'', JStr (status_text (te_Status e)))] @ omit_str ''sessionId'' (te_SessionID e) @
     omit_str ''result'' (te_Result e) @ omit_str ''error'' (te_Error e) @
     (if te_Duration e = 0 then [] else [(''duration'', JNum (tl_seconds T (te_Duration e)))]) @
     (if te_TokensUsed e = 0 then [] else [(''tokensUsed'', JNum (itoa (te_TokensUsed e)))]) @
     omit_time T ''completedAt'' (te_CompletedAt e))"

definition error_json :: "ErrorResponse \<Rightarrow> json" where
  "error_json r = JObj [(''code'', JNum (itoa (eresp_Code r))), (''message'', JStr (eresp_Message r))]"

text \<open>The decoding of a request body into a \<open>TaskRequest\<close>.\<close>

definition decode_request :: "json \<Rightarrow> TaskRequest option" where
  "decode_request v =
     (case struct_members v of None \<Rightarrow> None | Some ms \<Rightarrow>
     (case (struct_field get_string ''prompt'' [] ms, struct_field get_string ''outputSchema'' [] ms,
            struct_field get_int ''timeout'' 0 ms, struct_field get_string ''userId'' [] ms,
            struct_field get_string_map ''metadata'' [] ms) of
        (Some p, Some s, Some t, Some u, Some m) \<Rightarrow>
          Some \<lparr>tq_Prompt = p, tq_OutputSchema = s, tq_Timeout = t, tq_UserID = u, tq_Metadata = m\<rparr>
      | _ \<Rightarrow> None))"

text \<open>\<^verbatim>\<open>json.NewDecoder(r.Body).Decode\<close>: when reading the body ends with an error, a value must be complete before
  it; a literal that ends where the readable bytes end is not.\<close>

definition decode_body :: "Body option \<Rightarrow> TaskRequest option" where
  "decode_body b =
     (case body_read (case b of None \<Rightarrow> Raw [] | Some b' \<Rightarrow> b') of (s, failed) \<Rightarrow>
     (case json_parse s of
        None \<Rightarrow> None
      | Some (v, rest) \<Rightarrow>
          if failed \<and> rest = [] \<and> (case v of JObj _ \<Rightarrow> False | _ \<Rightarrow> True) then None else decode_request v))"

subsection \<open>The Temporal client\<close>

datatype WorkflowExecutionStatus = UNSPECIFIED | RUNNING | COMPLETED | FAILED | CANCELED | TERMINATED | CONTINUED_AS_NEW | TIMED_OUT

record WorkflowExecutionInfo =
  we_Status :: WorkflowExecutionStatus
  we_StartTime :: int
  we_CloseTime :: int

record StartWorkflowOptions =
  so_TaskQueue :: string
  so_WorkflowExecutionTimeout :: int

datatype describe_error = NotFound go_error | OtherError go_error

record 'w Temporal =
  ExecuteWorkflow :: "StartWorkflowOptions \<Rightarrow> TaskInput \<Rightarrow> 'w \<Rightarrow> (go_error + string) \<times> 'w"
  DescribeWorkflowExecution :: "string \<Rightarrow> 'w \<Rightarrow> describe_error + WorkflowExecutionInfo"
  GetWorkflow :: "string \<Rightarrow> 'w \<Rightarrow> go_error + TaskOutput"

subsection \<open>The handler\<close>

definition writeJSON :: "int \<Rightarrow> json \<Rightarrow> ResponseWriter \<Rightarrow> ResponseWriter" where
  "writeJSON status v w =
     write_json v (WriteHeader status (RW_Header (Header_Set ''Content-Type'' ''application/json'') w))"

definition write_error :: "int \<Rightarrow> string \<Rightarrow> ResponseWriter \<Rightarrow> ResponseWriter" where
  "write_error code msg w = writeJSON code (error_json \<lparr>eresp_Code = code, eresp_Message = msg\<rparr>) w"

definition maxTaskTimeout :: int where "maxTaskTimeout = 2 * Hour"

definition task_user :: "TaskRequest \<Rightarrow> Request \<Rightarrow> string" where
  "task_user req r =
     (if tq_UserID req \<noteq> [] then tq_UserID req
      else if Header_Get (req_Header r) ''X-User-ID'' \<noteq> [] then Header_Get (req_Header r) ''X-User-ID''
      else ''anonymous'')"

definition task_timeout :: "int \<Rightarrow> int" where
  "task_timeout seconds =
     (let timeout = if seconds > 0 then wrap64 (seconds * Second) else 30 * Minute
      in if timeout > maxTaskTimeout then maxTaskTimeout else timeout)"

definition task_input :: "TaskRequest \<Rightarrow> Request \<Rightarrow> TaskInput" where
  "task_input req r = \<lparr>ti_UserID = task_user req r, ti_Prompt = tq_Prompt req, ti_OutputSchema = tq_OutputSchema req,
     ti_Timeout = task_timeout (tq_Timeout req)\<rparr>"

definition createTask :: "'w Temporal \<Rightarrow> TextLib \<Rightarrow> string \<Rightarrow> int \<Rightarrow> 'w handler" where
  "createTask C T taskQueue now r = (\<lambda>(w, s).
     case decode_body (req_Body r) of
       None \<Rightarrow>
         (write_error 400 (''invalid request body: '' @
            (case body_read (case req_Body r of None \<Rightarrow> Raw [] | Some b \<Rightarrow> b) of (bytes, failed) \<Rightarrow> tl_json_error T bytes failed)) w, s)
     | Some req \<Rightarrow>
         if tq_Prompt req = [] then (write_error 400 ''prompt is required'' w, s)
         else
           (let input = task_input req r;
                opts = \<lparr>so_TaskQueue = taskQueue, so_WorkflowExecutionTimeout = wrap64 (ti_Timeout input + 10 * Minute)\<rparr>
            in case ExecuteWorkflow C opts input s of
                 (Inl err, s') \<Rightarrow> (write_error 500 ''failed to start task'' w, s')
               | (Inr workflowID, s') \<Rightarrow>
                   (writeJSON 202 (response_json T
                      \<lparr>tr_TaskID = workflowID, tr_SessionID = [], tr_Status = TaskStatusPending, tr_Result = [], tr_Error = [],
                       tr_CreatedAt = now, tr_CompletedAt = None\<rparr>) w, s')))"

definition describe_failed :: "describe_error \<Rightarrow> ResponseWriter \<Rightarrow> ResponseWriter" where
  "describe_failed e w =
     (case e of NotFound _ \<Rightarrow> write_error 404 ''task not found'' w
      | OtherError _ \<Rightarrow> write_error 500 ''failed to query task status'' w)"

text \<open>The response of \<^verbatim>\<open>getTask\<close> for a workflow that was described.\<close>

definition task_response :: "'w Temporal \<Rightarrow> string \<Rightarrow> WorkflowExecutionInfo \<Rightarrow> 'w \<Rightarrow> TaskResponse" where
  "task_response C taskID info s =
     (let resp = \<lparr>tr_TaskID = taskID, tr_SessionID = [], tr_Status = TaskStatusPending, tr_Result = [], tr_Error = [],
                  tr_CreatedAt = we_StartTime info, tr_CompletedAt = None\<rparr>
      in case we_Status info of
           RUNNING \<Rightarrow> resp\<lparr>tr_Status := TaskStatusRunning\<rparr>
         | COMPLETED \<Rightarrow>
             (let resp = resp\<lparr>tr_Status := TaskStatusCompleted, tr_CompletedAt := Some (we_CloseTime info)\<rparr>
              in case GetWorkflow C taskID s of
                   Inr output \<Rightarrow> resp\<lparr>tr_SessionID := to_SessionID output, tr_Result := to_Result output\<rparr>
                 | Inl err \<Rightarrow> resp)
         | FAILED \<Rightarrow> resp\<lparr>tr_Status := TaskStatusFailed, tr_Error := ''workflow execution failed''\<rparr>
         | TIMED_OUT \<Rightarrow> resp\<lparr>tr_Status := TaskStatusTimeout\<rparr>
         | TERMINATED \<Rightarrow> resp\<lparr>tr_Status := TaskStatusFailed, tr_Error := ''workflow was cancelled''\<rparr>
         | CANCELED \<Rightarrow> resp\<lparr>tr_Status := TaskStatusFailed, tr_Error := ''workflow was cancelled''\<rparr>
         | _ \<Rightarrow> resp\<lparr>tr_Status := TaskStatusPending\<rparr>)"

definition getTask :: "'w Temporal \<Rightarrow> TextLib \<Rightarrow> string \<Rightarrow> 'w handler" where
  "getTask C T taskID r = (\<lambda>(w, s).
     case DescribeWorkflowExecution C taskID s of
       Inl err \<Rightarrow> (describe_failed err w, s)
     | Inr info \<Rightarrow> (writeJSON 200 (response_json T (task_response C taskID info s)) w, s))"

definition empty_event :: TaskStreamEvent where
  "empty_event = \<lparr>te_Status = TaskStatusPending, te_SessionID = [], te_Result = [], te_Error = [], te_Duration = 0,
     te_TokensUsed = 0, te_CompletedAt = None\<rparr>"

definition buildStreamEvent :: "'w Temporal \<Rightarrow> string \<Rightarrow> 'w \<Rightarrow> TaskStreamEvent \<times> bool" where
  "buildStreamEvent C taskID s =
     (case DescribeWorkflowExecution C taskID s of
        Inl err \<Rightarrow> (empty_event\<lparr>te_Status := TaskStatusRunning\<rparr>, False)
      | Inr info \<Rightarrow>
        (case we_Status info of
           RUNNING \<Rightarrow> (empty_event\<lparr>te_Status := TaskStatusRunning\<rparr>, False)
         | COMPLETED \<Rightarrow>
             (let event = empty_event\<lparr>te_Status := TaskStatusCompleted, te_CompletedAt := Some (we_CloseTime info)\<rparr>
              in (case GetWorkflow C taskID s of
                    Inr output \<Rightarrow> event\<lparr>te_SessionID := to_SessionID output, te_Result := to_Result output,
                                        te_Duration := to_Duration output, te_TokensUsed := to_TokensUsed output\<rparr>
                  | Inl err \<Rightarrow> event, True))
         | FAILED \<Rightarrow> (empty_event\<lparr>te_Status := TaskStatusFailed, te_Error := ''workflow execution failed''\<rparr>, True)
         | TIMED_OUT \<Rightarrow> (empty_event\<lparr>te_Status := TaskStatusTimeout\<rparr>, True)
         | TERMINATED \<Rightarrow> (empty_event\<lparr>te_Status := TaskStatusFailed, te_Error := ''workflow was cancelled''\<rparr>, True)
         | CANCELED \<Rightarrow> (empty_event\<lparr>te_Status := TaskStatusFailed, te_Error := ''workflow was cancelled''\<rparr>, True)
         | _ \<Rightarrow> (empty_event\<lparr>te_Status := TaskStatusPending\<rparr>, False)))"

text \<open>What the select of the streaming loop receives: a tick, with the state of the Temporal server at that time, or
  the end of the request.\<close>

datatype 'w stream_tick = StreamTick 'w | StreamDone

definition sse_event :: "string \<Rightarrow> string \<Rightarrow> string" where
  "sse_event kind data = ''event: '' @ kind @ newline @ ''data: '' @ data @ newline @ newline"

fun stream_loop :: "'w Temporal \<Rightarrow> TextLib \<Rightarrow> string \<Rightarrow> 'w stream_tick list \<Rightarrow> ResponseWriter \<Rightarrow> ResponseWriter" where
  "stream_loop C T taskID [] w = w"
| "stream_loop C T taskID (StreamDone # evs) w = w"
| "stream_loop C T taskID (StreamTick s # evs) w =
     (case buildStreamEvent C taskID s of (event, terminal) \<Rightarrow>
        if terminal then RW_Flush (RW_Write (sse_event ''result'' (json_Marshal (event_json T event))) w)
        else stream_loop C T taskID evs (RW_Flush (RW_Write (sse_event ''status'' (json_Marshal (event_json T event))) w)))"

definition streamTask :: "'w Temporal \<Rightarrow> TextLib \<Rightarrow> 'w stream_tick list \<Rightarrow> string \<Rightarrow> 'w handler" where
  "streamTask C T evs taskID r = (\<lambda>(w, s).
     case DescribeWorkflowExecution C taskID s of
       Inl err \<Rightarrow> (describe_failed err w, s)
     | Inr info \<Rightarrow>
         if \<not> is_Flusher w then (write_error 500 ''streaming not supported'' w, s)
         else (stream_loop C T taskID evs (RW_Flush (WriteHeader 200 (RW_Header
                 (Header_Set ''Connection'' ''keep-alive'' \<circ> Header_Set ''Cache-Control'' ''no-cache'' \<circ>
                  Header_Set ''Content-Type'' ''text/event-stream'') w))), s))"

text \<open>The clock and the streaming events of one request.\<close>

record 'w TaskEnv =
  tenv_now :: int
  tenv_ticks :: "'w stream_tick list"

definition TaskHandler_ServeHTTP :: "'w Temporal \<Rightarrow> TextLib \<Rightarrow> string \<Rightarrow> 'w TaskEnv \<Rightarrow> 'w handler" where
  "TaskHandler_ServeHTTP C T taskQueue e r = (\<lambda>ws.
     if req_Method r = ''POST'' \<and> (req_Path r = ''/api/v1/tasks'' \<or> req_Path r = ''/api/v1/tasks/'')
     then createTask C T taskQueue (tenv_now e) r ws
     else
       (let parts = SplitChar (CHR ''/'') (TrimChar (CHR ''/'') (req_Path r)) in
        if req_Method r = ''GET'' \<and> length parts = 5 \<and> parts ! 0 = ''api'' \<and> parts ! 1 = ''v1'' \<and> parts ! 2 = ''tasks'' \<and>
           parts ! 4 = ''stream''
        then streamTask C T (tenv_ticks e) (parts ! 3) r ws
        else if req_Method r = ''GET'' \<and> length parts = 4 \<and> parts ! 0 = ''api'' \<and> parts ! 1 = ''v1'' \<and> parts ! 2 = ''tasks''
        then getTask C T (parts ! 3) r ws
        else (http_NotFound (fst ws), snd ws)))"

section \<open>Lemmas\<close>

subsection \<open>Responses\<close>

lemma writeJSON_status: "wr_status (underlying w) = None \<Longrightarrow> 200 \<le> code \<Longrightarrow> client_status (writeJSON code v w) = code"
  by (simp add: writeJSON_def write_json_def client_status_def underlying_ops wire_status_set Let_def)

lemma writeJSON_body: "wr_body (underlying (writeJSON code v w)) = wr_body (underlying w) @ [json_Marshal v @ newline]"
  by (simp add: writeJSON_def write_json_def underlying_ops Let_def)

lemma synced_writeJSON: "fresh w \<Longrightarrow> 200 \<le> code \<Longrightarrow> synced (writeJSON code v w)"
  by (simp add: writeJSON_def synced_ops)

lemma synced_write_error: "fresh w \<Longrightarrow> 200 \<le> code \<Longrightarrow> synced (write_error code msg w)"
  by (simp add: write_error_def synced_writeJSON)

lemma synced_describe_failed: "fresh w \<Longrightarrow> synced (describe_failed e w)"
  by (simp add: describe_failed_def synced_write_error split: describe_error.split)

lemma synced_createTask: "fresh w \<Longrightarrow> synced (fst (createTask C T q now r (w, s)))"
  by (auto simp: createTask_def Let_def synced_writeJSON synced_write_error split: option.split prod.split sum.split)

lemma synced_getTask: "fresh w \<Longrightarrow> synced (fst (getTask C T i r (w, s)))"
  by (auto simp: getTask_def synced_writeJSON synced_describe_failed split: sum.split)

lemma synced_streamTask: "fresh w \<Longrightarrow> synced (fst (streamTask C T evs i r (w, s)))"
  by (auto simp: streamTask_def synced_write_error synced_describe_failed fresh_not_Flusher split: sum.split)

lemma synced_NotFound: "fresh w \<Longrightarrow> synced (http_NotFound w)"
  by (simp add: http_NotFound_def synced_http_Error)

text \<open>Every response of the task endpoints goes through one \<open>WriteHeader\<close>, so the audit log is truthful about them.\<close>

interpretation task: audited_handler "TaskHandler_ServeHTTP C T q e" for C T q e
proof
  fix w :: ResponseWriter and r s
  assume "fresh w"
  then show "synced (fst (TaskHandler_ServeHTTP C T q e r (w, s)))"
    by (simp add: TaskHandler_ServeHTTP_def Let_def synced_createTask synced_getTask synced_streamTask synced_NotFound)
qed

subsection \<open>Requests survive encoding and decoding\<close>

text \<open>The document \<^verbatim>\<open>json.Marshal\<close> makes of a \<open>TaskRequest\<close>.\<close>

definition request_json :: "TaskRequest \<Rightarrow> json" where
  "request_json q = JObj ([(''prompt'', JStr (tq_Prompt q))] @ omit_str ''outputSchema'' (tq_OutputSchema q) @
     (if tq_Timeout q = 0 then [] else [(''timeout'', JNum (itoa (tq_Timeout q)))]) @
     omit_str ''userId'' (tq_UserID q) @
     (if tq_Metadata q = [] then [] else [(''metadata'', JObj (map (\<lambda>(k, v). (k, JStr v)) (tq_Metadata q)))]))"

definition request_ok :: "TaskRequest \<Rightarrow> bool" where
  "request_ok q \<longleftrightarrow> utf8_valid (tq_Prompt q) \<and> utf8_valid (tq_OutputSchema q) \<and> utf8_valid (tq_UserID q) \<and>
     in_int64 (tq_Timeout q) \<and> (\<forall>(k, v) \<in> set (tq_Metadata q). utf8_valid k \<and> utf8_valid v)"

lemma request_keys:
  "\<not> key_matches ''prompt'' ''outputSchema''" "\<not> key_matches ''prompt'' ''timeout''"
  "\<not> key_matches ''prompt'' ''userId''" "\<not> key_matches ''prompt'' ''metadata''"
  "\<not> key_matches ''outputSchema'' ''prompt''" "\<not> key_matches ''outputSchema'' ''timeout''"
  "\<not> key_matches ''outputSchema'' ''userId''" "\<not> key_matches ''outputSchema'' ''metadata''"
  "\<not> key_matches ''timeout'' ''prompt''" "\<not> key_matches ''timeout'' ''outputSchema''"
  "\<not> key_matches ''timeout'' ''userId''" "\<not> key_matches ''timeout'' ''metadata''"
  "\<not> key_matches ''userId'' ''prompt''" "\<not> key_matches ''userId'' ''outputSchema''"
  "\<not> key_matches ''userId'' ''timeout''" "\<not> key_matches ''userId'' ''metadata''"
  "\<not> key_matches ''metadata'' ''prompt''" "\<not> key_matches ''metadata'' ''outputSchema''"
  "\<not> key_matches ''metadata'' ''timeout''" "\<not> key_matches ''metadata'' ''userId''"
  by (simp_all add: key_matches_upper) (code_simp+)?

lemma key_matches_refl [simp]: "key_matches k k"
  by (simp add: key_matches_def)

lemma get_string_map_members: "get_string_map (JObj (map (\<lambda>(k, v). (k, JStr v)) m)) = Some m"
  by (induction m) auto

lemma request_json_clean:
  assumes "request_ok q"
  shows "json_clean (request_json q) = request_json q" "printable (request_json q)" "json_depth (request_json q) \<le> 10000"
proof -
  have keys: "utf8_valid ''prompt''" "utf8_valid ''outputSchema''" "utf8_valid ''timeout''" "utf8_valid ''userId''"
    "utf8_valid ''metadata''" by code_simp+
  have m: "map (\<lambda>p. (utf8_clean (fst p), json_clean (snd p))) (map (\<lambda>(k, v). (k, JStr v)) (tq_Metadata q)) =
      map (\<lambda>(k, v). (k, JStr v)) (tq_Metadata q)"
    using assms by (auto simp: request_ok_def utf8_clean_valid)
  show "json_clean (request_json q) = request_json q"
    using assms m by (simp add: request_json_def omit_str_def request_ok_def utf8_clean_valid keys)
  show "printable (request_json q)"
    by (auto simp: request_json_def omit_str_def list_all_iff)
  have "foldr (\<lambda>p m. max (json_depth (snd p)) m) (map (\<lambda>(k, v). (k, JStr v)) ms) 0 = 0" for ms :: "(string \<times> string) list"
    by (induction ms) auto
  then show "json_depth (request_json q) \<le> 10000" by (simp add: request_json_def omit_str_def)
qed

lemma decode_request_json:
  assumes "request_ok q"
  shows "decode_request (request_json q) = Some q"
proof -
  have "atoi (itoa (tq_Timeout q)) = Some (tq_Timeout q)" using assms by (simp add: request_ok_def atoi_itoa)
  then show ?thesis
    by (auto simp: decode_request_def request_json_def struct_field_def omit_str_def request_keys get_string_map_members
        simp del: get_string_map.simps)
qed

lemma decode_body_request:
  assumes "request_ok q"
  shows "decode_body (Some (Raw (json_Marshal (request_json q)))) = Some q"
proof -
  note c = request_json_clean [OF assms]
  have "Decoder_Decode (json_Marshal (request_json q) @ []) = Some (request_json q)"
    using Decode_Marshal [of "request_json q" "[]"] c by (simp add: delim_def)
  then obtain rest where "json_parse (json_Marshal (request_json q)) = Some (request_json q, rest)"
    by (auto simp: Decoder_Decode_def)
  then show ?thesis by (simp add: decode_body_def decode_request_json [OF assms])
qed

subsection \<open>The streaming loop\<close>

definition status_frame :: "'w Temporal \<Rightarrow> TextLib \<Rightarrow> string \<Rightarrow> 'w \<Rightarrow> string" where
  "status_frame C T taskID s = sse_event ''status'' (json_Marshal (event_json T (fst (buildStreamEvent C taskID s))))"

definition result_frame :: "'w Temporal \<Rightarrow> TextLib \<Rightarrow> string \<Rightarrow> 'w \<Rightarrow> string" where
  "result_frame C T taskID s = sse_event ''result'' (json_Marshal (event_json T (fst (buildStreamEvent C taskID s))))"

lemma stream_write:
  assumes "is_Flusher w" "wr_status (underlying w) = Some c"
  shows "wr_body (underlying (RW_Flush (RW_Write x w))) = wr_body (underlying w) @ [x]"
    and "wr_status (underlying (RW_Flush (RW_Write x w))) = Some c"
  using assms by (cases w; simp add: Let_def wire_status_set)+

lemma stream_loop_result:
  "is_Flusher w \<Longrightarrow> wr_status (underlying w) = Some c \<Longrightarrow>
   \<forall>x \<in> set ss. \<not> snd (buildStreamEvent C taskID x) \<Longrightarrow> snd (buildStreamEvent C taskID t) \<Longrightarrow>
   wr_body (underlying (stream_loop C T taskID (map StreamTick ss @ StreamTick t # evs) w)) =
     wr_body (underlying w) @ map (status_frame C T taskID) ss @ [result_frame C T taskID t] \<and>
   wr_status (underlying (stream_loop C T taskID (map StreamTick ss @ StreamTick t # evs) w)) = Some c"
proof (induction ss arbitrary: w)
  case Nil
  then show ?case by (auto simp: stream_write result_frame_def split: prod.splits)
next
  case (Cons x ss)
  let ?w = "RW_Flush (RW_Write (status_frame C T taskID x) w)"
  have "is_Flusher ?w" using Cons.prems(1) by simp
  with Cons.IH [of ?w] Cons.prems stream_write [OF Cons.prems(1,2)] show ?case
    by (auto simp: status_frame_def split: prod.split)
qed

subsection \<open>A Temporal server that runs workflows at once\<close>

text \<open>What is assumed of the server: a started task keeps its input, and the output of a task that completed is that
  of a successful run of the workflow on this input.\<close>

definition engine_ok :: "'w Temporal \<Rightarrow> 'a ActivityCalls \<Rightarrow> ('w \<Rightarrow> string \<Rightarrow> TaskInput option) \<Rightarrow> bool" where
  "engine_ok C A started \<longleftrightarrow>
     (\<forall>opts inp s i s'. ExecuteWorkflow C opts inp s = (Inr i, s') \<longrightarrow> started s' i = Some inp) \<and>
     (\<forall>s i inp out. started s i = Some inp \<longrightarrow> GetWorkflow C i s = Inr out \<longrightarrow>
        (\<exists>t0 t1 a R. CodingTaskWorkflow A inp t0 t1 a = ((out, None), R)))"

record 'a InlineServer =
  srv_runs :: "(string \<times> TaskInput \<times> TaskOutput \<times> go_error option) list"
  srv_world :: 'a

definition inline_temporal :: "'a ActivityCalls \<Rightarrow> int \<Rightarrow> 'a InlineServer Temporal" where
  "inline_temporal A t =
     \<lparr>ExecuteWorkflow = (\<lambda>opts inp s.
        (let i = ''task-'' @ itoa (int (length (srv_runs s))) in
         case CodingTaskWorkflow A inp t t (srv_world s) of ((out, err), R) \<Rightarrow>
           (Inr i, s\<lparr>srv_runs := (i, inp, out, err) # srv_runs s, srv_world := run_world R\<rparr>))),
      DescribeWorkflowExecution = (\<lambda>i s. case map_of (srv_runs s) i of
          None \<Rightarrow> Inl (NotFound (Errorf ''workflow not found''))
        | Some (inp, out, err) \<Rightarrow>
            Inr \<lparr>we_Status = (if err = None then COMPLETED else FAILED), we_StartTime = t, we_CloseTime = t\<rparr>),
      GetWorkflow = (\<lambda>i s. case map_of (srv_runs s) i of
          Some (inp, out, None) \<Rightarrow> Inr out
        | Some (inp, out, Some err) \<Rightarrow> Inl err
        | None \<Rightarrow> Inl (Errorf ''workflow not found''))\<rparr>"

text \<open>Its states: every recorded run is a run of the workflow.\<close>

definition honest_started :: "'a ActivityCalls \<Rightarrow> 'a InlineServer \<Rightarrow> string \<Rightarrow> TaskInput option" where
  "honest_started A s i =
     (case map_of (srv_runs s) i of
        Some (inp, out, err) \<Rightarrow> if \<exists>t0 t1 a R. CodingTaskWorkflow A inp t0 t1 a = ((out, err), R) then Some inp else None
      | None \<Rightarrow> None)"

lemma inline_engine_ok: "engine_ok (inline_temporal A t) A (honest_started A)"
  unfolding engine_ok_def
proof (intro conjI allI impI)
  fix opts inp s i s'
  assume "ExecuteWorkflow (inline_temporal A t) opts inp s = (Inr i, s')"
  then show "honest_started A s' i = Some inp"
    by (auto simp: inline_temporal_def honest_started_def Let_def split: prod.splits) blast+
next
  fix s i inp out
  assume "honest_started A s i = Some inp" "GetWorkflow (inline_temporal A t) i s = Inr out"
  then show "\<exists>t0 t1 a R. CodingTaskWorkflow A inp t0 t1 a = ((out, None), R)"
    by (auto simp: inline_temporal_def honest_started_def split: option.splits if_splits) blast
qed

definition sample_text :: TextLib where
  "sample_text = \<lparr>tl_time = itoa, tl_seconds = itoa, tl_ratio = (\<lambda>a b. ''0.5''), tl_json_error = (\<lambda>_ _. ''unexpected EOF'')\<rparr>"

definition sample_server :: "MockSandboxProvider Activities InlineServer" where
  "sample_server = \<lparr>srv_runs = [], srv_world = no_dependencies\<rparr>"

definition sample_task :: TaskRequest where
  "sample_task = \<lparr>tq_Prompt = sample_doc, tq_OutputSchema = ''{}'', tq_Timeout = 60, tq_UserID = ''alice'', tq_Metadata = []\<rparr>"

definition sample_post :: Request where
  "sample_post = sample_request ''POST'' ''/api/v1/tasks'' [] (json_Marshal (request_json sample_task))"

definition sample_finished :: "MockSandboxProvider Activities InlineServer" where
  "sample_finished = sample_server\<lparr>srv_runs := [(''task-0'', sample_input, zero_output, None)]\<rparr>"

lemma sample_task_ok: "request_ok sample_task"
  by code_simp

lemma sample_execute:
  "\<exists>R. \<forall>opts. ExecuteWorkflow (inline_temporal sample_standalone 1) opts (task_input sample_task sample_post) sample_server =
    (Inr ''task-0'', sample_server\<lparr>srv_runs := [(''task-0'', task_input sample_task sample_post,
       \<lparr>to_SessionID = ''sess-1'', to_Result = compact_out sample_doc, to_Duration = 0, to_TokensUsed = 0\<rparr>, None)],
       srv_world := R\<rparr>)"
proof -
  have i: "task_input sample_task sample_post = sample_input\<lparr>ti_Timeout := task_timeout 60\<rparr>"
    by (simp add: task_input_def task_user_def sample_task_def sample_input_def)
  have t: "time_sub 1 1 = 0" "itoa 0 = ''0''" by code_simp+
  obtain R where "CodingTaskWorkflow sample_standalone (task_input sample_task sample_post) 1 1 no_dependencies =
      ((\<lparr>to_SessionID = ''sess-1'', to_Result = compact_out sample_doc, to_Duration = 0, to_TokensUsed = 0\<rparr>, None), R)"
    using sample_run_any [of "task_timeout 60" 1 1] unfolding i t by (metis prod.collapse)
  then show ?thesis using t by (intro exI [of _ "run_world R"]) (simp add: inline_temporal_def sample_server_def Let_def)
qed

lemma task_result_source:
  assumes "tr_Result (task_response C i info s) \<noteq> []"
  shows "\<exists>out. GetWorkflow C i s = Inr out \<and> tr_Result (task_response C i info s) = to_Result out"
  using assms by (cases "we_Status info"; cases "GetWorkflow C i s") (simp_all add: task_response_def)

lemma createTask_started:
  assumes "request_ok q" "tq_Prompt q \<noteq> []" "req_Body r = Some (Raw (json_Marshal (request_json q)))"
  shows "createTask C T taskQueue now r (w, s) =
    (case ExecuteWorkflow C \<lparr>so_TaskQueue = taskQueue,
        so_WorkflowExecutionTimeout = wrap64 (ti_Timeout (task_input q r) + 10 * Minute)\<rparr> (task_input q r) s of
       (Inl err, s') \<Rightarrow> (write_error 500 ''failed to start task'' w, s')
     | (Inr workflowID, s') \<Rightarrow>
         (writeJSON 202 (response_json T \<lparr>tr_TaskID = workflowID, tr_SessionID = [], tr_Status = TaskStatusPending,
            tr_Result = [], tr_Error = [], tr_CreatedAt = now, tr_CompletedAt = None\<rparr>) w, s'))"
  using assms decode_body_request [OF assms(1)] by (simp add: createTask_def Let_def split: sum.split prod.split)

section \<open>Properties\<close>

text \<open>C4: A task request that a client encodes as JSON is started as it was written: for every request with a prompt
  (strings in UTF-8, timeout a 64-bit integer) the handler starts exactly one workflow, with this prompt and
  schema, and answers 202 with the workflow ID of the run, or 500 when the workflow could not be started.\<close>

theorem createTask_roundtrip:
  assumes "request_ok q" "tq_Prompt q \<noteq> []" "req_Body r = Some (Raw (json_Marshal (request_json q)))"
    and "wr_status (underlying w) = None" and "createTask C T taskQueue now r (w, s) = (w', s')"
  shows "\<exists>opts inp res. ExecuteWorkflow C opts inp s = (res, s') \<and>
    ti_Prompt inp = tq_Prompt q \<and> ti_OutputSchema inp = tq_OutputSchema q \<and>
    (tq_UserID q \<noteq> [] \<longrightarrow> ti_UserID inp = tq_UserID q) \<and> ti_UserID inp \<noteq> [] \<and> so_TaskQueue opts = taskQueue \<and>
    (case res of
       Inl err \<Rightarrow> client_status w' = 500
     | Inr workflowID \<Rightarrow> client_status w' = 202 \<and>
         wr_body (underlying w') = wr_body (underlying w) @ [json_Marshal (response_json T \<lparr>tr_TaskID = workflowID,
           tr_SessionID = [], tr_Status = TaskStatusPending, tr_Result = [], tr_Error = [], tr_CreatedAt = now,
           tr_CompletedAt = None\<rparr>) @ newline])"
proof -
  let ?opts = "\<lparr>so_TaskQueue = taskQueue, so_WorkflowExecutionTimeout = wrap64 (ti_Timeout (task_input q r) + 10 * Minute)\<rparr>"
  obtain res s1 where x: "ExecuteWorkflow C ?opts (task_input q r) s = (res, s1)" by (meson surj_pair)
  show ?thesis
    using assms(4,5) x createTask_started [OF assms(1-3), of C T taskQueue now w s]
    by (intro exI [of _ ?opts] exI [of _ "task_input q r"] exI [of _ res])
       (auto simp: task_input_def task_user_def write_error_def writeJSON_status writeJSON_body split: sum.splits)
qed

theorem createTask_roundtrip_witness:
  "\<exists>opts inp res. ExecuteWorkflow (inline_temporal sample_standalone 1) opts inp sample_server =
      (res, snd (createTask (inline_temporal sample_standalone 1) sample_text ''q'' 1 sample_post (new_writer, sample_server))) \<and>
      ti_UserID inp = ''alice''"
proof -
  have b: "req_Body sample_post = Some (Raw (json_Marshal (request_json sample_task)))" "tq_Prompt sample_task \<noteq> []"
    "wr_status (underlying new_writer) = None"
    by (simp_all add: sample_post_def sample_request_def sample_task_def sample_doc_def new_writer_def)
  have u: "tq_UserID sample_task = ''alice''" by (simp add: sample_task_def)
  show ?thesis
    using createTask_roundtrip [OF sample_task_ok b(2,1,3) surjective_pairing, where C = "inline_temporal sample_standalone 1"
      and T = sample_text and taskQueue = "''q''" and now = 1 and s = sample_server] u by auto
qed

text \<open>C24: The timeout of a task lies between zero and two hours for every requested number of seconds up to
  9223372036; the next larger request overflows the 64-bit duration and gives the task a negative timeout,
  which the upper bound lets through.\<close>

theorem task_timeout_bounds:
  "(t \<le> 9223372036 \<longrightarrow> 0 < task_timeout t \<and> task_timeout t \<le> 2 * Hour) \<and>
   task_timeout 9223372037 < 0 \<and> wrap64 (task_timeout 9223372037 + 10 * Minute) < 0"
proof -
  have "0 < task_timeout t \<and> task_timeout t \<le> 2 * Hour" if "t \<le> 9223372036"
  proof (cases "t > 0")
    case True
    then have "wrap64 (t * Second) = t * Second" using that by (intro wrap64_id) (simp add: in_int64_def durations)
    then show ?thesis using True by (simp add: task_timeout_def maxTaskTimeout_def durations Let_def)
  qed (simp add: task_timeout_def maxTaskTimeout_def durations Let_def)
  then show ?thesis by (simp add: task_timeout_def maxTaskTimeout_def durations Let_def wrap64_def)
qed

theorem task_timeout_bounds_witness: "task_timeout 60 = Minute \<and> 0 < task_timeout 60 \<and> task_timeout 60 \<le> 2 * Hour"
  using task_timeout_bounds [of 60] by (simp add: task_timeout_def maxTaskTimeout_def durations Let_def wrap64_def)

text \<open>The status endpoint and the event stream agree: for the same state of the Temporal server they report the
  same status, session, result, error and completion time, and the stream calls a state final exactly when
  the reported status is completed, failed or timeout; while the server cannot be asked the stream goes on.\<close>

theorem task_views_agree:
  "case DescribeWorkflowExecution C taskID s of
     Inl err \<Rightarrow> \<not> snd (buildStreamEvent C taskID s)
   | Inr info \<Rightarrow>
      (case (task_response C taskID info s, buildStreamEvent C taskID s) of
         (resp, event, terminal) \<Rightarrow>
           te_Status event = tr_Status resp \<and> te_SessionID event = tr_SessionID resp \<and> te_Result event = tr_Result resp \<and>
           te_Error event = tr_Error resp \<and> te_CompletedAt event = tr_CompletedAt resp \<and> tr_TaskID resp = taskID \<and>
           (terminal \<longleftrightarrow> tr_Status resp \<in> {TaskStatusCompleted, TaskStatusFailed, TaskStatusTimeout}))"
proof (cases "DescribeWorkflowExecution C taskID s")
  case (Inr info)
  then show ?thesis
    by (cases "we_Status info"; cases "GetWorkflow C taskID s")
       (simp_all add: task_response_def buildStreamEvent_def empty_event_def)
qed (simp add: buildStreamEvent_def)

text \<open>The stream of a task ends, on a writer that can flush: when the task is in a final state at some tick, the
  client has received status 200, one status event for each tick before it and then exactly one result event, and
  nothing more is sent, whatever the later ticks would bring.  Behind the router's audit log no writer can
  flush; what its clients get is in \<open>Router_Server\<close>.\<close>

theorem stream_ends_with_result:
  assumes "is_Flusher w" "wr_status (underlying w) = None" "wr_body (underlying w) = []"
    and "DescribeWorkflowExecution C taskID s = Inr info"
    and "\<forall>x \<in> set ss. \<not> snd (buildStreamEvent C taskID x)" and "snd (buildStreamEvent C taskID t)"
    and "streamTask C T (map StreamTick ss @ StreamTick t # evs) taskID r (w, s) = (w', s')"
  shows "client_status w' = 200 \<and>
    wr_body (underlying w') = map (status_frame C T taskID) ss @ [result_frame C T taskID t] \<and> s' = s"
proof -
  let ?w = "RW_Flush (WriteHeader 200 (RW_Header (Header_Set ''Connection'' ''keep-alive'' \<circ>
     Header_Set ''Cache-Control'' ''no-cache'' \<circ> Header_Set ''Content-Type'' ''text/event-stream'') w))"
  have "is_Flusher ?w" "wr_status (underlying ?w) = Some 200" "wr_body (underlying ?w) = []"
    using assms(1-3) by (cases w; simp add: wire_status_set)+
  with stream_loop_result [of ?w 200 ss C taskID t T evs] assms show ?thesis
    by (auto simp: streamTask_def client_status_def)
qed

theorem stream_ends_with_result_witness:
  "\<exists>w' s'. streamTask (inline_temporal sample_standalone 1) sample_text [StreamTick sample_server, StreamTick sample_finished, StreamDone]
      ''task-0'' sample_post (new_writer, sample_finished) = (w', s') \<and>
    wr_body (underlying w') = [status_frame (inline_temporal sample_standalone 1) sample_text ''task-0'' sample_server,
      result_frame (inline_temporal sample_standalone 1) sample_text ''task-0'' sample_finished]"
proof -
  let ?C = "inline_temporal sample_standalone 1"
  obtain w' s' where r: "streamTask ?C sample_text (map StreamTick [sample_server] @ StreamTick sample_finished # [StreamDone])
      ''task-0'' sample_post (new_writer, sample_finished) = (w', s')" by (meson surj_pair)
  have d: "DescribeWorkflowExecution ?C ''task-0'' sample_finished =
      Inr \<lparr>we_Status = COMPLETED, we_StartTime = 1, we_CloseTime = 1\<rparr>"
    by (simp add: inline_temporal_def sample_finished_def)
  have n: "\<forall>x \<in> set [sample_server]. \<not> snd (buildStreamEvent ?C ''task-0'' x)"
    by (simp add: inline_temporal_def sample_server_def buildStreamEvent_def)
  have t: "snd (buildStreamEvent ?C ''task-0'' sample_finished)"
    by (simp add: buildStreamEvent_def d Let_def)
  have w: "is_Flusher new_writer" "wr_status (underlying new_writer) = None" "wr_body (underlying new_writer) = []"
    by (simp_all add: new_writer_def)
  from stream_ends_with_result [OF w d n t r] r show ?thesis by auto
qed

text \<open>C3: A schema given with a task is met by the result the API reports for it: if the workflow server runs the
  workflow on the input it was given, every non-empty result that the status endpoint ever reports for a
  task posted with a schema is a JSON document that the compiled schema accepts.\<close>

theorem posted_schema_is_met:
  assumes "engine_ok C A started" and "ac_Validate A = ValidateOutputActivity L"
    and "request_ok q" "tq_Prompt q \<noteq> []" "tq_OutputSchema q \<noteq> []"
    and "req_Body r = Some (Raw (json_Marshal (request_json q)))" "wr_status (underlying w) = None"
    and "createTask C T taskQueue now r (w, s) = (w', s')" "client_status w' = 202"
  shows "\<exists>opts workflowID. ExecuteWorkflow C opts (task_input q r) s = (Inr workflowID, s') \<and>
    wr_body (underlying w') = wr_body (underlying w) @ [json_Marshal (response_json T
       \<lparr>tr_TaskID = workflowID, tr_SessionID = [], tr_Status = TaskStatusPending, tr_Result = [], tr_Error = [],
        tr_CreatedAt = now, tr_CompletedAt = None\<rparr>) @ newline] \<and>
    (\<forall>s2 info. started s2 workflowID = started s' workflowID \<longrightarrow> tr_Result (task_response C workflowID info s2) \<noteq> [] \<longrightarrow>
      (\<exists>S check v. json_Unmarshal (tq_OutputSchema q) = Some S \<and> sl_Compile L S = Inr check \<and>
         json_Unmarshal (tr_Result (task_response C workflowID info s2)) = Some v \<and> check v = None))"
proof -
  let ?inp = "task_input q r"
  let ?opts = "\<lparr>so_TaskQueue = taskQueue, so_WorkflowExecutionTimeout = wrap64 (ti_Timeout ?inp + 10 * Minute)\<rparr>"
  obtain res s1 where x: "ExecuteWorkflow C ?opts ?inp s = (res, s1)" by (meson surj_pair)
  note c = createTask_started [OF assms(3,4,6), of C T taskQueue now w s]
  obtain workflowID where id: "res = Inr workflowID"
    using c x assms(7-9) by (cases res) (auto simp: write_error_def writeJSON_status)
  have s': "s' = s1" and w': "wr_body (underlying w') = wr_body (underlying w) @ [json_Marshal (response_json T
       \<lparr>tr_TaskID = workflowID, tr_SessionID = [], tr_Status = TaskStatusPending, tr_Result = [], tr_Error = [],
        tr_CreatedAt = now, tr_CompletedAt = None\<rparr>) @ newline]"
    using c x id assms(8) by (auto simp: writeJSON_body)
  have st: "started s' workflowID = Some ?inp" using assms(1) x id s' unfolding engine_ok_def by blast
  have sch: "ti_OutputSchema ?inp = tq_OutputSchema q" by (simp add: task_input_def)
  have "\<exists>S check v. json_Unmarshal (tq_OutputSchema q) = Some S \<and> sl_Compile L S = Inr check \<and>
         json_Unmarshal (tr_Result (task_response C workflowID info s2)) = Some v \<and> check v = None"
    if "started s2 workflowID = started s' workflowID" and ne: "tr_Result (task_response C workflowID info s2) \<noteq> []" for s2 info
  proof -
    obtain out where out: "GetWorkflow C workflowID s2 = Inr out" "tr_Result (task_response C workflowID info s2) = to_Result out"
      using task_result_source [OF ne] by blast
    have "started s2 workflowID = Some ?inp" using that(1) st by simp
    with out(1) assms(1) obtain t0 t1 a R where run: "CodingTaskWorkflow A ?inp t0 t1 a = ((out, None), R)"
      unfolding engine_ok_def by blast
    from validated_result [OF run assms(2)] show ?thesis using assms(5) out(2) unfolding sch by simp
  qed
  with w' x id s' show ?thesis by blast
qed

theorem posted_schema_is_met_witness:
  "\<exists>v. json_Unmarshal (tr_Result (task_response (inline_temporal sample_standalone 1) ''task-0''
     \<lparr>we_Status = COMPLETED, we_StartTime = 1, we_CloseTime = 1\<rparr>
     (snd (createTask (inline_temporal sample_standalone 1) sample_text ''q'' 1 sample_post (new_writer, sample_server))))) = Some v"
proof -
  let ?C = "inline_temporal sample_standalone 1"
  let ?s = "snd (createTask ?C sample_text ''q'' 1 sample_post (new_writer, sample_server))"
  let ?w = "fst (createTask ?C sample_text ''q'' 1 sample_post (new_writer, sample_server))"
  have v: "ac_Validate sample_standalone = ValidateOutputActivity sample_lib"
    by (simp add: sample_standalone_def standalone_validate)
  have p: "tq_Prompt sample_task \<noteq> []" "tq_OutputSchema sample_task \<noteq> []"
    "req_Body sample_post = Some (Raw (json_Marshal (request_json sample_task)))" "wr_status (underlying new_writer) = None"
    by (simp_all add: sample_post_def sample_request_def sample_task_def sample_doc_def new_writer_def)
  obtain R where run: "ExecuteWorkflow ?C opts (task_input sample_task sample_post) sample_server =
      (Inr ''task-0'', sample_server\<lparr>srv_runs := [(''task-0'', task_input sample_task sample_post,
         \<lparr>to_SessionID = ''sess-1'', to_Result = compact_out sample_doc, to_Duration = 0, to_TokensUsed = 0\<rparr>, None)],
         srv_world := R\<rparr>)" for opts
    using sample_execute by blast
  note c = createTask_started [OF sample_task_ok p(1,3), of ?C sample_text "''q''" 1 new_writer sample_server, unfolded run]
  have w: "client_status ?w = 202" unfolding c using p(4) by (simp add: writeJSON_status)
  have r: "tr_Result (task_response ?C ''task-0'' \<lparr>we_Status = COMPLETED, we_StartTime = 1, we_CloseTime = 1\<rparr> ?s) = compact_out sample_doc"
    unfolding c by (simp add: task_response_def inline_temporal_def)
  have ne: "compact_out sample_doc \<noteq> []" by code_simp
  from posted_schema_is_met [OF inline_engine_ok v sample_task_ok p surjective_pairing w]
  obtain opts workflowID where e: "ExecuteWorkflow ?C opts (task_input sample_task sample_post) sample_server = (Inr workflowID, ?s)"
    and all: "\<forall>s2 info. honest_started sample_standalone s2 workflowID = honest_started sample_standalone ?s workflowID \<longrightarrow>
      tr_Result (task_response ?C workflowID info s2) \<noteq> [] \<longrightarrow>
      (\<exists>S check v. json_Unmarshal (tq_OutputSchema sample_task) = Some S \<and> sl_Compile sample_lib S = Inr check \<and>
         json_Unmarshal (tr_Result (task_response ?C workflowID info s2)) = Some v \<and> check v = None)" by blast
  have "workflowID = ''task-0''" using e run [of opts] by simp
  with all [rule_format, OF refl] ne r show ?thesis by metis
qed

end
