(* ===== verification/Task_Answers.thy ===== *)
theory Task_Answers
  imports Task_API
begin

text \<open>
  The wire format of the task endpoints of \<^verbatim>\<open>internal/router/tasks.go\<close>: which JSON documents a client of \<^verbatim>\<open>POST /api/v1/tasks\<close>
  and \<^verbatim>\<open>GET /api/v1/tasks/<id>\<close> has to expect, as the types of \<^verbatim>\<open>api/v1/types.go\<close> prescribe them.
\<close>

section \<open>Definitions\<close>

definition task_fields :: "string list" where
  "task_fields = [''taskId'', ''sessionId'', ''status'', ''result'', ''error'', ''createdAt'', ''completedAt'']"

definition task_statuses :: "string list" where
  "task_statuses = [''pending'', ''running'', ''completed'', ''failed'', ''timeout'']"

text \<open>All fields of a \<^verbatim>\<open>TaskResponse\<close> are strings, in the order of the struct; three are always there.\<close>

definition task_field :: "string \<times> json \<Rightarrow> bool" where
  "task_field f = (case f of (k, JStr v) \<Rightarrow> k \<in> set task_fields \<and> (k = ''status'' \<longrightarrow> v \<in> set task_statuses) | _ \<Rightarrow> False)"

definition task_doc :: "json \<Rightarrow> bool" where
  "task_doc v = (case v of JObj ms \<Rightarrow> list_all task_field ms \<and> distinct (map fst ms) \<and>
     list_all (\<lambda>k. k \<in> set (map fst ms)) [''taskId'', ''status'', ''createdAt''] | _ \<Rightarrow> False)"

definition error_doc :: "int \<Rightarrow> json \<Rightarrow> bool" where
  "error_doc code v = (case v of JObj [(k1, JNum t), (k2, JStr m)] \<Rightarrow> k1 = ''code'' \<and> t = itoa code \<and> k2 = ''message'' | _ \<Rightarrow> False)"

text \<open>What a response says: one JSON document, announced as such, that is a task for a successful status and an error with
  the status as its code otherwise.\<close>

definition typed_answer :: "ResponseWriter \<Rightarrow> bool" where
  "typed_answer w =
     (case wr_body (underlying w) of
        [doc] \<Rightarrow> Header_Get (wr_sent (underlying w)) ''Content-Type'' = ''application/json'' \<and>
          (case Decoder_Decode doc of
             Some v \<Rightarrow> if client_status w = 200 \<or> client_status w = 202 then task_doc v else error_doc (client_status w) v
           | None \<Rightarrow> False)
      | _ \<Rightarrow> False)"

section \<open>Lemmas\<close>

lemma task_keys_clean:
  "utf8_clean ''taskId'' = ''taskId''" "utf8_clean ''sessionId'' = ''sessionId''" "utf8_clean ''status'' = ''status''"
  "utf8_clean ''result'' = ''result''" "utf8_clean ''error'' = ''error''" "utf8_clean ''createdAt'' = ''createdAt''"
  "utf8_clean ''completedAt'' = ''completedAt''" "utf8_clean ''code'' = ''code''" "utf8_clean ''message'' = ''message''"
  by (rule utf8_clean_valid, code_simp)+

lemma status_clean: "utf8_clean (status_text st) = status_text st"
  by (cases st) (simp_all only: status_text.simps, (rule utf8_clean_valid, code_simp)+)

lemma status_listed: "status_text st \<in> set task_statuses"
  by (cases st) (simp_all add: task_statuses_def)

lemma response_doc: "task_doc (json_clean (response_json T r))" "printable (response_json T r)" "json_depth (response_json T r) \<le> 10000"
  by (auto simp: task_doc_def task_field_def response_json_def omit_str_def omit_time_def task_fields_def task_keys_clean
      status_clean status_listed split: option.split)

lemma error_doc_json: "error_doc code (json_clean (error_json \<lparr>eresp_Code = code, eresp_Message = m\<rparr>))" "printable (error_json e)"
    "json_depth (error_json e) \<le> 10000"
  by (simp_all add: error_doc_def error_json_def task_keys_clean)

lemma decode_line: "printable v \<Longrightarrow> json_depth v \<le> 10000 \<Longrightarrow> Decoder_Decode (json_Marshal v @ newline) = Some (json_clean v)"
  by (rule Decode_Marshal) (simp_all add: delim_def newline_def is_digit_def)

lemma writeJSON_sent:
  "wr_status (underlying w) = None \<Longrightarrow> 200 \<le> code \<Longrightarrow>
     Header_Get (wr_sent (underlying (writeJSON code v w))) ''Content-Type'' = ''application/json''"
  by (simp add: writeJSON_def write_json_def underlying_ops wire_WriteHeader_def Let_def)

lemma typed_writeJSON:
  assumes "wr_status (underlying w) = None" "wr_body (underlying w) = []" "200 \<le> code"
    and "printable v" "json_depth v \<le> 10000"
    and "if code = 200 \<or> code = 202 then task_doc (json_clean v) else error_doc code (json_clean v)"
  shows "typed_answer (writeJSON code v w)"
  using assms by (simp add: typed_answer_def writeJSON_body writeJSON_sent writeJSON_status decode_line)

lemma typed_error:
  assumes "wr_status (underlying w) = None" "wr_body (underlying w) = []" "202 < code"
  shows "typed_answer (write_error code m w)"
  unfolding write_error_def using assms by (intro typed_writeJSON) (simp_all add: error_doc_json)

lemma typed_task:
  assumes "wr_status (underlying w) = None" "wr_body (underlying w) = []" "code = 200 \<or> code = 202"
  shows "typed_answer (writeJSON code (response_json T r) w)"
  using assms by (intro typed_writeJSON) (auto simp: response_doc)

section \<open>Properties\<close>

text \<open>C38: The answers of the task endpoints are well typed, whatever the request, the Temporal server and the texts in them:
  each is one JSON document with the content type of JSON; with status 200 or 202 it is a task with an id, a status
  out of five and a creation time, and no field but those of \<^verbatim>\<open>TaskResponse\<close>; with any other status it is an
  \<^verbatim>\<open>ErrorResponse\<close> whose code is the status of the response.\<close>

theorem task_answers_typed:
  assumes "wr_status (underlying w) = None" "wr_body (underlying w) = []"
  shows "typed_answer (fst (createTask C T q now r (w, s))) \<and> typed_answer (fst (getTask C T taskID r (w, s)))"
proof
  show "typed_answer (fst (createTask C T q now r (w, s)))"
    using typed_error [OF assms] typed_task [OF assms]
    by (auto simp: createTask_def Let_def split: option.split prod.split sum.split)
  show "typed_answer (fst (getTask C T taskID r (w, s)))"
    using typed_error [OF assms] typed_task [OF assms]
    by (auto simp: getTask_def describe_failed_def split: sum.split describe_error.split)
qed

theorem task_answers_typed_witness:
  "typed_answer (fst (createTask (inline_temporal sample_standalone 1) sample_text ''coding-tasks'' 1 sample_post (new_writer, sample_server)))"
proof -
  have "wr_status (underlying new_writer) = None" "wr_body (underlying new_writer) = []" by (simp_all add: new_writer_def)
  from task_answers_typed [OF this] show ?thesis by (rule conjunct1)
qed

end
