(* ===== verification/Telemetry.thy ===== *)
theory Telemetry
  imports Go_Prelude
begin

text \<open>
  Telemetry, \<^verbatim>\<open>internal/telemetry\<close>: the tracer, the meter and the logger that a program installs, and the function that
  stops them.

  OpenTelemetry and Prometheus are third-party code: \<open>OtelLib\<close> says how their calls end.  The state is what is
  global in the process: the installed providers, the default logger, the metrics servers that were started, and
  the providers that run, which hold exporters and background goroutines until they are shut down.  The
  metrics server runs on a goroutine of its own; an error of it is only logged.
\<close>

section \<open>Definitions\<close>

text \<open>The resource that both providers describe themselves with.\<close>

definition otel_resource :: "string \<Rightarrow> (string \<times> string) list" where
  "otel_resource serviceName = [(''service.name'', serviceName), (''service.version'', ''0.1.0'')]"

record TracerProvider =
  tp_resource :: "(string \<times> string) list"
  tp_exporter :: "string option"

record MeterProvider =
  mp_resource :: "(string \<times> string) list"

text \<open>A JSON logger on standard output, with the attributes it adds to each line.\<close>

record Logger =
  lg_attrs :: "(string \<times> string) list"

text \<open>A server for metrics: its address and the pattern of its handler.\<close>

record MetricsServer =
  ms_Addr :: string
  ms_pattern :: string

datatype otel_provider = Tracer TracerProvider | Meter MeterProvider

record OtelLib =
  ol_otlp :: "string \<Rightarrow> go_error option"
  ol_prometheus :: "go_error option"
  ol_Shutdown :: "otel_provider \<Rightarrow> go_error option"

record Globals =
  gl_tracer :: "TracerProvider option"
  gl_meter :: "MeterProvider option"
  gl_logger :: "Logger option"
  gl_metrics_servers :: "MetricsServer list"
  gl_running :: "otel_provider list"

record SetupConfig =
  sc_ServiceName :: string
  sc_OTelEndpoint :: string
  sc_PrometheusPort :: int
  sc_LogLevel :: string

definition InitTracer :: "OtelLib \<Rightarrow> string \<Rightarrow> string \<Rightarrow> Globals \<Rightarrow> (go_error + TracerProvider) \<times> Globals" where
  "InitTracer L serviceName otlpEndpoint g =
     (let run = (\<lambda>tp. (Inr tp, g\<lparr>gl_running := gl_running g @ [Tracer tp]\<rparr>)) in
      if otlpEndpoint = [] then run \<lparr>tp_resource = otel_resource serviceName, tp_exporter = None\<rparr>
      else case ol_otlp L otlpEndpoint of
             Some err \<Rightarrow> (Inl err, g)
           | None \<Rightarrow> run \<lparr>tp_resource = otel_resource serviceName, tp_exporter = Some otlpEndpoint\<rparr>)"

definition InitMeter :: "OtelLib \<Rightarrow> string \<Rightarrow> Globals \<Rightarrow> (go_error + MeterProvider) \<times> Globals" where
  "InitMeter L serviceName g =
     (case ol_prometheus L of
        Some err \<Rightarrow> (Inl err, g)
      | None \<Rightarrow> (let mp = \<lparr>mp_resource = otel_resource serviceName\<rparr> in (Inr mp, g\<lparr>gl_running := gl_running g @ [Meter mp]\<rparr>)))"

definition InitLogger :: "string \<Rightarrow> Logger" where
  "InitLogger serviceName = \<lparr>lg_attrs = [(''service.name'', serviceName)]\<rparr>"

text \<open>The function that \<^verbatim>\<open>Setup\<close> returns keeps the two providers.\<close>

record Shutdown =
  sd_tp :: TracerProvider
  sd_mp :: MeterProvider

definition run_shutdown :: "OtelLib \<Rightarrow> Shutdown \<Rightarrow> Globals \<Rightarrow> go_error option \<times> Globals" where
  "run_shutdown L sd g =
     (let tpErr = ol_Shutdown L (Tracer (sd_tp sd));
          mpErr = ol_Shutdown L (Meter (sd_mp sd));
          g' = g\<lparr>gl_running := remove1 (Meter (sd_mp sd)) (remove1 (Tracer (sd_tp sd)) (gl_running g))\<rparr>
      in (if tpErr \<noteq> None then tpErr else mpErr, g'))"

definition Setup :: "OtelLib \<Rightarrow> SetupConfig \<Rightarrow> Globals \<Rightarrow> (go_error + Shutdown) \<times> Globals" where
  "Setup L cfg g =
     (case InitTracer L (sc_ServiceName cfg) (sc_OTelEndpoint cfg) g of
        (Inl err, g1) \<Rightarrow> (Inl (Wrapf ''init tracer: '' err), g1)
      | (Inr tp, g1) \<Rightarrow>
     (let g2 = g1\<lparr>gl_tracer := Some tp\<rparr> in
      case InitMeter L (sc_ServiceName cfg) g2 of
        (Inl err, g3) \<Rightarrow> (Inl (Wrapf ''init meter: '' err), g3)
      | (Inr mp, g3) \<Rightarrow>
     (let g4 = g3\<lparr>gl_meter := Some mp, gl_logger := Some (InitLogger (sc_ServiceName cfg))\<rparr>;
          g5 = (if sc_PrometheusPort cfg > 0
                then g4\<lparr>gl_metrics_servers := gl_metrics_servers g4 @ [\<lparr>ms_Addr = '':'' @ itoa (sc_PrometheusPort cfg), ms_pattern = ''/metrics''\<rparr>]\<rparr>
                else g4)
      in (Inr \<lparr>sd_tp = tp, sd_mp = mp\<rparr>, g5))))"

definition sample_otel :: OtelLib where
  "sample_otel = \<lparr>ol_otlp = (\<lambda>_. None), ol_prometheus = None, ol_Shutdown = (\<lambda>p. case p of Tracer _ \<Rightarrow> Some (Errorf ''flush'') | Meter _ \<Rightarrow> None)\<rparr>"

definition no_globals :: Globals where
  "no_globals = \<lparr>gl_tracer = None, gl_meter = None, gl_logger = None, gl_metrics_servers = [], gl_running = []\<rparr>"

section \<open>Lemmas\<close>

lemma Setup_ok:
  assumes "Setup L cfg g = (Inr sd, g')"
  shows "gl_running g' = gl_running g @ [Tracer (sd_tp sd), Meter (sd_mp sd)]" "gl_tracer g' = Some (sd_tp sd)"
    "gl_meter g' = Some (sd_mp sd)" "gl_logger g' = Some (InitLogger (sc_ServiceName cfg))"
    "tp_resource (sd_tp sd) = otel_resource (sc_ServiceName cfg)" "mp_resource (sd_mp sd) = otel_resource (sc_ServiceName cfg)"
    "tp_exporter (sd_tp sd) = (if sc_OTelEndpoint cfg = [] then None else Some (sc_OTelEndpoint cfg))"
  using assms
  by (auto simp: Setup_def InitTracer_def InitMeter_def InitLogger_def Let_def split: if_splits option.splits)

lemma Setup_succeeds:
  "(\<exists>sd. fst (Setup L cfg g) = Inr sd) \<longleftrightarrow>
     (sc_OTelEndpoint cfg = [] \<or> ol_otlp L (sc_OTelEndpoint cfg) = None) \<and> ol_prometheus L = None"
  by (auto simp: Setup_def InitTracer_def InitMeter_def Let_def split: option.splits)

lemma Setup_error:
  assumes "Setup L cfg g = (Inl err, g')"
  shows "(\<exists>e. err = Wrapf ''init tracer: '' e) \<and> g' = g \<or>
    (\<exists>e tp. err = Wrapf ''init meter: '' e \<and> gl_running g' = gl_running g @ [Tracer tp] \<and> gl_tracer g' = Some tp)"
  using assms
  by (auto simp: Setup_def InitTracer_def InitMeter_def Let_def split: if_splits option.splits)

lemma mset_shutdown:
  "gl_running g = rs @ [Tracer (sd_tp sd), Meter (sd_mp sd)] \<Longrightarrow>
     mset (gl_running (snd (run_shutdown L sd g))) = mset rs"
  by (simp add: run_shutdown_def Let_def)

section \<open>Properties\<close>

text \<open>The providers that \<^verbatim>\<open>Setup\<close> starts are stopped by the function it returns, the second one also when stopping the
  first fails, and the error of the first is the one reported.  When \<^verbatim>\<open>Setup\<close> itself fails at the meter, the
  tracer provider it had started stays installed and keeps running, with nothing left to stop it.\<close>

theorem telemetry_lifecycle:
  "(Setup L cfg g = (Inr sd, g') \<longrightarrow>
      mset (gl_running (snd (run_shutdown L sd g'))) = mset (gl_running g) \<and>
      fst (run_shutdown L sd g') =
        (if ol_Shutdown L (Tracer (sd_tp sd)) \<noteq> None then ol_Shutdown L (Tracer (sd_tp sd)) else ol_Shutdown L (Meter (sd_mp sd)))) \<and>
   (Setup L cfg g = (Inl (Wrapf ''init meter: '' e), g') \<longrightarrow>
      (\<exists>tp. gl_running g' = gl_running g @ [Tracer tp] \<and> gl_tracer g' = Some tp))"
proof (intro conjI impI)
  assume s: "Setup L cfg g = (Inr sd, g')"
  show "mset (gl_running (snd (run_shutdown L sd g'))) = mset (gl_running g)" by (rule mset_shutdown [OF Setup_ok(1) [OF s]])
  show "fst (run_shutdown L sd g') =
        (if ol_Shutdown L (Tracer (sd_tp sd)) \<noteq> None then ol_Shutdown L (Tracer (sd_tp sd)) else ol_Shutdown L (Meter (sd_mp sd)))"
    by (simp add: run_shutdown_def Let_def)
next
  assume "Setup L cfg g = (Inl (Wrapf ''init meter: '' e), g')"
  then show "\<exists>tp. gl_running g' = gl_running g @ [Tracer tp] \<and> gl_tracer g' = Some tp" using Setup_error by fastforce
qed

theorem telemetry_lifecycle_witness:
  "gl_running (snd (run_shutdown sample_otel \<lparr>sd_tp = \<lparr>tp_resource = otel_resource ''s'', tp_exporter = Some ''o''\<rparr>, sd_mp = \<lparr>mp_resource = otel_resource ''s''\<rparr>\<rparr>
     (snd (Setup sample_otel \<lparr>sc_ServiceName = ''s'', sc_OTelEndpoint = ''o'', sc_PrometheusPort = 9090, sc_LogLevel = ''info''\<rparr> no_globals)))) = []"
proof -
  let ?c = "\<lparr>sc_ServiceName = ''s'', sc_OTelEndpoint = ''o'', sc_PrometheusPort = 9090, sc_LogLevel = ''info''\<rparr>"
  let ?sd = "\<lparr>sd_tp = \<lparr>tp_resource = otel_resource ''s'', tp_exporter = Some ''o''\<rparr>, sd_mp = \<lparr>mp_resource = otel_resource ''s''\<rparr>\<rparr>"
  have "Setup sample_otel ?c no_globals = (Inr ?sd, snd (Setup sample_otel ?c no_globals))"
    by (simp add: Setup_def InitTracer_def InitMeter_def sample_otel_def Let_def)
  with telemetry_lifecycle [of sample_otel ?c no_globals ?sd "snd (Setup sample_otel ?c no_globals)" "Errorf ''none''"]
  show ?thesis by (simp add: no_globals_def)
qed

end
