(* ===== verification/Wait_Queue.thy ===== *)
theory Wait_Queue
  imports Allocation_Cache
begin

text \<open>
  The wait queue of the router, \<^verbatim>\<open>internal/router/queue.go\<close> (the event stream it feeds,
  \<^verbatim>\<open>WriteSSEQueuePosition\<close>, is in \<open>Session_Router\<close>).

  An entry is shared between the queue and the goroutine that waits on it, so the queue holds
  addresses into a store of entries.  The channel \<^verbatim>\<open>Ready\<close> has capacity one: it is the list of the
  allocations sent and not yet received, and a send into a full channel blocks.
\<close>

section \<open>Definitions\<close>

record WaitEntry =
  we_UserID :: string
  we_Ready :: "Allocation list"
  we_Position :: int
  we_EnqueuedAt :: int

type_synonym entry = nat

record WaitQueue =
  entries :: "entry list"
  entry_at :: "entry \<Rightarrow> WaitEntry"
  next_entry :: entry

definition ready_capacity :: nat where "ready_capacity = 1"

definition NewWaitQueue :: WaitQueue where
  "NewWaitQueue =
     \<lparr>entries = [],
      entry_at = (\<lambda>_. \<lparr>we_UserID = [], we_Ready = [], we_Position = 0, we_EnqueuedAt = 0\<rparr>),
      next_entry = 0\<rparr>"

definition Enqueue :: "int \<Rightarrow> string \<Rightarrow> WaitQueue \<Rightarrow> entry \<times> WaitQueue" where
  "Enqueue now userID q =
     (let e = next_entry q;
          x = \<lparr>we_UserID = userID, we_Ready = [], we_Position = int (length (entries q)) + 1,
               we_EnqueuedAt = now\<rparr>
      in (e, q\<lparr>entries := entries q @ [e], entry_at := (entry_at q)(e := x), next_entry := Suc e\<rparr>))"

text \<open>The loop \<^verbatim>\<open>for i, e := range q.entries { e.Position = i + 1 }\<close>, from index \<open>i\<close>.\<close>

fun renumber :: "int \<Rightarrow> entry list \<Rightarrow> (entry \<Rightarrow> WaitEntry) \<Rightarrow> entry \<Rightarrow> WaitEntry" where
  "renumber i [] h = h"
| "renumber i (e # es) h = renumber (i + 1) es (h(e := (h e)\<lparr>we_Position := i + 1\<rparr>))"

definition Dequeue :: "WaitQueue \<Rightarrow> entry option \<times> WaitQueue" where
  "Dequeue q =
     (case entries q of
        [] \<Rightarrow> (None, q)
      | e # rest \<Rightarrow> (Some e, q\<lparr>entries := rest, entry_at := renumber 0 rest (entry_at q)\<rparr>))"

definition Queue_Len :: "WaitQueue \<Rightarrow> int" where
  "Queue_Len q = int (length (entries q))"

datatype send_result = NoWaiter | Delivered entry | SendBlocks entry

definition NotifyNext :: "Allocation \<Rightarrow> WaitQueue \<Rightarrow> send_result \<times> WaitQueue" where
  "NotifyNext alloc q =
     (case Dequeue q of
        (None, q') \<Rightarrow> (NoWaiter, q')
      | (Some e, q') \<Rightarrow>
          if length (we_Ready (entry_at q' e)) < ready_capacity
          then (Delivered e, q'\<lparr>entry_at := (entry_at q')(e := (entry_at q' e)\<lparr>we_Ready := we_Ready (entry_at q' e) @ [alloc]\<rparr>)\<rparr>)
          else (SendBlocks e, q'))"

text \<open>The receiver's side of \<^verbatim>\<open>Ready\<close>.\<close>

definition receive :: "entry \<Rightarrow> WaitQueue \<Rightarrow> Allocation option \<times> WaitQueue" where
  "receive e q =
     (case we_Ready (entry_at q e) of
        [] \<Rightarrow> (None, q)
      | a # rest \<Rightarrow> (Some a, q\<lparr>entry_at := (entry_at q)(e := (entry_at q e)\<lparr>we_Ready := rest\<rparr>)\<rparr>))"

text \<open>The invariant: entries are distinct, known, still waiting, and each knows its position.\<close>

definition queue_ok :: "WaitQueue \<Rightarrow> bool" where
  "queue_ok q \<longleftrightarrow>
     distinct (entries q) \<and> (\<forall>e \<in> set (entries q). e < next_entry q \<and> we_Ready (entry_at q e) = []) \<and>
     (\<forall>i < length (entries q). we_Position (entry_at q (entries q ! i)) = int i + 1)"

text \<open>Operations on a queue, for histories.\<close>

datatype queue_op = OpEnqueue int string | OpDequeue | OpNotify Allocation | OpReceive entry

fun queue_step :: "queue_op \<Rightarrow> WaitQueue \<Rightarrow> WaitQueue" where
  "queue_step (OpEnqueue now u) q = snd (Enqueue now u q)"
| "queue_step OpDequeue q = snd (Dequeue q)"
| "queue_step (OpNotify a) q = snd (NotifyNext a q)"
| "queue_step (OpReceive e) q = snd (receive e q)"

definition queue_run :: "queue_op list \<Rightarrow> WaitQueue \<Rightarrow> WaitQueue" where
  "queue_run ops q = fold queue_step ops q"

fun notify_all :: "Allocation list \<Rightarrow> WaitQueue \<Rightarrow> send_result list \<times> WaitQueue" where
  "notify_all [] q = ([], q)"
| "notify_all (a # as) q =
     (case NotifyNext a q of (r, q') \<Rightarrow> (case notify_all as q' of (rs, q'') \<Rightarrow> (r # rs, q'')))"

subsection \<open>Specification: people in a line\<close>

text \<open>What the queue promises, without entries, addresses and channels: a line of users.  A step of the line
  returns the user who leaves it, if any; what a user is told is the index in the line, from one.\<close>

fun line_step :: "queue_op \<Rightarrow> string list \<Rightarrow> string option \<times> string list" where
  "line_step (OpEnqueue now u) us = (None, us @ [u])"
| "line_step OpDequeue us = (if us = [] then (None, []) else (Some (hd us), tl us))"
| "line_step (OpNotify a) us = (if us = [] then (None, []) else (Some (hd us), tl us))"
| "line_step (OpReceive e) us = (None, us)"

fun line_run :: "queue_op list \<Rightarrow> string list \<Rightarrow> string option list \<times> string list" where
  "line_run [] us = ([], us)"
| "line_run (op # ops) us = (case line_step op us of (r, us') \<Rightarrow> (case line_run ops us' of (rs, us'') \<Rightarrow> (r # rs, us'')))"

text \<open>The user who leaves the queue in a step of the code.\<close>

fun queue_out :: "queue_op \<Rightarrow> WaitQueue \<Rightarrow> string option" where
  "queue_out (OpEnqueue now u) q = None"
| "queue_out OpDequeue q = map_option (\<lambda>e. we_UserID (entry_at q e)) (fst (Dequeue q))"
| "queue_out (OpNotify a) q =
     (case fst (NotifyNext a q) of Delivered e \<Rightarrow> Some (we_UserID (entry_at q e)) | NoWaiter \<Rightarrow> None | SendBlocks e \<Rightarrow> None)"
| "queue_out (OpReceive e) q = None"

fun queue_outs :: "queue_op list \<Rightarrow> WaitQueue \<Rightarrow> string option list" where
  "queue_outs [] q = []"
| "queue_outs (op # ops) q = queue_out op q # queue_outs ops (queue_step op q)"

text \<open>The line that a queue stands for, and what the waiting users are shown.\<close>

definition line_of :: "WaitQueue \<Rightarrow> string list" where
  "line_of q = map (\<lambda>e. we_UserID (entry_at q e)) (entries q)"

definition shown_positions :: "WaitQueue \<Rightarrow> (int \<times> string) list" where
  "shown_positions q = map (\<lambda>e. (we_Position (entry_at q e), we_UserID (entry_at q e))) (entries q)"

section \<open>The interface: a first-in first-out queue\<close>

locale fifo =
  fixes contents :: "'q \<Rightarrow> 'a list"
    and enq :: "'x \<Rightarrow> 'q \<Rightarrow> 'a \<times> 'q"
    and deq :: "'q \<Rightarrow> 'a option \<times> 'q"
    and invar :: "'q \<Rightarrow> bool"
  assumes enq_invar: "invar q \<Longrightarrow> invar (snd (enq x q))"
    and enq_contents: "invar q \<Longrightarrow> contents (snd (enq x q)) = contents q @ [fst (enq x q)]"
    and enq_fresh: "invar q \<Longrightarrow> fst (enq x q) \<notin> set (contents q)"
    and deq_invar: "invar q \<Longrightarrow> invar (snd (deq q))"
    and deq_contents: "invar q \<Longrightarrow> contents (snd (deq q)) = tl (contents q)"
    and deq_head: "invar q \<Longrightarrow> fst (deq q) = (case contents q of [] \<Rightarrow> None | a # _ \<Rightarrow> Some a)"
begin

lemma deq_enq_empty:
  assumes "invar q" and "contents q = []"
  shows "fst (deq (snd (enq x q))) = Some (fst (enq x q))"
    and "contents (snd (deq (snd (enq x q)))) = []"
  using assms by (simp_all add: deq_head deq_contents enq_invar enq_contents)

lemma deq_enq_commute:
  assumes "invar q" and "contents q \<noteq> []"
  shows "fst (deq (snd (enq x q))) = fst (deq q)"
    and "contents (snd (deq (snd (enq x q)))) = contents (snd (deq q)) @ [fst (enq x q)]"
  using assms by (cases "contents q"; simp add: deq_head deq_contents enq_invar enq_contents)+

lemma contents_distinct_enq:
  "invar q \<Longrightarrow> distinct (contents q) \<Longrightarrow> distinct (contents (snd (enq x q)))"
  by (simp add: enq_contents enq_fresh)

end

section \<open>The wait queue implements it\<close>

lemma renumber_other: "e \<notin> set es \<Longrightarrow> renumber i es h e = h e"
  by (induction es arbitrary: i h) auto

lemma renumber_Ready [simp]: "we_Ready (renumber i es h e) = we_Ready (h e)"
  by (induction es arbitrary: i h) auto

lemma renumber_UserID [simp]: "we_UserID (renumber i es h e) = we_UserID (h e)"
  by (induction es arbitrary: i h) auto

lemma renumber_position:
  "distinct es \<Longrightarrow> k < length es \<Longrightarrow> we_Position (renumber i es h (es ! k)) = i + int k + 1"
proof (induction es arbitrary: i h k)
  case (Cons e es)
  then show ?case by (cases k) (simp_all add: renumber_other)
qed simp

lemma queue_ok_new [simp]: "queue_ok NewWaitQueue"
  by (simp add: queue_ok_def NewWaitQueue_def)

lemma queue_ok_Enqueue:
  assumes "queue_ok q"
  shows "queue_ok (snd (Enqueue now u q))"
proof -
  have "next_entry q \<notin> set (entries q)" using assms by (auto simp: queue_ok_def)
  then have "entries q ! i \<noteq> next_entry q" if "i < length (entries q)" for i
    using that by (metis nth_mem)
  with assms show ?thesis
    by (auto simp: queue_ok_def Enqueue_def Let_def nth_append less_Suc_eq)
qed

lemma queue_ok_Dequeue:
  assumes "queue_ok q"
  shows "queue_ok (snd (Dequeue q))"
  using assms by (cases "entries q") (auto simp: queue_ok_def Dequeue_def renumber_position)

interpretation wait_queue: fifo entries "\<lambda>(now, u). Enqueue now u" Dequeue queue_ok
proof unfold_locales
  fix q :: WaitQueue and x :: "int \<times> string"
  obtain now u where x: "x = (now, u)" by (cases x)
  assume ok: "queue_ok q"
  then show "queue_ok (snd ((case x of (now, u) \<Rightarrow> Enqueue now u) q))" by (simp add: x queue_ok_Enqueue)
  show "entries (snd ((case x of (now, u) \<Rightarrow> Enqueue now u) q)) =
      entries q @ [fst ((case x of (now, u) \<Rightarrow> Enqueue now u) q)]"
    by (simp add: x Enqueue_def Let_def)
  show "fst ((case x of (now, u) \<Rightarrow> Enqueue now u) q) \<notin> set (entries q)"
    using ok by (auto simp: x Enqueue_def Let_def queue_ok_def)
  show "queue_ok (snd (Dequeue q))" using ok by (rule queue_ok_Dequeue)
  show "entries (snd (Dequeue q)) = tl (entries q)"
    by (simp add: Dequeue_def split: list.split)
  show "fst (Dequeue q) = (case entries q of [] \<Rightarrow> None | a # _ \<Rightarrow> Some a)"
    by (simp add: Dequeue_def split: list.split)
qed

lemma NotifyNext_cases:
  assumes "queue_ok q"
  shows "NotifyNext a q =
    (case entries q of
       [] \<Rightarrow> (NoWaiter, q)
     | e # rest \<Rightarrow>
         (Delivered e, q\<lparr>entries := rest, entry_at := (renumber 0 rest (entry_at q))
            (e := (entry_at q e)\<lparr>we_Ready := [a]\<rparr>)\<rparr>))"
proof (cases "entries q")
  case (Cons e rest)
  with assms have "e \<notin> set rest" and "we_Ready (entry_at q e) = []" by (auto simp: queue_ok_def)
  with Cons show ?thesis
    by (simp add: NotifyNext_def Dequeue_def ready_capacity_def renumber_other)
qed (simp add: NotifyNext_def Dequeue_def)

lemma queue_ok_Notify: "queue_ok q \<Longrightarrow> queue_ok (snd (NotifyNext a q))"
proof (cases "entries q")
  case (Cons e rest)
  assume ok: "queue_ok q"
  then have "queue_ok (snd (Dequeue q))" by (rule queue_ok_Dequeue)
  moreover have "e \<notin> set rest" using ok Cons by (simp add: queue_ok_def)
  ultimately show ?thesis
    using Cons by (auto simp: NotifyNext_cases [OF ok] Dequeue_def queue_ok_def nth_mem)
qed (simp add: NotifyNext_cases)

lemma queue_ok_receive: "queue_ok q \<Longrightarrow> queue_ok (snd (receive e q))"
  by (auto simp: receive_def queue_ok_def split: list.splits)

lemma queue_ok_step: "queue_ok q \<Longrightarrow> queue_ok (queue_step op q)"
  by (cases op) (simp_all add: queue_ok_Enqueue queue_ok_Dequeue queue_ok_Notify queue_ok_receive)

lemma queue_ok_run: "queue_ok q \<Longrightarrow> queue_ok (queue_run ops q)"
  by (induction ops arbitrary: q) (simp_all add: queue_run_def queue_ok_step)

lemma notify_all_other:
  "queue_ok q \<Longrightarrow> e \<notin> set (entries q) \<Longrightarrow>
     we_Ready (entry_at (snd (notify_all as q)) e) = we_Ready (entry_at q e)"
proof (induction as arbitrary: q)
  case (Cons a as)
  let ?q = "snd (NotifyNext a q)"
  have ok: "queue_ok ?q" using Cons.prems(1) by (rule queue_ok_Notify)
  have q: "e \<notin> set (entries ?q)" "we_Ready (entry_at ?q e) = we_Ready (entry_at q e)"
    using Cons.prems by (auto simp: NotifyNext_cases renumber_Ready split: list.splits)
  have "snd (notify_all (a # as) q) = snd (notify_all as ?q)" by (simp split: prod.split)
  then show ?case using Cons.IH [OF ok q(1)] q(2) by simp
qed simp

lemma notify_all_results:
  "queue_ok q \<Longrightarrow>
     fst (notify_all as q) = map Delivered (take (length as) (entries q)) @
       replicate (length as - length (entries q)) NoWaiter \<and>
     entries (snd (notify_all as q)) = drop (length as) (entries q)"
proof (induction as arbitrary: q)
  case (Cons a as)
  have "queue_ok (snd (NotifyNext a q))" using Cons.prems(1) by (rule queue_ok_Notify)
  with Cons.IH [of "snd (NotifyNext a q)"] Cons.prems show ?case
    by (cases "entries q") (auto simp: NotifyNext_cases split: prod.splits)
qed simp

lemma notify_all_ready:
  "queue_ok q \<Longrightarrow> i < length (entries q) \<Longrightarrow> i < length as \<Longrightarrow>
     we_Ready (entry_at (snd (notify_all as q)) (entries q ! i)) = [as ! i]"
proof (induction as arbitrary: q i)
  case (Cons a as)
  obtain e rest where q: "entries q = e # rest" using Cons.prems(2) by (cases "entries q") auto
  let ?q = "snd (NotifyNext a q)"
  have ok: "queue_ok ?q" using Cons.prems(1) by (rule queue_ok_Notify)
  have rest: "entries ?q = rest" "we_Ready (entry_at ?q e) = [a]" "e \<notin> set rest"
    using Cons.prems(1) q by (auto simp: NotifyNext_cases queue_ok_def)
  have snd: "snd (notify_all (a # as) q) = snd (notify_all as ?q)"
    by (simp split: prod.split)
  show ?case
  proof (cases i)
    case 0
    then show ?thesis unfolding snd using notify_all_other [OF ok, of e as] rest q by simp
  next
    case (Suc j)
    then show ?thesis unfolding snd using Cons.IH [OF ok, of j] Cons.prems q rest by simp
  qed
qed simp

subsection \<open>Refinement of the line\<close>

lemma line_of_Enqueue: "queue_ok q \<Longrightarrow> line_of (snd (Enqueue now u q)) = line_of q @ [u]"
  by (auto simp: line_of_def Enqueue_def Let_def queue_ok_def)

lemma line_of_Dequeue: "line_of (snd (Dequeue q)) = tl (line_of q)"
  by (cases "entries q") (simp_all add: line_of_def Dequeue_def)

lemma line_of_Notify: "queue_ok q \<Longrightarrow> line_of (snd (NotifyNext a q)) = tl (line_of q)"
  by (cases "entries q") (auto simp: line_of_def NotifyNext_cases)

lemma line_of_receive: "line_of (snd (receive e q)) = line_of q"
  by (auto simp: line_of_def receive_def split: list.split)

lemma queue_step_line:
  assumes "queue_ok q"
  shows "line_step op (line_of q) = (queue_out op q, line_of (queue_step op q))"
proof (cases op)
  case (OpEnqueue now u)
  then show ?thesis using assms by (simp add: line_of_Enqueue)
next
  case OpDequeue
  then show ?thesis by (cases "entries q") (simp_all add: line_of_Dequeue, simp_all add: line_of_def Dequeue_def)
next
  case (OpNotify a)
  then show ?thesis using assms
    by (cases "entries q") (simp_all add: line_of_Notify, simp_all add: line_of_def NotifyNext_cases)
next
  case (OpReceive e)
  then show ?thesis by (simp add: line_of_receive)
qed

lemma queue_run_line:
  "queue_ok q \<Longrightarrow> line_run ops (line_of q) = (queue_outs ops q, line_of (queue_run ops q))"
  by (induction ops arbitrary: q) (simp_all add: queue_run_def queue_step_line queue_ok_step)

lemma shown_positions_line:
  assumes "queue_ok q"
  shows "shown_positions q = map (\<lambda>(i, u). (int i, u)) (enumerate 1 (line_of q))"
  using assms by (intro nth_equalityI) (simp_all add: shown_positions_def line_of_def queue_ok_def nth_enumerate_eq)

section \<open>Properties\<close>

text \<open>C13: The queue refines a line of users: over any history of enqueues, dequeues, notifications and
  receives, the users that leave the queue are those that leave the line, in the same steps, the users that wait
  are those in the line, and each is shown the place it has there.\<close>

theorem queue_refines_line:
  "line_run ops [] = (rs, us) \<Longrightarrow>
     queue_outs ops NewWaitQueue = rs \<and> line_of (queue_run ops NewWaitQueue) = us \<and>
     shown_positions (queue_run ops NewWaitQueue) = map (\<lambda>(i, u). (int i, u)) (enumerate 1 us)"
  using queue_run_line [OF queue_ok_new, of ops] shown_positions_line [OF queue_ok_run [OF queue_ok_new], of ops]
  by (simp add: line_of_def NewWaitQueue_def)

theorem queue_refines_line_witness:
  "shown_positions (queue_run [OpEnqueue 0 ''a'', OpEnqueue 1 ''b'', OpNotify zero_alloc, OpEnqueue 2 ''c''] NewWaitQueue) =
     [(1, ''b''), (2, ''c'')]"
  using queue_refines_line [of "[OpEnqueue 0 ''a'', OpEnqueue 1 ''b'', OpNotify zero_alloc, OpEnqueue 2 ''c'']"
      "[None, None, Some ''a'', None]" "[''b'', ''c'']"] by simp


text \<open>After any history of enqueues, dequeues, notifications and receives, the waiting entries are
  distinct, none has been sent an allocation yet, and the entry at index \<open>i\<close> shows position \<open>i + 1\<close>.\<close>

theorem queue_positions:
  "distinct (entries (queue_run ops NewWaitQueue)) \<and>
   (\<forall>i < length (entries (queue_run ops NewWaitQueue)).
      we_Position (entry_at (queue_run ops NewWaitQueue) (entries (queue_run ops NewWaitQueue) ! i)) = int i + 1 \<and>
      we_Ready (entry_at (queue_run ops NewWaitQueue) (entries (queue_run ops NewWaitQueue) ! i)) = [])"
  using queue_ok_run [OF queue_ok_new, of ops] by (auto simp: queue_ok_def)

theorem queue_positions_witness:
  "we_Position (entry_at (queue_run [OpEnqueue 0 ''a'', OpEnqueue 1 ''b'', OpDequeue] NewWaitQueue)
     (entries (queue_run [OpEnqueue 0 ''a'', OpEnqueue 1 ''b'', OpDequeue] NewWaitQueue) ! 0)) = 1"
  using queue_positions [of "[OpEnqueue 0 ''a'', OpEnqueue 1 ''b'', OpDequeue]"]
  by (simp add: queue_run_def Enqueue_def Dequeue_def NewWaitQueue_def Let_def)

text \<open>The queue is first in, first out: notifying with allocations \<open>as\<close> wakes the waiting entries in
  the order in which they were enqueued, the \<open>i\<close>-th entry receives the \<open>i\<close>-th allocation, no send ever
  blocks, and allocations beyond the number of waiters go to nobody.\<close>

theorem notify_fifo:
  assumes "queue_ok q" and "notify_all as q = (rs, q')"
  shows "rs = map Delivered (take (length as) (entries q)) @
              replicate (length as - length (entries q)) NoWaiter \<and>
    entries q' = drop (length as) (entries q) \<and>
    (\<forall>i < length (entries q). i < length as \<longrightarrow> we_Ready (entry_at q' (entries q ! i)) = [as ! i])"
  using notify_all_results [OF assms(1), of as] notify_all_ready [OF assms(1), of _ as] assms(2) by simp

theorem notify_fifo_witness:
  "\<exists>rs q'. notify_all [zero_alloc] (queue_run [OpEnqueue 0 ''a'', OpEnqueue 1 ''b''] NewWaitQueue) = (rs, q') \<and>
     rs = [Delivered 0] \<and> entries q' = [1]"
proof -
  let ?q = "queue_run [OpEnqueue 0 ''a'', OpEnqueue 1 ''b''] NewWaitQueue"
  have q: "entries ?q = [0, 1]" by (simp add: queue_run_def Enqueue_def NewWaitQueue_def Let_def)
  obtain rs q' where n: "notify_all [zero_alloc] ?q = (rs, q')" by (meson surj_pair)
  from notify_fifo [OF queue_ok_run [OF queue_ok_new] n] n q show ?thesis by simp
qed

end
