(* ===== verification/Session_Router.thy ===== *)
theory Session_Router
  imports Pool_Manager Wait_Queue Http_Middleware
begin

text \<open>
  The session router, \<^verbatim>\<open>internal/router/handler.go\<close>, its reverse proxy, \<^verbatim>\<open>internal/router/proxy.go\<close>, and the
  event stream of a waiting request, \<^verbatim>\<open>WriteSSEQueuePosition\<close> of \<^verbatim>\<open>internal/router/queue.go\<close>.

  The router's state is the pool (with the cache that router and pool share), the wait queue, the cached
  proxies, and, for the theorems, the list of requests sent to backends.  The network is a parameter
  \<open>net\<close> that answers an outgoing request with a response or an error.  \<^verbatim>\<open>httputil.ReverseProxy\<close> is modelled as
  far as the code configures it: the director, the removal of hop-by-hop headers, \<^verbatim>\<open>X-Forwarded-For\<close>,
  informational responses, the copy of the response and the error handler; protocol upgrades, trailers and
  bodies that break off are not modelled.  A call of \<^verbatim>\<open>WriteSSEQueuePosition\<close> is driven by the list of the
  cases its \<^verbatim>\<open>select\<close> takes; each carries the queue as it is then, in which the call reads its entry.
\<close>

section \<open>Definitions\<close>

record SessionExtractor =
  ex_Header :: string
  ex_Cookie :: string
  ex_QueryParam :: string

definition extractSessionID :: "Request \<Rightarrow> SessionExtractor \<Rightarrow> string" where
  "extractSessionID req ext =
     (let h = Header_Get (req_Header req) (ex_Header ext);
          c = (case Cookie_Get req (ex_Cookie ext) of Some v \<Rightarrow> v | None \<Rightarrow> []);
          q = Query_Get req (ex_QueryParam ext)
      in if ex_Header ext \<noteq> [] \<and> h \<noteq> [] then h
         else if ex_Cookie ext \<noteq> [] \<and> c \<noteq> [] then c
         else if ex_QueryParam ext \<noteq> [] \<and> q \<noteq> [] then q
         else [])"

subsection \<open>The reverse proxy\<close>

record ReverseProxy =
  rp_target :: string

definition Director :: "ReverseProxy \<Rightarrow> Request \<Rightarrow> Request" where
  "Director rp outReq =
     (let r1 = outReq\<lparr>req_URLScheme := ''http'', req_URLHost := rp_target rp, req_Host := rp_target rp\<rparr>
      in if map_of (req_Header r1) ''User-Agent'' = None
         then r1\<lparr>req_Header := Header_Set ''User-Agent'' [] (req_Header r1)\<rparr> else r1)"

definition getOrCreateProxy ::
  "string \<Rightarrow> (string, ReverseProxy) gomap \<Rightarrow> ReverseProxy \<times> (string, ReverseProxy) gomap" where
  "getOrCreateProxy targetHost proxies =
     (case map_of proxies targetHost of
        Some rp \<Rightarrow> (rp, proxies)
      | None \<Rightarrow> (let rp = \<lparr>rp_target = targetHost\<rparr> in (rp, AList.update targetHost rp proxies)))"

text \<open>\<^verbatim>\<open>ReverseProxy.ServeHTTP\<close>.\<close>

definition hop_headers :: "string list" where
  "hop_headers = [''Connection'', ''Proxy-Connection'', ''Keep-Alive'', ''Proxy-Authenticate'',
     ''Proxy-Authorization'', ''Te'', ''Trailer'', ''Transfer-Encoding'', ''Upgrade'']"

definition trim_space :: "string \<Rightarrow> string" where
  "trim_space s = rev (dropWhile is_ws (rev (dropWhile is_ws s)))"

definition connection_names :: "header \<Rightarrow> string list" where
  "connection_names h =
     filter (\<lambda>n. n \<noteq> []) (map trim_space (concat (map (SplitChar (CHR '','')) (Header_Values h ''Connection''))))"

definition removeHopByHop :: "header \<Rightarrow> header" where
  "removeHopByHop h = fold Header_Del (connection_names h @ hop_headers) h"

definition SplitHost :: "string \<Rightarrow> string option" where
  "SplitHost s =
     (case IndexByte (rev s) (CHR '':'') of
        None \<Rightarrow> None
      | Some k \<Rightarrow>
          (let host = take (length s - Suc k) s in
           if HasPrefix host ''['' \<and> host \<noteq> [] \<and> last host = CHR '']'' then Some (butlast (tl host))
           else if CHR '':'' \<in> set host \<or> CHR ''['' \<in> set host then None else Some host))"

definition join_space :: "string list \<Rightarrow> string" where
  "join_space xs = (case xs of [] \<Rightarrow> [] | y # ys \<Rightarrow> y @ concat (map (\<lambda>z. '', '' @ z) ys))"

definition forwarded_header :: "Request \<Rightarrow> header \<Rightarrow> header" where
  "forwarded_header req h =
     (case SplitHost (req_RemoteAddr req) of
        None \<Rightarrow> h
      | Some ip \<Rightarrow>
          (let prior = Header_Values h ''X-Forwarded-For''
           in Header_Set ''X-Forwarded-For'' (if prior = [] then ip else join_space (prior @ [ip])) h))"

definition out_request :: "ReverseProxy \<Rightarrow> Request \<Rightarrow> Request" where
  "out_request rp req =
     (let r1 = Director rp req
      in r1\<lparr>req_Header := forwarded_header req (removeHopByHop (req_Header r1))\<rparr>)"

definition copyHeader :: "header \<Rightarrow> header \<Rightarrow> header" where
  "copyHeader dst src = fold (\<lambda>(k, vs) h. fold (Header_Add k) vs h) src dst"

definition info_response :: "int \<Rightarrow> ResponseWriter \<Rightarrow> ResponseWriter" where
  "info_response code w = RW_Header (\<lambda>_. []) (WriteHeader code w)"

definition proxy_response :: "Response \<Rightarrow> ResponseWriter \<Rightarrow> ResponseWriter" where
  "proxy_response res w =
     (let w1 = fold info_response (resp_info res) w;
          w2 = RW_Header (\<lambda>h. copyHeader h (removeHopByHop (resp_Header res))) w1;
          w3 = WriteHeader (resp_StatusCode res) w2
      in if resp_Body res = [] then w3 else RW_Write (resp_Body res) w3)"

type_synonym network = "Request \<Rightarrow> go_error + Response"

definition ReverseProxy_ServeHTTP :: "network \<Rightarrow> ReverseProxy \<Rightarrow> Request \<Rightarrow> ResponseWriter \<Rightarrow> ResponseWriter" where
  "ReverseProxy_ServeHTTP net rp req w =
     (case net (out_request rp req) of
        Inl err \<Rightarrow> http_Error ''bad gateway'' 502 w
      | Inr res \<Rightarrow> proxy_response res w)"

subsection \<open>The router\<close>

record 'p RouterState =
  rs_pool :: "'p PoolManager"
  rs_queue :: WaitQueue
  rs_proxies :: "(string, ReverseProxy) gomap"
  rs_sent :: "Request list"

definition NewRouter :: "'p PoolManager \<Rightarrow> 'p RouterState" where
  "NewRouter pm = \<lparr>rs_pool = pm, rs_queue = NewWaitQueue, rs_proxies = [], rs_sent = []\<rparr>"

definition Forward :: "network \<Rightarrow> string \<Rightarrow> 'p RouterState handler" where
  "Forward net targetHost = (\<lambda>req (w, S).
     case getOrCreateProxy targetHost (rs_proxies S) of (rp, proxies) \<Rightarrow>
       (ReverseProxy_ServeHTTP net rp req w,
        S\<lparr>rs_proxies := proxies, rs_sent := rs_sent S @ [out_request rp req]\<rparr>))"

text \<open>The cases of the \<^verbatim>\<open>select\<close>.  \<open>Ready\<close> is taken only when the entry's channel holds an allocation; an
  attempt on an empty channel is passed over.\<close>

datatype wait_event = Ready WaitQueue | CtxCancelled | WaitTick WaitQueue

definition position_event :: "int \<Rightarrow> string" where
  "position_event pos =
     ''event: queue'' @ newline @ ''data: {'' @ quote # ''position'' @ quote # '':'' @ itoa pos @ ''}'' @ newline @ newline"

definition allocated_event :: "(string \<Rightarrow> string) \<Rightarrow> Allocation \<Rightarrow> string" where
  "allocated_event q alloc =
     ''event: allocated'' @ newline @ ''data: {'' @ quote # ''sessionID'' @ quote # '':'' @ q (SessionID alloc) @
     '','' @ quote # ''host'' @ quote # '':'' @ q (ServiceFQDN alloc) @ ''}'' @ newline @ newline"

text \<open>The loop of \<^verbatim>\<open>WriteSSEQueuePosition\<close>; \<open>q\<close> is the formatting verb \<^verbatim>\<open>%q\<close>.\<close>

fun sse_wait :: "(string \<Rightarrow> string) \<Rightarrow> entry \<Rightarrow> wait_event list \<Rightarrow> ResponseWriter \<Rightarrow> ResponseWriter" where
  "sse_wait q entry [] w = w"
| "sse_wait q entry (Ready Q # evs) w =
     (case fst (receive entry Q) of
        Some alloc \<Rightarrow> RW_Flush (RW_Write (allocated_event q alloc) w)
      | None \<Rightarrow> sse_wait q entry evs w)"
| "sse_wait q entry (CtxCancelled # evs) w = w"
| "sse_wait q entry (WaitTick Q # evs) w =
     sse_wait q entry evs (RW_Flush (RW_Write (position_event (we_Position (entry_at Q entry))) w))"

definition WriteSSEQueuePosition ::
  "(string \<Rightarrow> string) \<Rightarrow> wait_event list \<Rightarrow> entry \<Rightarrow> WaitQueue \<Rightarrow> ResponseWriter \<Rightarrow> ResponseWriter" where
  "WriteSSEQueuePosition q evs entry Q w =
     (if \<not> is_Flusher w then http_Error ''streaming not supported'' 500 w
      else (let w1 = RW_Header (Header_Set ''Connection'' ''keep-alive'' \<circ> Header_Set ''Cache-Control'' ''no-cache'' \<circ>
                       Header_Set ''Content-Type'' ''text/event-stream'') w
            in sse_wait q entry evs (RW_Flush (RW_Write (position_event (we_Position (entry_at Q entry))) w1))))"

text \<open>What one request reads from its surroundings.\<close>

record RequestEnv =
  re_ord :: map_order
  re_call :: CallEnv
  re_now :: int
  re_events :: "wait_event list"

definition handleAllocateAndProxy ::
  "'p SandboxProvider \<Rightarrow> network \<Rightarrow> (string \<Rightarrow> string) \<Rightarrow> SessionExtractor \<Rightarrow> RequestEnv \<Rightarrow> string \<Rightarrow>
   'p RouterState handler" where
  "handleAllocateAndProxy P net q ext e userID = (\<lambda>req (w, S).
     case Allocate P (re_ord e) (re_call e) userID (rs_pool S) of
       (Inr a, pm) \<Rightarrow>
         (let alloc = alloc_at pm a;
              w1 = RW_Header (Header_Set ''X-Session-ID'' (SessionID alloc)) w;
              w2 = SetCookie (ex_Cookie ext) (SessionID alloc) w1
          in Forward net (ServiceFQDN alloc) req (w2, S\<lparr>rs_pool := pm\<rparr>))
     | (Inl err, pm) \<Rightarrow>
         if \<not> errors_Is err ErrPoolExhausted
         then (http_Error ''failed to allocate sandbox'' 500 w, S\<lparr>rs_pool := pm\<rparr>)
         else (case Enqueue (re_now e) userID (rs_queue S) of (entry, queue) \<Rightarrow>
                 (WriteSSEQueuePosition q (re_events e) entry queue w,
                  S\<lparr>rs_pool := pm, rs_queue := queue\<rparr>)))"

definition Router_ServeHTTP ::
  "'p SandboxProvider \<Rightarrow> network \<Rightarrow> (string \<Rightarrow> string) \<Rightarrow> SessionExtractor \<Rightarrow> RequestEnv \<Rightarrow> 'p RouterState handler" where
  "Router_ServeHTTP P net q ext e = (\<lambda>req (w, S).
     let sessionID = extractSessionID req ext in
     case (if sessionID \<noteq> [] then Cache_GetBySession (index (store (rs_pool S))) sessionID else None) of
       Some a \<Rightarrow> Forward net (ServiceFQDN (alloc_at (rs_pool S) a)) req (w, S)
     | None \<Rightarrow> handleAllocateAndProxy P net q ext e (extractUserID req) req (w, S))"

text \<open>The proxy cache holds, under each host, a proxy for that host.\<close>

definition proxies_ok :: "(string, ReverseProxy) gomap \<Rightarrow> bool" where
  "proxies_ok m \<longleftrightarrow> (\<forall>k rp. map_of m k = Some rp \<longrightarrow> rp_target rp = k)"

text \<open>What the client of a waiting request is told after the first event.\<close>

fun wait_stream :: "(string \<Rightarrow> string) \<Rightarrow> entry \<Rightarrow> wait_event list \<Rightarrow> string list" where
  "wait_stream q entry [] = []"
| "wait_stream q entry (Ready Q # evs) =
     (case we_Ready (entry_at Q entry) of alloc # _ \<Rightarrow> [allocated_event q alloc] | [] \<Rightarrow> wait_stream q entry evs)"
| "wait_stream q entry (CtxCancelled # evs) = []"
| "wait_stream q entry (WaitTick Q # evs) = position_event (we_Position (entry_at Q entry)) # wait_stream q entry evs"

text \<open>Serving a list of requests one after the other, each with a writer of its own.\<close>

definition serve_all ::
  "'p SandboxProvider \<Rightarrow> network \<Rightarrow> (string \<Rightarrow> string) \<Rightarrow> SessionExtractor \<Rightarrow>
   (RequestEnv \<times> Request) list \<Rightarrow> 'p RouterState \<Rightarrow> 'p RouterState" where
  "serve_all P net q ext rs S = fold (\<lambda>(e, r) S. snd (Router_ServeHTTP P net q ext e r (new_writer, S))) rs S"

subsection \<open>Sample data\<close>

definition sample_ext :: SessionExtractor where
  "sample_ext = \<lparr>ex_Header = ''X-Session-ID'', ex_Cookie = ''session_id'', ex_QueryParam = ''session_id''\<rparr>"

definition sample_net :: "int list \<Rightarrow> network" where
  "sample_net infos = (\<lambda>_. Inr \<lparr>resp_info = infos, resp_StatusCode = 200, resp_Header = [], resp_Body = ''ok'', resp_BodyErr = None\<rparr>)"

definition sample_renv :: "string \<Rightarrow> RequestEnv" where
  "sample_renv u = \<lparr>re_ord = (\<lambda>xs. xs), re_call = sample_env 5 u, re_now = 5, re_events = [WaitTick (snd (Enqueue 5 ''alice'' NewWaitQueue)), CtxCancelled]\<rparr>"

definition session_request :: "string \<Rightarrow> Request" where
  "session_request sid = sample_request ''GET'' ''/api/v1/x'' [(''X-Session-Id'', [sid])] []"

text \<open>A router whose pool holds one session, \<open>u1\<close>, since time 0.\<close>

definition sample_router :: "int \<Rightarrow> MockSandboxProvider RouterState" where
  "sample_router maxSz = NewRouter (snd (sample_alloc 0 ''u1'' (sample_pool maxSz)))"

section \<open>Lemmas\<close>

subsection \<open>Forwarding\<close>

lemma getOrCreateProxy_ok:
  assumes "proxies_ok m" "getOrCreateProxy t m = (rp, m')"
  shows "rp_target rp = t" "proxies_ok m'"
  using assms by (auto simp: getOrCreateProxy_def proxies_ok_def Let_def update_conv split: option.splits if_splits)

lemma out_request_simps [simp]:
  "req_URLHost (out_request rp req) = rp_target rp"
  "req_Host (out_request rp req) = rp_target rp"
  "req_URLScheme (out_request rp req) = ''http''"
  "req_Method (out_request rp req) = req_Method req"
  "req_Path (out_request rp req) = req_Path req"
  "req_Body (out_request rp req) = req_Body req"
  "req_Query (out_request rp req) = req_Query req"
  "req_Cookies (out_request rp req) = req_Cookies req"
  by (simp_all add: out_request_def Director_def Let_def)

text \<open>\<open>sent_to S S' req t\<close>: between \<open>S\<close> and \<open>S'\<close> the request \<open>req\<close>, and no other, was sent, to host \<open>t\<close>.\<close>

definition sent_to :: "'p RouterState \<Rightarrow> 'p RouterState \<Rightarrow> Request \<Rightarrow> string \<Rightarrow> bool" where
  "sent_to S S' req t \<longleftrightarrow>
     (\<exists>out. rs_sent S' = rs_sent S @ [out] \<and> req_URLHost out = t \<and> req_Host out = t \<and>
        req_Method out = req_Method req \<and> req_Path out = req_Path req \<and> req_Query out = req_Query req \<and>
        req_Body out = req_Body req)"

lemma Forward_state:
  assumes "proxies_ok (rs_proxies S)" "Forward net t req (w, S) = (w', S')"
  shows "sent_to S S' req t" "proxies_ok (rs_proxies S')" "rs_pool S' = rs_pool S" "rs_queue S' = rs_queue S"
  using assms getOrCreateProxy_ok [OF assms(1), of t]
  by (auto simp: Forward_def sent_to_def split: prod.splits)

lemma Router_known:
  assumes "session_view (store (rs_pool S)) (extractSessionID req ext) = Some x" "extractSessionID req ext \<noteq> []"
  shows "Router_ServeHTTP P net q ext e req (w, S) = Forward net (ServiceFQDN x) req (w, S)"
  using assms by (auto simp: Router_ServeHTTP_def session_view_def alloc_at_def Let_def)

lemma Router_unknown:
  assumes "session_view (store (rs_pool S)) (extractSessionID req ext) = None \<or> extractSessionID req ext = []"
  shows "Router_ServeHTTP P net q ext e req (w, S) =
    handleAllocateAndProxy P net q ext e (extractUserID req) req (w, S)"
  using assms by (auto simp: Router_ServeHTTP_def session_view_def Let_def)

lemma serve_all_known:
  assumes "\<forall>(e, r) \<in> set rs. extractSessionID r ext = sid" "sid \<noteq> []"
    and "session_view (store (rs_pool S)) sid = Some x" "proxies_ok (rs_proxies S)"
  shows "rs_pool (serve_all P net q ext rs S) = rs_pool S"
  using assms
proof (induction rs arbitrary: S)
  case (Cons p rs)
  obtain e r where p: "p = (e, r)" by force
  obtain w' S' where f: "Forward net (ServiceFQDN x) r (new_writer, S) = (w', S')" by (meson surj_pair)
  have "Router_ServeHTTP P net q ext e r (new_writer, S) = (w', S')"
    using Router_known [of S r ext x] Cons.prems p f by simp
  moreover have "rs_pool (serve_all P net q ext rs S') = rs_pool S'"
    using Forward_state [OF Cons.prems(4) f] Cons.prems by (intro Cons.IH) simp_all
  ultimately show ?case using Forward_state(3) [OF Cons.prems(4) f] p by (simp add: serve_all_def)
qed (simp add: serve_all_def)

subsection \<open>The first value of a header survives\<close>

lemma Header_Get_Add: "Header_Get h k \<noteq> [] \<Longrightarrow> Header_Get (Header_Add k' v h) k = Header_Get h k"
  by (auto simp: Header_Get_def Header_Values_def Header_Add_def update_conv split: list.splits option.splits)

lemma Header_Get_Del_other: "canonical_key k' \<noteq> canonical_key k \<Longrightarrow> Header_Get (Header_Del k' h) k = Header_Get h k"
  by (simp add: Header_Get_def Header_Values_def Header_Del_def delete_conv)

lemma Header_Get_copyHeader: "Header_Get h k \<noteq> [] \<Longrightarrow> Header_Get (copyHeader h src) k = Header_Get h k"
proof -
  have inner: "Header_Get h k \<noteq> [] \<Longrightarrow> Header_Get (fold (Header_Add k') vs h) k = Header_Get h k" for k' vs h
    by (induction vs arbitrary: h) (simp_all add: Header_Get_Add)
  show "Header_Get h k \<noteq> [] \<Longrightarrow> ?thesis"
    unfolding copyHeader_def by (induction src arbitrary: h) (auto simp: inner)
qed

subsection \<open>Streams\<close>

lemma wr_body_event: "is_Flusher w \<Longrightarrow> wr_body (underlying (RW_Flush (RW_Write s w))) = wr_body (underlying w) @ [s]"
  by (cases w) (simp_all add: Let_def)

lemma wr_status_event:
  "is_Flusher w \<Longrightarrow> wr_status (underlying (RW_Flush (RW_Write s w))) =
     Some (case wr_status (underlying w) of Some c \<Rightarrow> c | None \<Rightarrow> 200)"
  by (cases w) (simp_all add: Let_def wire_status_set split: option.split)

lemma wr_body_wait:
  "is_Flusher w \<Longrightarrow> wr_body (underlying (sse_wait q entry evs w)) = wr_body (underlying w) @ wait_stream q entry evs"
  by (induction q entry evs w rule: sse_wait.induct)
    (simp_all add: wr_body_event receive_def split: list.split)

lemma wr_status_wait:
  "is_Flusher w \<Longrightarrow> wr_status (underlying w) = Some c \<Longrightarrow> wr_status (underlying (sse_wait q entry evs w)) = Some c"
  by (induction q entry evs w rule: sse_wait.induct)
    (simp_all add: wr_status_event receive_def split: list.split)

subsection \<open>The sample router\<close>

lemma session_request_id: "extractSessionID (session_request sid) sample_ext = sid"
proof -
  have k: "canonical_key ''X-Session-ID'' = ''X-Session-Id''" by code_simp
  show ?thesis
    by (simp add: extractSessionID_def session_request_def sample_request_def sample_ext_def Header_Get_def
        Header_Values_def k Let_def Cookie_Get_def Query_Get_def)
qed

lemma sample_router_pool:
  "0 < n \<Longrightarrow> store (rs_pool (sample_router n)) =
     store_new (active_alloc (sample_env 0 ''u1'') ''alice'' ''mock-sandbox-1'' ''localhost:4096'') empty_store"
  by (simp add: sample_router_def NewRouter_def sample_alloc_eq)

lemma sample_router_session:
  "0 < n \<Longrightarrow> session_view (store (rs_pool (sample_router n))) ''u1'' =
     Some (active_alloc (sample_env 0 ''u1'') ''alice'' ''mock-sandbox-1'' ''localhost:4096'')"
  by (simp add: sample_router_pool shared_cache.put_session active_alloc_def sample_env_def)

lemma sample_router_proxies [simp]: "proxies_ok (rs_proxies (sample_router n))"
  by (simp add: sample_router_def NewRouter_def proxies_ok_def)

subsection \<open>The slow path\<close>

lemma slow_path_allocated:
  assumes "Allocate P (re_ord e) (re_call e) u (rs_pool S) = (Inr a, pm)"
  shows "handleAllocateAndProxy P net q ext e u req (w, S) =
    Forward net (ServiceFQDN (alloc_at pm a)) req
      (SetCookie (ex_Cookie ext) (SessionID (alloc_at pm a))
         (RW_Header (Header_Set ''X-Session-ID'' (SessionID (alloc_at pm a))) w), S\<lparr>rs_pool := pm\<rparr>)"
  using assms by (simp add: handleAllocateAndProxy_def Let_def)

lemma slow_path_exhausted:
  assumes "Allocate P (re_ord e) (re_call e) u (rs_pool S) = (Inl ErrPoolExhausted, pm)"
  shows "handleAllocateAndProxy P net q ext e u req (w, S) =
    (WriteSSEQueuePosition q (re_events e) (next_entry (rs_queue S)) (snd (Enqueue (re_now e) u (rs_queue S))) w,
     S\<lparr>rs_pool := pm, rs_queue := snd (Enqueue (re_now e) u (rs_queue S))\<rparr>)"
  using assms by (simp add: handleAllocateAndProxy_def Enqueue_def Let_def)

text \<open>The session header, once set, is what the client gets, unless the backend sends informational
  responses first.\<close>

lemma keys_other:
  "canonical_key ''X-Session-ID'' \<noteq> canonical_key ''X-Content-Type-Options''"
  "canonical_key ''X-Session-ID'' \<noteq> canonical_key ''Content-Type''"
  "canonical_key ''X-Session-ID'' \<noteq> canonical_key ''Content-Length''"
  by code_simp+

lemma wire_sent_set: "wr_status b = None \<Longrightarrow> 200 \<le> code \<Longrightarrow> wr_sent (wire_WriteHeader code b) = wr_header b"
  by (simp add: wire_WriteHeader_def)

lemma session_header_sent:
  assumes "wr_status (underlying w) = None" "Header_Get (wr_header (underlying w)) ''X-Session-ID'' = sid" "sid \<noteq> []"
    and "\<And>r res. net r = Inr res \<Longrightarrow> resp_info res = [] \<and> 200 \<le> resp_StatusCode res"
  shows "Header_Get (wr_sent (underlying (ReverseProxy_ServeHTTP net rp req w))) ''X-Session-ID'' = sid"
proof (cases "net (out_request rp req)")
  case (Inl err)
  have "wr_sent (underlying (http_Error m 502 w)) = Header_Set ''X-Content-Type-Options'' ''nosniff''
      (Header_Set ''Content-Type'' ''text/plain; charset=utf-8'' (Header_Del ''Content-Length'' (wr_header (underlying w))))" for m
    using assms(1) by (simp add: http_Error_def underlying_ops wire_WriteHeader_def Let_def)
  then show ?thesis using Inl assms(2) keys_other
    by (simp add: ReverseProxy_ServeHTTP_def Header_Get_Set_other Header_Get_Del_other)
next
  case (Inr res)
  let ?w = "RW_Header (\<lambda>h. copyHeader h (removeHopByHop (resp_Header res))) w"
  have code: "resp_info res = []" "200 \<le> resp_StatusCode res" using assms(4) Inr by blast+
  have "wr_sent (underlying (proxy_response res w)) = wr_header (underlying ?w)"
    using assms(1) code by (simp add: proxy_response_def underlying_ops wire_WriteHeader_def Let_def)
  then show ?thesis using Inr assms(2,3) by (simp add: ReverseProxy_ServeHTTP_def underlying_ops Header_Get_copyHeader)
qed

lemma SetCookie_keeps:
  "sid \<noteq> [] \<Longrightarrow> Header_Get (wr_header (underlying w)) k = sid \<Longrightarrow>
     Header_Get (wr_header (underlying (SetCookie n v w))) k = sid"
  "wr_status (underlying (SetCookie n v w)) = wr_status (underlying w)"
  by (auto simp: SetCookie_def underlying_ops Header_Get_Add)

subsection \<open>Auditing\<close>

text \<open>The backend sends no informational responses.\<close>

definition final_only :: "network \<Rightarrow> bool" where
  "final_only net \<longleftrightarrow> (\<forall>r res. net r = Inr res \<longrightarrow> resp_info res = [] \<and> 200 \<le> resp_StatusCode res)"

text \<open>What every backend sends, by the rules of HTTP: informational codes and then a final one.  (101 ends a
  protocol upgrade, which is not modelled.)\<close>

definition http_replies :: "network \<Rightarrow> bool" where
  "http_replies net \<longleftrightarrow> (\<forall>r res. net r = Inr res \<longrightarrow>
     (\<forall>c \<in> set (resp_info res). 100 \<le> c \<and> c \<le> 199 \<and> c \<noteq> 101) \<and> 200 \<le> resp_StatusCode res)"

lemma final_only_replies: "final_only net \<Longrightarrow> http_replies net"
  by (auto simp: final_only_def http_replies_def)

lemma recorded_infos: "recorded w \<Longrightarrow> recorded (fold info_response cs w)"
  by (induction cs arbitrary: w) (simp_all add: info_response_def recorded_Header recorded_WriteHeader)

lemma fresh_or_recorded_infos:
  assumes "fresh w" "\<forall>c \<in> set cs. 100 \<le> c \<and> c \<le> 199 \<and> c \<noteq> (101 :: int)"
  shows "fresh (fold info_response cs w) \<or> recorded (fold info_response cs w)"
  using assms recorded_infos [of "info_response (hd cs) w" "tl cs"]
  by (cases cs) (simp_all add: info_response_def recorded_Header fresh_records)

lemma synced_proxy:
  assumes "fresh w" "http_replies net"
  shows "synced (ReverseProxy_ServeHTTP net rp req w)"
proof (cases "net (out_request rp req)")
  case (Inl err)
  then show ?thesis using assms(1) by (simp add: ReverseProxy_ServeHTTP_def synced_http_Error)
next
  case (Inr res)
  then have res: "\<forall>c \<in> set (resp_info res). 100 \<le> c \<and> c \<le> 199 \<and> c \<noteq> 101" "200 \<le> resp_StatusCode res"
    using assms(2) by (auto simp: http_replies_def)
  have "synced (WriteHeader (resp_StatusCode res) (RW_Header f (fold info_response (resp_info res) w)))" for f
    using fresh_or_recorded_infos [OF assms(1) res(1)] res(2)
    by (auto simp: synced_WriteHeader intro: recorded_synced recorded_WriteHeader recorded_Header)
  then show ?thesis using Inr by (simp add: ReverseProxy_ServeHTTP_def proxy_response_def Let_def synced_Write)
qed

lemma audited_Router: "http_replies net \<Longrightarrow> audited_handler (Router_ServeHTTP P net q ext e)"
proof
  fix w :: ResponseWriter and r S
  assume net: "http_replies net" and w: "fresh w"
  have fwd: "synced (fst (Forward net t r (w', S')))" if "fresh w'" for t w' and S' :: "'a RouterState"
    using synced_proxy [OF that net] by (simp add: Forward_def split: prod.split)
  have "fresh (SetCookie n v (RW_Header f w))" for n v f using w by (simp add: SetCookie_def)
  then have "synced (fst (handleAllocateAndProxy P net q ext e u r (w, S)))" for u
    using w fwd fresh_not_Flusher [OF w]
    by (auto simp: handleAllocateAndProxy_def WriteSSEQueuePosition_def Let_def synced_http_Error split: prod.split sum.split)
  then show "synced (fst (Router_ServeHTTP P net q ext e r (w, S)))"
    using w fwd by (auto simp: Router_ServeHTTP_def Let_def split: option.split)
qed

subsection \<open>A full pool\<close>

lemma sample_router_full:
  "Allocate mock_provider (\<lambda>xs. xs) c u (rs_pool (sample_router 1)) = (Inl ErrPoolExhausted, rs_pool (sample_router 1))"
proof -
  have "rs_pool (sample_router 1) = (sample_pool 1)\<lparr>provider := \<lparr>targetFQDN = ''localhost:4096'', counter = 1\<rparr>,
       store := store_new (active_alloc (sample_env 0 ''u1'') ''alice'' ''mock-sandbox-1'' ''localhost:4096'') empty_store\<rparr>"
    by (simp add: sample_router_def NewRouter_def sample_alloc_eq)
  then show ?thesis
    by (simp add: Allocate_def claimIdle_def Cache_ListByStatus_def store_new_def empty_store_def
        NewAllocationCache_def Cache_Set_def active_alloc_def sample_env_def store_len_def
        Cache_Len_def sample_pool_def NewPoolManager_def Let_def)
qed

lemma sample_net_final: "final_only (sample_net [])"
  by (simp add: final_only_def sample_net_def)

section \<open>Properties\<close>

text \<open>C19: Session affinity: a request that names a session in the cache is sent to the sandbox of that session
  and to nothing else, with its method, path, query and body unchanged; no sandbox is allocated, no request
  is queued, and the allocation itself is not touched.\<close>

theorem known_session_affinity:
  assumes "proxies_ok (rs_proxies S)" "extractSessionID req ext = sid" "sid \<noteq> []"
    and "session_view (store (rs_pool S)) sid = Some x"
    and "Router_ServeHTTP P net q ext e req (w, S) = (w', S')"
  shows "sent_to S S' req (ServiceFQDN x) \<and> rs_pool S' = rs_pool S \<and> rs_queue S' = rs_queue S \<and>
    proxies_ok (rs_proxies S')"
  using Router_known [of S req ext x P net q e w] Forward_state [OF assms(1), of net "ServiceFQDN x" req w w' S'] assms
  by simp

theorem known_session_affinity_witness:
  "\<exists>w' S'. Router_ServeHTTP mock_provider (sample_net []) (\<lambda>s. s) sample_ext (sample_renv ''u2'')
       (session_request ''u1'') (new_writer, sample_router 1) = (w', S') \<and>
     sent_to (sample_router 1) S' (session_request ''u1'') ''localhost:4096''"
proof -
  obtain w' S' where r: "Router_ServeHTTP mock_provider (sample_net []) (\<lambda>s. s) sample_ext (sample_renv ''u2'')
       (session_request ''u1'') (new_writer, sample_router 1) = (w', S')" by (meson surj_pair)
  show ?thesis
    using known_session_affinity [OF sample_router_proxies session_request_id _ sample_router_session r] r
    by (simp add: active_alloc_def)
qed

text \<open>Traffic does not keep a session alive: after any number of requests of one session, however recent,
  a collection at time \<open>now\<close> releases its sandbox as soon as the allocation is older than the timeout,
  because forwarding a request does not refresh \<^verbatim>\<open>LastActivity\<close> (here with a provider whose deletions
  succeed).\<close>

theorem traffic_does_not_keep_session:
  assumes "proxies_ok (rs_proxies S)" "store_ok (store (rs_pool S))" "sid \<noteq> []"
    and "\<forall>(e, r) \<in> set rs. extractSessionID r ext = sid"
    and "session_view (store (rs_pool S)) sid = Some x" "Status x = StatusActive"
    and "LastActivity x < now + wrap64 (- idleTimeout)"
    and "\<forall>n p. fst (DeleteSandbox P n p) = None" "range_order ord"
  shows "registry (store (RunGC P ord now idleTimeout (rs_pool (serve_all P net q ext rs S)))) (SandboxName x) = None \<and>
    session_view (store (RunGC P ord now idleTimeout (rs_pool (serve_all P net q ext rs S)))) sid = None"
proof -
  have pool: "rs_pool (serve_all P net q ext rs S) = rs_pool S"
    using serve_all_known assms(1,3,4,5) by blast
  let ?S = "store (RunGC P ord now idleTimeout (rs_pool S))"
  have x: "registry (store (rs_pool S)) (SandboxName x) = Some x" "SessionID x = sid"
    using assms(5) shared_cache.by_session_iff [OF assms(2)] by auto
  note eff = RunGC_effect [OF assms(9,2), of P now idleTimeout]
  have none: "registry ?S (SandboxName x) = None"
    using eff(2) [of "SandboxName x"] x assms(6,7,8) by (simp add: gc_effect_def expired_def)
  have "session_view ?S sid = None"
  proof (rule ccontr)
    assume "session_view ?S sid \<noteq> None"
    then obtain y where "session_view ?S sid = Some y" by blast
    then have y: "SessionID y = sid" "registry ?S (SandboxName y) = Some y"
      using shared_cache.by_session_iff [OF eff(1)] by auto
    then have "\<exists>z. registry (store (rs_pool S)) (SandboxName y) = Some z \<and> SessionID z = sid"
      using eff(2) [of "SandboxName y"] by (auto simp: gc_effect_def split: option.splits if_splits)
    then obtain z where z: "registry (store (rs_pool S)) (SandboxName y) = Some z" "SessionID z = sid" by blast
    have "SandboxName y = SandboxName x"
      using shared_cache.session_unique [OF assms(2) z(1) x(1)] z(2) x(2) assms(3) by simp
    with y none show False by simp
  qed
  with none show ?thesis by (simp add: pool)
qed

theorem traffic_does_not_keep_session_witness:
  "registry (store (RunGC mock_provider (\<lambda>xs. xs) 601 600 (rs_pool (serve_all mock_provider (sample_net []) (\<lambda>s. s)
     sample_ext [(sample_renv ''u2'', session_request ''u1''), (sample_renv ''u3'', session_request ''u1'')] (sample_router 1)))))
     ''mock-sandbox-1'' = None"
proof -
  have ok: "store_ok (store (rs_pool (sample_router 1)))" by (simp add: sample_router_pool store_ok_new)
  show ?thesis
    using traffic_does_not_keep_session [OF sample_router_proxies ok, of "''u1''"
        "[(sample_renv ''u2'', session_request ''u1''), (sample_renv ''u3'', session_request ''u1'')]" sample_ext
        "active_alloc (sample_env 0 ''u1'') ''alice'' ''mock-sandbox-1'' ''localhost:4096''" 601 600 mock_provider "\<lambda>xs. xs"
        "sample_net []" "\<lambda>s. s"]
    by (simp add: session_request_id sample_router_session active_alloc_def sample_env_def Mock_Delete_step
        wrap64_def)
qed

text \<open>C20: A request without a known session, when a sandbox can be allocated, is sent to the new sandbox, the
  client is told the fresh session ID in the \<^verbatim>\<open>X-Session-ID\<close> header, and every later request that
  presents this ID is sent to the same sandbox (the backend sends no informational responses).\<close>

theorem new_session_sticks:
  assumes "sandbox_provider P live ready" "range_order (re_ord e)" "pool_inv live (rs_pool S)"
    and "ready (Suc k) (provider (rs_pool S))" "env_fresh (re_call e) (store (rs_pool S))"
    and "proxies_ok (rs_proxies S)" "final_only net" "wr_status (underlying w) = None"
    and "session_view (store (rs_pool S)) (extractSessionID req ext) = None"
    and "Allocate P (re_ord e) (re_call e) (extractUserID req) (rs_pool S) = (Inr a, pm)"
    and "Router_ServeHTTP P net q ext e req (w, S) = (w1, S1)"
    and "extractSessionID req2 ext = env_uuid (re_call e)"
    and "Router_ServeHTTP P net q ext e2 req2 (w2, S1) = (w3, S2)"
  shows "sent_to S S1 req (ServiceFQDN (alloc_at pm a)) \<and>
    Header_Get (wr_sent (underlying w1)) ''X-Session-ID'' = env_uuid (re_call e) \<and>
    sent_to S1 S2 req2 (ServiceFQDN (alloc_at pm a)) \<and> rs_pool S2 = pm"
proof -
  let ?x = "alloc_at pm a" and ?id = "env_uuid (re_call e)"
  note ret = Allocate_returns [OF assms(1-5,10)]
  have id: "?id \<noteq> []" using assms(5) by (simp add: env_fresh_def)
  let ?w = "SetCookie (ex_Cookie ext) ?id (RW_Header (Header_Set ''X-Session-ID'' ?id) w)"
  have f1: "Forward net (ServiceFQDN ?x) req (?w, S\<lparr>rs_pool := pm\<rparr>) = (w1, S1)"
    using Router_unknown [of S req ext P net q e w] slow_path_allocated [OF assms(10), of net q ext req w] assms(9,11) ret
    by simp
  from Forward_state [OF _ this] assms(6) have S1: "sent_to S S1 req (ServiceFQDN ?x)" "rs_pool S1 = pm"
    "proxies_ok (rs_proxies S1)" by (auto simp: sent_to_def)
  have hdr: "Header_Get (wr_sent (underlying w1)) ''X-Session-ID'' = ?id"
  proof -
    obtain rp where w1: "w1 = ReverseProxy_ServeHTTP net rp req ?w"
      using f1 by (auto simp: Forward_def split: prod.splits)
    have st: "wr_status (underlying ?w) = None" using assms(8) by (simp add: SetCookie_keeps(2) underlying_ops)
    have "Header_Get (wr_header (underlying (RW_Header (Header_Set ''X-Session-ID'' ?id) w))) ''X-Session-ID'' = ?id"
      by (simp add: underlying_ops)
    from SetCookie_keeps(1) [OF id this] session_header_sent [OF st _ id] assms(7) show ?thesis
      unfolding w1 final_only_def by blast
  qed
  have "session_view (store (rs_pool S1)) (extractSessionID req2 ext) = Some ?x"
    using ret assms(12) S1(2) by simp
  then have "Forward net (ServiceFQDN ?x) req2 (w2, S1) = (w3, S2)"
    using Router_known [of S1 req2 ext ?x P net q e2 w2] assms(12,13) id by simp
  from Forward_state [OF S1(3) this] S1 hdr show ?thesis by simp
qed

theorem new_session_sticks_witness:
  "\<exists>w1 S1 w3 S2. Router_ServeHTTP mock_provider (sample_net []) (\<lambda>s. s) sample_ext (sample_renv ''u2'')
       (session_request ''stale'') (new_writer, NewRouter (sample_pool 1)) = (w1, S1) \<and>
     Router_ServeHTTP mock_provider (sample_net []) (\<lambda>s. s) sample_ext (sample_renv ''u3'')
       (session_request ''u2'') (new_writer, S1) = (w3, S2) \<and>
     Header_Get (wr_sent (underlying w1)) ''X-Session-ID'' = ''u2'' \<and>
     (\<exists>host. sent_to (NewRouter (sample_pool 1)) S1 (session_request ''stale'') host \<and>
        sent_to S1 S2 (session_request ''u2'') host)"
proof -
  let ?S = "NewRouter (sample_pool 1)" and ?P = mock_provider and ?n = "sample_net []" and ?e = "sample_renv ''u2''"
  obtain w1 S1 where r1: "Router_ServeHTTP ?P ?n (\<lambda>s. s) sample_ext ?e (session_request ''stale'') (new_writer, ?S) = (w1, S1)"
    by (meson surj_pair)
  obtain w3 S2 where r2: "Router_ServeHTTP ?P ?n (\<lambda>s. s) sample_ext (sample_renv ''u3'') (session_request ''u2'') (new_writer, S1) = (w3, S2)"
    by (meson surj_pair)
  obtain a pm where al: "Allocate ?P (re_ord ?e) (re_call ?e) (extractUserID (session_request ''stale'')) (rs_pool ?S) = (Inr a, pm)"
    by (simp add: sample_renv_def NewRouter_def Allocate_def claimIdle_def sample_pool_def NewPoolManager_def empty_store_def
      NewAllocationCache_def Cache_ListByStatus_def store_len_def Cache_Len_def mock_provider_def
      Mock_CreateSandbox_def NewMockSandboxProvider_def Let_def in_int64_def)
  have fr: "env_fresh (re_call ?e) (store (rs_pool ?S))"
    by (simp add: env_fresh_def sample_renv_def sample_env_def NewRouter_def sample_pool_def NewPoolManager_def)
  have inv: "pool_inv mock_live (rs_pool ?S)" by (simp add: NewRouter_def sample_pool_inv)
  have rd: "mock_ready (Suc 4) (provider (rs_pool ?S))" using sample_pool_ready [of 1] by (simp add: NewRouter_def)
  have ok: "proxies_ok (rs_proxies ?S)" by (simp add: NewRouter_def proxies_ok_def)
  have ord: "range_order (re_ord ?e)" by (simp add: sample_renv_def)
  have w0: "wr_status (underlying new_writer) = None" by (simp add: new_writer_def)
  have none: "session_view (store (rs_pool ?S)) (extractSessionID (session_request ''stale'') sample_ext) = None"
    by (simp add: NewRouter_def sample_pool_def NewPoolManager_def)
  have id2: "extractSessionID (session_request ''u2'') sample_ext = env_uuid (re_call ?e)"
    by (simp add: session_request_id sample_renv_def sample_env_def)
  from new_session_sticks [OF mock.sandbox_provider_axioms ord inv rd fr ok sample_net_final w0 none al r1 id2 r2] r1 r2
  show ?thesis by (auto simp: sample_renv_def sample_env_def)
qed

text \<open>When the pool is exhausted, the request is appended to the wait queue and its client, if the server's
  writer can flush, is streamed status 200 and its position, at each tick the position its entry has then,
  and one final allocated event when an allocation is delivered to its entry; the pool does not change and
  nothing is sent to a backend. (Behind the audit log the writer cannot flush: see the next theorem.)\<close>

theorem exhausted_request_waits:
  assumes "session_view (store (rs_pool S)) (extractSessionID req ext) = None"
    and "Allocate P (re_ord e) (re_call e) (extractUserID req) (rs_pool S) = (Inl ErrPoolExhausted, rs_pool S)"
    and "is_Flusher w" "wr_status (underlying w) = None" "wr_body (underlying w) = []"
    and "Router_ServeHTTP P net q ext e req (w, S) = (w', S')"
  shows "entries (rs_queue S') = entries (rs_queue S) @ [next_entry (rs_queue S)] \<and>
    client_status w' = 200 \<and>
    wr_body (underlying w') = position_event (int (length (entries (rs_queue S))) + 1) #
      wait_stream q (next_entry (rs_queue S)) (re_events e) \<and>
    rs_pool S' = rs_pool S \<and> rs_sent S' = rs_sent S"
proof -
  let ?Q = "snd (Enqueue (re_now e) (extractUserID req) (rs_queue S))" and ?n = "next_entry (rs_queue S)"
  have r: "w' = WriteSSEQueuePosition q (re_events e) ?n ?Q w" "S' = S\<lparr>rs_pool := rs_pool S, rs_queue := ?Q\<rparr>"
    using Router_unknown [of S req ext P net q e w] slow_path_exhausted [OF assms(2), of net q ext req w] assms(1,6)
    by simp_all
  have pos: "we_Position (entry_at ?Q ?n) = int (length (entries (rs_queue S))) + 1"
    by (simp add: Enqueue_def Let_def)
  let ?w1 = "RW_Header (Header_Set ''Connection'' ''keep-alive'' \<circ> Header_Set ''Cache-Control'' ''no-cache'' \<circ>
        Header_Set ''Content-Type'' ''text/event-stream'') w"
  let ?w = "RW_Flush (RW_Write (position_event (int (length (entries (rs_queue S))) + 1)) ?w1)"
  have w': "w' = sse_wait q ?n (re_events e) ?w"
    using r(1) assms(3) by (simp only: WriteSSEQueuePosition_def pos Let_def simp_thms if_True if_False)
  have fl: "is_Flusher ?w1" "is_Flusher ?w" using assms(3) by simp_all
  have st: "wr_status (underlying ?w) = Some 200"
    unfolding wr_status_event [OF fl(1)] using assms(4) by (simp add: underlying_ops)
  have bd: "wr_body (underlying ?w) = [position_event (int (length (entries (rs_queue S))) + 1)]"
    unfolding wr_body_event [OF fl(1)] using assms(5) by (simp add: underlying_ops)
  from wr_body_wait [OF fl(2), of q ?n "re_events e"] wr_status_wait [OF fl(2) st, of q ?n "re_events e"] bd r(2)
  show ?thesis unfolding w' by (simp add: client_status_def Enqueue_def Let_def)
qed

theorem exhausted_request_waits_witness:
  "\<exists>w' S'. Router_ServeHTTP mock_provider (sample_net []) (\<lambda>s. s) sample_ext (sample_renv ''u2'')
       (session_request ''u9'') (new_writer, sample_router 1) = (w', S') \<and>
     wr_body (underlying w') = [position_event 1, position_event 1]"
proof -
  obtain w' S' where r: "Router_ServeHTTP mock_provider (sample_net []) (\<lambda>s. s) sample_ext (sample_renv ''u2'')
       (session_request ''u9'') (new_writer, sample_router 1) = (w', S')" by (meson surj_pair)
  have none: "session_view (store (rs_pool (sample_router 1))) (extractSessionID (session_request ''u9'') sample_ext) = None"
    by (simp add: session_request_id sample_router_pool shared_cache.put_session active_alloc_def sample_env_def)
  have full: "Allocate mock_provider (re_ord (sample_renv ''u2'')) (re_call (sample_renv ''u2''))
      (extractUserID (session_request ''u9'')) (rs_pool (sample_router 1)) = (Inl ErrPoolExhausted, rs_pool (sample_router 1))"
    using sample_router_full by (simp add: sample_renv_def)
  have "entries (rs_queue (sample_router 1)) = []" "next_entry (rs_queue (sample_router 1)) = 0"
    by (simp_all add: sample_router_def NewRouter_def NewWaitQueue_def)
  moreover have "we_Position (entry_at (snd (Enqueue 5 ''alice'' NewWaitQueue)) 0) = 1"
    by (simp add: Enqueue_def NewWaitQueue_def Let_def)
  ultimately show ?thesis using exhausted_request_waits [OF none full _ _ _ r] r
    by (auto simp: new_writer_def sample_renv_def)
qed

text \<open>Behind the audit log, where the server's writer is wrapped, a request that finds the pool exhausted
  is answered 500 at once instead of being streamed its position, and its queue entry stays behind.\<close>

theorem exhausted_behind_audit_fails:
  assumes "session_view (store (rs_pool S)) (extractSessionID req ext) = None"
    and "Allocate P (re_ord e) (re_call e) (extractUserID req) (rs_pool S) = (Inl ErrPoolExhausted, rs_pool S)"
    and "wr_status (underlying w) = None"
    and "AuditLog t0 t1 (Router_ServeHTTP P net q ext e) req (w, S, log) = (w', S', log')"
  shows "client_status w' = 500 \<and> wr_body (underlying w') = wr_body (underlying w) @ [''streaming not supported'' @ newline] \<and>
    entries (rs_queue S') = entries (rs_queue S) @ [next_entry (rs_queue S)]"
proof -
  let ?sw = "StatusWriter w 200 False"
  have "Router_ServeHTTP P net q ext e req (?sw, S) =
      (http_Error ''streaming not supported'' 500 ?sw,
       S\<lparr>rs_pool := rs_pool S, rs_queue := snd (Enqueue (re_now e) (extractUserID req) (rs_queue S))\<rparr>)"
    using Router_unknown [of S req ext P net q e ?sw] slow_path_exhausted [OF assms(2), of net q ext req ?sw] assms(1)
    by (simp add: WriteSSEQueuePosition_def)
  then have "w' = Unwrap (http_Error ''streaming not supported'' 500 ?sw)"
    and "rs_queue S' = snd (Enqueue (re_now e) (extractUserID req) (rs_queue S))"
    using assms(4) by (auto simp: AuditLog_def)
  moreover have "underlying (Unwrap v) = underlying v" for v by (cases v) simp_all
  ultimately show ?thesis
    using http_Error_status [of ?sw 500] http_Error_body [of _ _ ?sw] assms(3)
    by (simp add: client_status_def Enqueue_def Let_def)
qed

theorem exhausted_behind_audit_fails_witness:
  "\<exists>w' S' log. AuditLog 0 1 (Router_ServeHTTP mock_provider (sample_net []) (\<lambda>s. s) sample_ext (sample_renv ''u2''))
       (session_request ''u9'') (new_writer, sample_router 1, []) = (w', S', log) \<and> client_status w' = 500"
proof -
  obtain w' S' log where r: "AuditLog 0 1 (Router_ServeHTTP mock_provider (sample_net []) (\<lambda>s. s) sample_ext (sample_renv ''u2''))
       (session_request ''u9'') (new_writer, sample_router 1, []) = (w', S', log)" by (rule prod_cases3)
  have none: "session_view (store (rs_pool (sample_router 1))) (extractSessionID (session_request ''u9'') sample_ext) = None"
    by (simp add: session_request_id sample_router_pool shared_cache.put_session active_alloc_def sample_env_def)
  have full: "Allocate mock_provider (re_ord (sample_renv ''u2'')) (re_call (sample_renv ''u2''))
      (extractUserID (session_request ''u9'')) (rs_pool (sample_router 1)) = (Inl ErrPoolExhausted, rs_pool (sample_router 1))"
    using sample_router_full by (simp add: sample_renv_def)
  from exhausted_behind_audit_fails [OF none full _ r] r show ?thesis by (simp add: new_writer_def)
qed

text \<open>When a backend sends an informational response first (here 103), the audit log records that code as
  the status of the request although the client gets the final 200.\<close>

theorem informational_status_misreported:
  "\<exists>w' S' entry. AuditLog 0 1 (Router_ServeHTTP mock_provider (sample_net [103]) (\<lambda>s. s) sample_ext (sample_renv ''u2''))
       (session_request ''u1'') (new_writer, sample_router 1, []) = (w', S', [entry]) \<and>
     au_status entry = 103 \<and> client_status w' = 200"
proof -
  let ?x = "active_alloc (sample_env 0 ''u1'') ''alice'' ''mock-sandbox-1'' ''localhost:4096''"
  have "session_view (store (rs_pool (sample_router 1))) (extractSessionID (session_request ''u1'') sample_ext) = Some ?x"
    by (simp add: session_request_id sample_router_session)
  then have "Router_ServeHTTP mock_provider (sample_net [103]) (\<lambda>s. s) sample_ext (sample_renv ''u2'')
       (session_request ''u1'') (w, sample_router 1) =
     Forward (sample_net [103]) (ServiceFQDN ?x) (session_request ''u1'') (w, sample_router 1)" for w
    by (rule Router_known) (simp add: session_request_id)
  then show ?thesis
    by (auto simp: AuditLog_def Forward_def ReverseProxy_ServeHTTP_def sample_net_def proxy_response_def info_response_def
        new_writer_def client_status_def underlying_ops wire_WriteHeader_def Let_def split: prod.split)
qed

end
