(* ===== verification/Router_Server.thy ===== *)
theory Router_Server
  imports Session_Router Task_API Config
begin

text \<open>
  The router program, \<^verbatim>\<open>cmd/router/main.go\<close>: the pool and the HTTP handler it builds from the configuration.

  The state of the server is that of the session router and of the Temporal server.  \<^verbatim>\<open>http.ServeMux\<close> is modelled
  for paths without escapes, on the patterns the program registers; the text of its redirects is an
  argument.  How the program starts and ends is in \<open>Programs\<close>.
\<close>

section \<open>Definitions\<close>

subsection \<open>The pool\<close>

text \<open>\<^verbatim>\<open>main\<close> picks the provider by the mode; the provider is the world of the pool.\<close>

definition main_pool_mock :: "Config \<Rightarrow> PoolMetrics \<Rightarrow> MockSandboxProvider PoolManager" where
  "main_pool_mock cfg m =
     (let pc = cfg_Pool cfg
      in NewPoolManager (NewMockSandboxProvider (pc_MockTarget pc)) (pc_MaxSize pc) (pc_Namespace pc) empty_store
           (Some (SetPoolSize (pc_MaxSize pc) m)))"

definition main_k8s :: "Config \<Rightarrow> K8sSandboxProvider" where
  "main_k8s cfg = NewK8sSandboxProvider (pc_Namespace (cfg_Pool cfg)) (pc_WarmPoolName (cfg_Pool cfg)) 4096"

definition main_pool_k8s :: "Config \<Rightarrow> 's \<Rightarrow> PoolMetrics \<Rightarrow> 's PoolManager" where
  "main_pool_k8s cfg world m =
     (let pc = cfg_Pool cfg
      in NewPoolManager world (pc_MaxSize pc) (pc_Namespace pc) empty_store (Some (SetPoolSize (pc_MaxSize pc) m)))"

text \<open>Whether the warm pool is kept filled.\<close>

definition main_warm :: "Config \<Rightarrow> bool" where
  "main_warm cfg \<longleftrightarrow> pc_Mode (cfg_Pool cfg) = ''k8s'' \<and> pc_MinReady (cfg_Pool cfg) > 0"

definition main_extractor :: "Config \<Rightarrow> SessionExtractor" where
  "main_extractor cfg = \<lparr>ex_Header = rc_SessionHeader (cfg_Router cfg), ex_Cookie = rc_SessionCookie (cfg_Router cfg),
     ex_QueryParam = rc_SessionQuery (cfg_Router cfg)\<rparr>"

subsection \<open>Health\<close>

record HealthResponse =
  hr_Status :: string
  hr_Version :: string
  hr_PoolUtilization :: string
  hr_PoolAllocated :: int
  hr_PoolMaxSize :: int
  hr_QueueDepth :: int

definition health_json :: "HealthResponse \<Rightarrow> json" where
  "health_json h = JObj [(''status'', JStr (hr_Status h)), (''version'', JStr (hr_Version h)),
     (''poolUtilization'', JNum (hr_PoolUtilization h)), (''poolAllocated'', JNum (itoa (hr_PoolAllocated h))),
     (''poolMaxSize'', JNum (itoa (hr_PoolMaxSize h))), (''queueDepth'', JNum (itoa (hr_QueueDepth h)))]"

definition health_handler :: "TextLib \<Rightarrow> 'p RouterState handler" where
  "health_handler T req = (\<lambda>(w, S).
     (let stats = Stats (rs_pool S);
          utilization = (if stat_MaxSize stats > 0 then tl_ratio T (stat_Allocated stats) (stat_MaxSize stats) else ''0'')
      in (write_json (health_json \<lparr>hr_Status = ''ok'', hr_Version = ''0.1.0'', hr_PoolUtilization = utilization,
            hr_PoolAllocated = stat_Allocated stats, hr_PoolMaxSize = stat_MaxSize stats, hr_QueueDepth = 0\<rparr>)
            (RW_Header (Header_Set ''Content-Type'' ''application/json'') w), S)))"

subsection \<open>The mux\<close>

text \<open>\<^verbatim>\<open>path.Clean\<close> and the \<^verbatim>\<open>cleanPath\<close> of \<^verbatim>\<open>net/http\<close>.\<close>

fun join_slash :: "string list \<Rightarrow> string" where
  "join_slash [] = []"
| "join_slash [x] = x"
| "join_slash (x # xs) = x @ CHR ''/'' # join_slash xs"

definition clean_parts :: "string list \<Rightarrow> string list" where
  "clean_parts ps = rev (fold (\<lambda>p acc. if p = [] \<or> p = ''.'' then acc else if p = ''..'' then tl acc else p # acc) ps [])"

definition cleanPath :: "string \<Rightarrow> string" where
  "cleanPath p =
     (if p = [] then ''/''
      else (let p1 = (if hd p \<noteq> CHR ''/'' then CHR ''/'' # p else p);
                np = CHR ''/'' # join_slash (clean_parts (SplitChar (CHR ''/'') p1))
            in if last p1 = CHR ''/'' \<and> np \<noteq> ''/'' then np @ ''/'' else np))"

record ('p, 'w) ServerState =
  sv_router :: "'p RouterState"
  sv_temporal :: 'w

definition on_router :: "'p RouterState handler \<Rightarrow> ('p, 'w) ServerState handler" where
  "on_router h r = (\<lambda>(w, s). case h r (w, sv_router s) of (w', R) \<Rightarrow> (w', s\<lparr>sv_router := R\<rparr>))"

definition on_temporal :: "'w handler \<Rightarrow> ('p, 'w) ServerState handler" where
  "on_temporal h r = (\<lambda>(w, s). case h r (w, sv_temporal s) of (w', t) \<Rightarrow> (w', s\<lparr>sv_temporal := t\<rparr>))"

text \<open>What a server needs: the provider, the network behind the proxy, the formatting verb, the texts, the Temporal
  client if it could be dialled, and the redirects.\<close>

record ('p, 'w) Backends =
  be_provider :: "'p SandboxProvider"
  be_net :: network
  be_quote :: "string \<Rightarrow> string"
  be_text :: TextLib
  be_temporal :: "'w Temporal option"
  be_redirect :: "Request \<Rightarrow> ResponseWriter \<Rightarrow> ResponseWriter"

record 'w ServerEnv =
  se_request :: RequestEnv
  se_task :: "'w TaskEnv"
  se_start :: int
  se_end :: int

definition main_mux :: "('p, 'w) Backends \<Rightarrow> Config \<Rightarrow> 'w ServerEnv \<Rightarrow> ('p, 'w) ServerState handler" where
  "main_mux B cfg e r ws =
     (let path = req_Path r;
          router = Router_ServeHTTP (be_provider B) (be_net B) (be_quote B) (main_extractor cfg) (se_request e);
          tasks = (path = ''/api/v1/tasks'' \<or> HasPrefix path ''/api/v1/tasks/'')
      in if (req_Method r \<noteq> ''CONNECT'' \<and> path \<noteq> cleanPath path) \<or> path = ''/api/v1'' then (be_redirect B r (fst ws), snd ws)
         else if tasks \<and> be_temporal B \<noteq> None then
           on_temporal (TaskHandler_ServeHTTP (the (be_temporal B)) (be_text B) (tc_TaskQueue (cfg_Temporal cfg)) (se_task e)) r ws
         else if HasPrefix path ''/api/v1/'' then on_router router r ws
         else if path = ''/health'' then on_router (health_handler (be_text B)) r ws
         else (http_NotFound (fst ws), snd ws))"

text \<open>The middleware around the mux, without and with the audit log.\<close>

definition main_guarded :: "('p, 'w) Backends \<Rightarrow> Config \<Rightarrow> 'w ServerEnv \<Rightarrow> ('p, 'w) ServerState handler" where
  "main_guarded B cfg e =
     APIKeyAuth (rc_APIKeys (cfg_Router cfg)) (MaxBodySize (rc_MaxBodyBytes (cfg_Router cfg)) (main_mux B cfg e))"

definition main_handler :: "('p, 'w) Backends \<Rightarrow> Config \<Rightarrow> 'w ServerEnv \<Rightarrow> (('p, 'w) ServerState \<times> AuditEntry list) handler" where
  "main_handler B cfg e = AuditLog (se_start e) (se_end e) (main_guarded B cfg e)"

section \<open>Lemmas\<close>

lemma audited_on_router: "audited_handler h \<Longrightarrow> audited_handler (on_router h)"
  unfolding audited_handler_def by (auto simp: on_router_def split: prod.split) (metis fst_conv)

lemma audited_on_temporal: "audited_handler h \<Longrightarrow> audited_handler (on_temporal h)"
  unfolding audited_handler_def by (auto simp: on_temporal_def split: prod.split) (metis fst_conv)

interpretation health: audited_handler "health_handler T" for T
proof
  fix w :: ResponseWriter and r S
  assume "fresh w"
  then show "synced (fst (health_handler T r (w, S)))"
    by (simp add: health_handler_def Let_def synced_write_json fresh_synced)
qed

definition redirect_ok :: "(Request \<Rightarrow> ResponseWriter \<Rightarrow> ResponseWriter) \<Rightarrow> bool" where
  "redirect_ok f \<longleftrightarrow> (\<forall>r w. fresh w \<longrightarrow> synced (f r w))"

lemma audited_mux:
  assumes "http_replies (be_net B)" "redirect_ok (be_redirect B)"
  shows "audited_handler (main_mux (B :: ('p, 'w) Backends) cfg e)"
proof
  fix w :: ResponseWriter and r and s :: "('p, 'w) ServerState"
  assume w: "fresh w"
  let ?h1 = "Router_ServeHTTP (be_provider B) (be_net B) (be_quote B) (main_extractor cfg) (se_request e)"
  have 1: "synced (fst (on_router ?h1 r (w, s)))"
    by (rule audited_handler.truthful [OF audited_on_router [OF audited_Router [OF assms(1)]] w])
  have 2: "synced (fst (on_router (health_handler (be_text B)) r (w, s)))"
    by (rule audited_handler.truthful [OF audited_on_router [OF health.audited_handler_axioms] w])
  have 3: "synced (fst (on_temporal (TaskHandler_ServeHTTP C T q te) r (w, s)))" for C :: "'w Temporal" and T q te
    by (rule audited_handler.truthful [OF audited_on_temporal [OF task.audited_handler_axioms] w])
  have 4: "synced (be_redirect B r w)" using assms(2) w by (simp add: redirect_ok_def)
  show "synced (fst (main_mux B cfg e r (w, s)))"
    using 1 2 3 4 synced_NotFound [OF w] by (simp add: main_mux_def Let_def)
qed

lemma audited_guarded:
  assumes "http_replies (be_net B)" "redirect_ok (be_redirect B)"
  shows "audited_handler (main_guarded B cfg e)"
  unfolding main_guarded_def by (rule audited_APIKeyAuth [OF audited_MaxBodySize [OF audited_mux [OF assms]]])

definition sample_backends :: "(MockSandboxProvider, MockSandboxProvider Activities InlineServer) Backends" where
  "sample_backends = \<lparr>be_provider = mock_provider, be_net = sample_net [], be_quote = (\<lambda>s. s), be_text = sample_text,
     be_temporal = Some (inline_temporal sample_standalone 1), be_redirect = (\<lambda>r. http_Error ''Moved Permanently'' 301)\<rparr>"

definition sample_senv :: "MockSandboxProvider Activities InlineServer ServerEnv" where
  "sample_senv = \<lparr>se_request = sample_renv ''u2'', se_task = \<lparr>tenv_now = 1, tenv_ticks = []\<rparr>, se_start = 0, se_end = 1\<rparr>"

definition sample_sstate :: "(MockSandboxProvider, MockSandboxProvider Activities InlineServer) ServerState" where
  "sample_sstate = \<lparr>sv_router = sample_router 1, sv_temporal = sample_server\<rparr>"

definition keyed_config :: Config where
  "keyed_config = DefaultConfig\<lparr>cfg_Router := (cfg_Router DefaultConfig)\<lparr>rc_APIKeys := [''k1'']\<rparr>\<rparr>"

lemma sample_redirect_ok: "redirect_ok (be_redirect sample_backends)"
  by (simp add: redirect_ok_def sample_backends_def synced_http_Error)

subsection \<open>The way of a request through the middleware\<close>

text \<open>A request that the key check admits, and what is left of it behind the body limit.\<close>

definition admitted :: "Config \<Rightarrow> Request \<Rightarrow> bool" where
  "admitted cfg r \<longleftrightarrow>
     (let keys = rc_APIKeys (cfg_Router cfg) in keys = [] \<or> (\<exists>k. k \<in> set keys \<and> k \<noteq> [] \<and> presents r k))"

definition limited :: "Config \<Rightarrow> Request \<Rightarrow> Request" where
  "limited cfg r =
     (let n = rc_MaxBodyBytes (cfg_Router cfg)
      in case req_Body r of
           Some b \<Rightarrow> if n \<le> 0 then r else r\<lparr>req_Body := Some (MaxBytesReader n b)\<rparr>
         | None \<Rightarrow> r)"

lemma limited_simps [simp]:
  "req_Method (limited cfg r) = req_Method r" "req_Path (limited cfg r) = req_Path r"
  "extractSessionID (limited cfg r) ext = extractSessionID r ext" "extractUserID (limited cfg r) = extractUserID r"
  by (simp_all add: limited_def extractSessionID_def extractUserID_def Cookie_Get_def Query_Get_def Let_def split: option.split)

lemma guarded_admitted: "admitted cfg r \<Longrightarrow> main_guarded B cfg e r ws = main_mux B cfg e (limited cfg r) ws"
proof -
  let ?n = "rc_MaxBodyBytes (cfg_Router cfg)"
  assume "admitted cfg r"
  then have "main_guarded B cfg e r ws = MaxBodySize ?n (main_mux B cfg e) r ws"
    by (cases ws) (auto simp: main_guarded_def APIKeyAuth_def admitted_def presents_iff Let_def)
  also have "\<dots> = main_mux B cfg e (limited cfg r) ws"
    by (cases "req_Body r") (simp_all add: MaxBodySize_def limited_def Let_def)
  finally show ?thesis .
qed

lemma underlying_Unwrap [simp]: "underlying (Unwrap w) = underlying w"
  by (cases w) simp_all

text \<open>A handler that ends in an error through \<open>h\<close>, and the same behind the audit log.\<close>

lemma handler_admitted:
  assumes "admitted cfg r" "main_mux B cfg e (limited cfg r) (StatusWriter w 200 False, s) = (sw, s')"
  shows "\<exists>entry. main_handler B cfg e r (w, s, log) = (Unwrap sw, s', log @ [entry]) \<and> au_status entry = sw_status sw"
  using assms guarded_admitted [OF assms(1), of B e "(StatusWriter w 200 False, s)"]
  by (simp add: main_handler_def AuditLog_def)

text \<open>The paths that the mux gives to the session router.\<close>

definition to_router :: "('p, 'w) Backends \<Rightarrow> Request \<Rightarrow> bool" where
  "to_router B r \<longleftrightarrow> HasPrefix (req_Path r) ''/api/v1/'' \<and> cleanPath (req_Path r) = req_Path r \<and>
     (be_temporal B \<noteq> None \<longrightarrow> req_Path r \<noteq> ''/api/v1/tasks'' \<and> \<not> HasPrefix (req_Path r) ''/api/v1/tasks/'')"

lemma mux_to_router:
  assumes "to_router B r"
  shows "main_mux B cfg e (limited cfg r) ws =
    on_router (Router_ServeHTTP (be_provider B) (be_net B) (be_quote B) (main_extractor cfg) (se_request e)) (limited cfg r) ws"
proof -
  have "req_Path r \<noteq> ''/api/v1''" using assms by (auto simp: to_router_def HasPrefix_def)
  with assms show ?thesis by (auto simp: main_mux_def to_router_def Let_def)
qed

lemma stream_parts:
  assumes "CHR ''/'' \<notin> set tid"
  shows "SplitChar (CHR ''/'') (TrimChar (CHR ''/'') (''/api/v1/tasks/'' @ tid @ ''/stream'')) =
    [''api'', ''v1'', ''tasks'', tid, ''stream'']"
proof -
  have t: "TrimChar (CHR ''/'') (''/api/v1/tasks/'' @ tid @ ''/stream'') = ''api/v1/tasks/'' @ tid @ ''/stream''"
    by (simp add: TrimChar_def TrimRightChar_def TrimLeftChar_def)
  have "SplitChar (CHR ''/'') (tid @ CHR ''/'' # ''stream'') = [tid, ''stream'']"
    using assms by (simp add: SplitChar_append SplitChar_no_sep)
  then show ?thesis unfolding t by simp
qed

lemma mux_stream:
  assumes "req_Method r = ''GET''" "req_Path r = ''/api/v1/tasks/'' @ tid @ ''/stream''" "CHR ''/'' \<notin> set tid"
    and "cleanPath (req_Path r) = req_Path r" "be_temporal B = Some C"
  shows "main_mux B cfg e r ws = on_temporal (streamTask C (be_text B) (tenv_ticks (se_task e)) tid) r ws"
proof -
  have p: "HasPrefix (req_Path r) ''/api/v1/tasks/''" "req_Path r \<noteq> ''/api/v1''" "req_Path r \<noteq> ''/api/v1/tasks''"
    "req_Path r \<noteq> ''/api/v1/tasks/''"
    unfolding assms(2) by (simp_all add: HasPrefix_def)
  have "TaskHandler_ServeHTTP C T q (se_task e) r = streamTask C T (tenv_ticks (se_task e)) tid r" for T q
    using assms(1) stream_parts [OF assms(3)] unfolding TaskHandler_ServeHTTP_def assms(2) by (simp add: Let_def)
  then have "on_temporal (TaskHandler_ServeHTTP C T q (se_task e)) r ws =
      on_temporal (streamTask C T (tenv_ticks (se_task e)) tid) r ws" for T q
    by (simp add: on_temporal_def)
  with p assms(4,5) show ?thesis by (simp add: main_mux_def Let_def)
qed

section \<open>Properties\<close>



text \<open>C27: With API keys configured, a request without one of them that is not for the health endpoint changes nothing
  behind the server, neither pool, queue, proxies nor tasks, whatever its path and body: it is answered with
  401 or 403 and audited as such.\<close>

theorem server_requires_key:
  assumes "rc_APIKeys (cfg_Router cfg) \<noteq> []" "req_Path r \<noteq> ''/health''"
    and "extractAPIKey r \<notin> set (rc_APIKeys (cfg_Router cfg)) - {[]}" "wr_status (underlying w) = None"
  shows "\<exists>w' entry. main_handler B cfg e r (w, s, log) = (w', s, log @ [entry]) \<and>
    client_status w' = (if extractAPIKey r = [] then 401 else 403) \<and> au_status entry = client_status w'"
proof -
  let ?c = "if extractAPIKey r = [] then 401 else 403"
  let ?m = "if extractAPIKey r = [] then missing_key_body else invalid_key_body"
  let ?sw = "http_Error ?m ?c (StatusWriter w 200 False)"
  have g: "main_guarded B cfg e r (StatusWriter w 200 False, s) = (?sw, s)"
    using assms(1-3) by (auto simp: main_guarded_def APIKeyAuth_def Let_def)
  have st: "wr_status (underlying ?sw) = Some ?c" using assms(4) by (intro http_Error_status) simp_all
  have "sw_status ?sw = ?c" by (simp add: http_Error_def)
  moreover from st have "client_status (Unwrap ?sw) = ?c" by (cases ?sw) (simp_all add: client_status_def)
  ultimately show ?thesis unfolding main_handler_def AuditLog_def using g by simp
qed

theorem server_requires_key_witness:
  "\<exists>w' entry. main_handler sample_backends keyed_config sample_senv (session_request ''u1'') (new_writer, sample_sstate, []) =
     (w', sample_sstate, [entry]) \<and> client_status w' = 401"
proof -
  have k: "extractAPIKey (session_request ''u1'') = []" by code_simp
  have p: "req_Path (session_request ''u1'') \<noteq> ''/health''" by (simp add: session_request_def sample_request_def)
  have "rc_APIKeys (cfg_Router keyed_config) \<noteq> []" by (simp add: keyed_config_def)
  from server_requires_key [OF this p, of new_writer sample_backends sample_senv sample_sstate "[]"] k
  show ?thesis by (auto simp: new_writer_def)
qed


definition stream_request :: Request where
  "stream_request = sample_request ''GET'' ''/api/v1/tasks/task-0/stream'' [] []"


end
