(* ===== verification/Mock_OpenCode.thy ===== *)
theory Mock_OpenCode
  imports OpenCode_Client
begin

text \<open>
  The stand-in OpenCode server, \<^verbatim>\<open>cmd/mock-opencode/main.go\<close>: the handlers of its three endpoints, and the
  client that talks to it over a perfect network.

  The flags of the program and the two waits are an argument: \<open>MockEnv\<close> says which waits end because the client is
  gone.  Only the three registered patterns are modelled, on paths the mux does not rewrite; what \<^verbatim>\<open>http.ServeMux\<close> answers to other requests is
  an argument, and so is what the HTTP client makes of a URL that is not plain, one that would be parsed, escaped or
  cleaned on the way.
\<close>

section \<open>Definitions\<close>

record MockEnv =
  me_uuid :: string
  me_time :: string
  me_delay :: int
  me_chunkDelay :: int
  me_cancel_delay :: bool
  me_cancel_chunk :: "nat \<Rightarrow> bool"

definition json_ok :: "ResponseWriter \<Rightarrow> ResponseWriter" where
  "json_ok w = RW_Header (Header_Set ''Content-Type'' ''application/json'') w"

definition mock_create_session :: "MockEnv \<Rightarrow> Request \<Rightarrow> ResponseWriter \<Rightarrow> ResponseWriter" where
  "mock_create_session e r w =
     write_json (JObj [(''createdAt'', JStr (me_time e)), (''id'', JStr (me_uuid e))]) (WriteHeader 201 (json_ok w))"

definition mock_output :: "string \<Rightarrow> string" where
  "mock_output content =
     (if HasPrefix content ''OUTPUT:'' then TrimPrefix content ''OUTPUT:''
      else ''placeholder result for prompt: '' @ content)"

definition content_json :: "string \<Rightarrow> json" where
  "content_json chunk = JObj [(''content'', JStr chunk)]"

definition send_frame :: "json \<Rightarrow> ResponseWriter \<Rightarrow> ResponseWriter" where
  "send_frame v w = RW_Flush (RW_Write (sse_frame (json_Marshal v)) w)"

definition chunkSize :: nat where "chunkSize = 100"

text \<open>The loop over the chunks: \<open>i\<close> counts them; the second component is false when the client went away.\<close>

function chunk_loop :: "MockEnv \<Rightarrow> nat \<Rightarrow> string \<Rightarrow> ResponseWriter \<Rightarrow> ResponseWriter \<times> bool" where
  "chunk_loop e i rest w =
     (if rest = [] then (w, True)
      else (let w1 = send_frame (content_json (take chunkSize rest)) w in
            if me_chunkDelay e > 0 \<and> me_cancel_chunk e i then (w1, False)
            else chunk_loop e (i + 1) (drop chunkSize rest) w1))"
  by pat_completeness auto
termination
  by (relation "measure (\<lambda>(e, i, rest, w). length rest)") (auto simp: chunkSize_def)

declare chunk_loop.simps [simp del]

definition usage_json :: "nat \<Rightarrow> json" where
  "usage_json n =
     JObj [(''content'', JStr []),
           (''usage'', JObj [(''completion_tokens'', JNum (itoa (int (n div 6)))), (''prompt_tokens'', JNum (itoa (int (n div 12)))),
                             (''total_tokens'', JNum (itoa (int (n div 4))))])]"

definition mock_message :: "MockEnv \<Rightarrow> Request \<Rightarrow> ResponseWriter \<Rightarrow> ResponseWriter" where
  "mock_message e r w =
     (case body_read (case req_Body r of None \<Rightarrow> Raw [] | Some b \<Rightarrow> b) of (bytes, _) \<Rightarrow>
      case (case Decoder_Decode bytes of None \<Rightarrow> None
            | Some v \<Rightarrow> (case struct_members v of None \<Rightarrow> None | Some ms \<Rightarrow> struct_field get_string ''content'' [] ms)) of
        None \<Rightarrow> http_Error ''invalid request body'' 400 w
      | Some content \<Rightarrow>
          (let out = mock_output content in
           if \<not> is_Flusher w then write_json (content_json out) (json_ok w)
           else
             (let w1 = WriteHeader 200 (RW_Header (Header_Set ''Connection'' ''keep-alive'' \<circ>
                         Header_Set ''Cache-Control'' ''no-cache'' \<circ> Header_Set ''Content-Type'' ''text/event-stream'') w)
              in if me_delay e > 0 \<and> me_cancel_delay e then w1
                 else (case chunk_loop e 0 out w1 of
                         (w2, False) \<Rightarrow> w2
                       | (w2, True) \<Rightarrow>
                           (let w3 = (if out = [] then send_frame (content_json []) w2 else w2)
                            in RW_Flush (RW_Write (sse_frame ''[DONE]'') (send_frame (usage_json (length out)) w3)))))))"

definition mock_health :: "Request \<Rightarrow> ResponseWriter \<Rightarrow> ResponseWriter" where
  "mock_health r w = write_json (JObj [(''status'', JStr ''ok'')]) (json_ok w)"

definition mock_ServeHTTP :: "(Request \<Rightarrow> ResponseWriter \<Rightarrow> ResponseWriter) \<Rightarrow> MockEnv \<Rightarrow> Request \<Rightarrow> ResponseWriter \<Rightarrow> ResponseWriter" where
  "mock_ServeHTTP other e r w =
     (let parts = SplitChar (CHR ''/'') (req_Path r) in
      if req_Method r = ''POST'' \<and> req_Path r = ''/sessions'' then mock_create_session e r w
      else if req_Method r = ''POST'' \<and> length parts = 4 \<and> parts ! 0 = [] \<and> parts ! 1 = ''sessions'' \<and> parts ! 2 \<noteq> [] \<and>
              parts ! 3 = ''messages'' then mock_message e r w
      else if req_Method r \<in> {''GET'', ''HEAD''} \<and> req_Path r = ''/health'' then mock_health r w
      else other r w)"

text \<open>A client whose requests for \<open>base\<close> are answered by the stand-in.\<close>

definition response_of :: "ResponseWriter \<Rightarrow> Response" where
  "response_of w = \<lparr>resp_info = wr_info (underlying w),
     resp_StatusCode = (case wr_status (underlying w) of Some c \<Rightarrow> c | None \<Rightarrow> 200),
     resp_Header = (case wr_status (underlying w) of Some c \<Rightarrow> wr_sent (underlying w) | None \<Rightarrow> wr_header (underlying w)),
     resp_Body = concat (wr_body (underlying w)), resp_BodyErr = None\<rparr>"

text \<open>Plain URLs: a scheme and host, with or without a port, and a path of segments that are neither escaped by
  \<^verbatim>\<open>net/url\<close> nor cleaned by \<^verbatim>\<open>http.ServeMux\<close>.  Such a URL reaches the stand-in with its path as it is; the client \<open>H\<close>
  says what becomes of any other.\<close>

definition url_char :: "char \<Rightarrow> bool" where
  "url_char c \<longleftrightarrow> (48 \<le> byte c \<and> byte c \<le> (57 :: nat)) \<or> (65 \<le> byte c \<and> byte c \<le> (90 :: nat)) \<or>
     (97 \<le> byte c \<and> byte c \<le> (122 :: nat)) \<or> c \<in> set ''-_.~''"

definition plain_segment :: "string \<Rightarrow> bool" where
  "plain_segment s \<longleftrightarrow> s \<noteq> [] \<and> s \<noteq> ''.'' \<and> s \<noteq> ''..'' \<and> list_all url_char s"

definition plain_path :: "string \<Rightarrow> bool" where
  "plain_path p = (case SplitChar (CHR ''/'') p of [] \<Rightarrow> False | q # qs \<Rightarrow> q = [] \<and> qs \<noteq> [] \<and> list_all plain_segment qs)"

definition plain_host :: "string \<Rightarrow> bool" where
  "plain_host h \<longleftrightarrow>
     (let ps = SplitChar (CHR '':'') h
      in plain_segment (hd ps) \<and> (tl ps = [] \<or> (length ps = 2 \<and> ps ! 1 \<noteq> [] \<and> list_all is_digit (ps ! 1))))"

definition direct :: "string \<Rightarrow> string \<Rightarrow> bool" where
  "direct base url \<longleftrightarrow> HasPrefix base ''http://'' \<and> plain_host (TrimPrefix base ''http://'') \<and>
     HasPrefix url base \<and> plain_path (TrimPrefix url base)"

definition mock_client :: "(Request \<Rightarrow> ResponseWriter \<Rightarrow> ResponseWriter) \<Rightarrow> HttpClient \<Rightarrow> string \<Rightarrow> MockEnv \<Rightarrow> HttpClient" where
  "mock_client other H base e =
     H\<lparr>hc_NewRequest := (\<lambda>url. if direct base url then None else hc_NewRequest H url),
       hc_Do := (\<lambda>req.
         if direct base (req_Path req)
         then Inr (response_of (mock_ServeHTTP other e (req\<lparr>req_Path := TrimPrefix (req_Path req) base\<rparr>) new_writer))
         else hc_Do H req)\<rparr>"

section \<open>Lemmas\<close>

subsection \<open>Payloads\<close>

definition ascii :: "string \<Rightarrow> bool" where
  "ascii s \<longleftrightarrow> (\<forall>c \<in> set s. byte c < (128 :: nat))"

lemma ascii_clean: "ascii s \<Longrightarrow> utf8_clean s = s"
  by (simp add: ascii_def utf8_clean_valid utf8_valid_ascii)

lemma hex_char_plain: "n < 16 \<Longrightarrow> hex_char n \<noteq> CHR 10"
  using hex_val_char [of n] by (auto simp: hex_val_def)

lemma u_escape_line: "CHR 10 \<notin> set (u_escape n) \<and> length (u_escape n) = 6"
  by (auto simp: u_escape_def hex_char_plain [symmetric] dest: hex_char_plain)

lemma escape_ascii_line: "CHR 10 \<notin> set (escape_ascii c) \<and> length (escape_ascii c) \<le> 6"
  by (auto simp: escape_ascii_def u_escape_def hex_char_plain [symmetric] dest: hex_char_plain)

lemma rune_line:
  assumes "\<not> byte c < (128 :: nat)" "utf8_len (c # cs) \<noteq> 0"
  shows "CHR 10 \<notin> set (take (utf8_len (c # cs)) (c # cs))"
proof -
  obtain k where k: "utf8_len (c # cs) = Suc k" using assms(2) not0_implies_Suc by blast
  have "byte (CHR 10) < (128 :: nat)" by simp
  with assms(1) utf8_cont_bytes [OF k, of "CHR 10"] show ?thesis unfolding k by auto
qed

lemma quote_body_line: "CHR 10 \<notin> set (quote_body s) \<and> length (quote_body s) \<le> 6 * length s"
proof (induction s rule: quote_body.induct)
  case (2 c cs)
  let ?n = "utf8_len (c # cs)"
  show ?case
  proof (cases "byte c < (128 :: nat)")
    case True
    with 2(1) escape_ascii_line [of c] show ?thesis by auto
  next
    case wide: False
    show ?thesis
    proof (cases "?n = 0")
      case True
      with 2(2) wide u_escape_line [of 65533] show ?thesis by auto
    next
      case False
      have n: "?n \<le> Suc (length cs)" using utf8_len_le [of "c # cs"] by simp
      have tail: "CHR 10 \<notin> set (quote_body (drop ?n (c # cs))) \<and>
          length (quote_body (drop ?n (c # cs))) \<le> 6 * (Suc (length cs) - ?n)"
        using 2(3-5) wide False by (cases "take ?n (c # cs) = utf8_encode 8232"; cases "take ?n (c # cs) = utf8_encode 8233") auto
      define u where "u = (if take ?n (c # cs) = utf8_encode 8232 then u_escape 8232
        else if take ?n (c # cs) = utf8_encode 8233 then u_escape 8233 else take ?n (c # cs))"
      have u: "CHR 10 \<notin> set u \<and> length u \<le> 6 * ?n"
        unfolding u_def using u_escape_line rune_line [OF wide False] False n by auto
      have "quote_body (c # cs) = u @ quote_body (drop ?n (c # cs))"
        using wide False by (simp add: u_def del: drop_Cons' take_Cons')
      with u tail n show ?thesis by auto
    qed
  qed
qed simp

lemma marshal_str_line: "CHR 10 \<notin> set (marshal_str s) \<and> length (marshal_str s) \<le> 6 * length s + 2"
  using quote_body_line [of s] by (simp add: marshal_str_def)

lemma ascii_keys: "ascii ''content''" "ascii ''usage''" "ascii ''completion_tokens''" "ascii ''prompt_tokens''" "ascii ''total_tokens''"
  by (simp_all add: ascii_def)

lemma content_payload:
  assumes "length s \<le> chunkSize"
  shows "payload_ok (json_Marshal (content_json s))" "payload_text (json_Marshal (content_json s)) = utf8_clean s"
    "payload_tokens (json_Marshal (content_json s)) = 0"
proof -
  show "payload_ok (json_Marshal (content_json s))"
    using marshal_str_line [of s] marshal_str_line [of "''content''"] assms
    by (auto simp: payload_ok_def content_json_def max_line_def chunkSize_def)
  have "json_Unmarshal (json_Marshal (content_json s)) = Some (content_json (utf8_clean s))"
    using Unmarshal_Marshal [of "content_json s"] ascii_clean [OF ascii_keys(1)]
    by (simp add: content_json_def)
  then show "payload_text (json_Marshal (content_json s)) = utf8_clean s" "payload_tokens (json_Marshal (content_json s)) = 0"
    by (simp_all add: payload_text_def payload_tokens_def processSSEData_def content_json_def string_member_def map_key_def)
qed

subsection \<open>Token counts\<close>

lemma num_value_itoa: "num_value (itoa (int n)) = (False, n, 1)"
proof -
  have d: "takeWhile is_digit (digits_of_nat n) = digits_of_nat n" "dropWhile is_digit (digits_of_nat n) = []"
    using is_digit_digits by (simp_all add: takeWhile_eq_all_conv)
  have p: "\<not> HasPrefix (digits_of_nat n) ''-''"
    using digits_of_nat_hd [of n] by (cases "digits_of_nat n") (auto simp: HasPrefix_def)
  then have t: "TrimPrefix (digits_of_nat n) ''-'' = digits_of_nat n" by (simp add: TrimPrefix_def)
  have dot: "\<not> HasPrefix [] ''.''" by (simp add: HasPrefix_def)
  have v: "nat_of_digits (digits_of_nat n) = n" by (simp add: nat_of_digits_def parse_digits_of_nat)
  show ?thesis
    by (simp add: num_value_def itoa_def Let_def p t d dot v del: takeWhile_eq_all_conv dropWhile_eq_Nil_conv)
qed

lemma f64_floor_exact:
  assumes "n < 2 ^ 53"
  shows "f64_floor n 1 = n"
proof -
  have u: "[0..<1025] = 0 # [Suc 0..<1025]" by (simp only: upt_conv_Cons zero_less_numeral)
  have e: "find (\<lambda>e. n < 1 * 2 ^ (53 + e)) [0..<1025] = Some 0" unfolding u using assms by (simp del: upt_rec_numeral)
  define ks where "ks = rev [0..<54 :: nat]"
  have "0 \<in> set ks" unfolding ks_def by (simp only: set_rev set_upt atLeastLessThan_iff zero_less_numeral le0 simp_thms)
  moreover have "n * 2 ^ 0 < 1 * 2 ^ 53" using assms by simp
  ultimately have "find (\<lambda>k. n * 2 ^ k < 1 * 2 ^ 53) ks \<noteq> None" unfolding find_None_iff by blast
  then obtain k where k: "find (\<lambda>k. n * 2 ^ k < 1 * 2 ^ 53) ks = Some k" by blast
  have "round_half_even (n * 2 ^ k) 1 = n * 2 ^ k" by (simp add: round_half_even_def)
  then show ?thesis unfolding f64_floor_def e ks_def [symmetric] k by simp
qed

lemma f64_itoa:
  assumes "n < 2 ^ 53"
  shows "f64_to_int64 (itoa (int n)) = int n" "f64_in_range (itoa (int n))"
proof -
  have "int n < 2 ^ 53" using assms by (simp flip: of_nat_less_iff)
  then have "in_int64 (int n)" by (simp add: in_int64_def)
  then show "f64_to_int64 (itoa (int n)) = int n" using f64_floor_exact [OF assms] by (simp add: f64_to_int64_def num_value_itoa Let_def)
  have "(2 :: nat) ^ 53 \<le> (2 ^ 54 - 1) * 2 ^ 970" by simp
  with assms show "f64_in_range (itoa (int n))" by (simp add: f64_in_range_def num_value_itoa)
qed

lemma digits_of_nat_length: "n < 10 ^ k \<Longrightarrow> 0 < k \<Longrightarrow> length (digits_of_nat n) \<le> k"
proof (induction n arbitrary: k rule: digits_of_nat.induct)
  case (1 n)
  show ?case
  proof (cases "n < 10")
    case True
    then show ?thesis using "1.prems" by (simp add: digits_of_nat.simps [of n])
  next
    case False
    from "1.prems"(2) obtain j where k: "k = Suc j" by (cases k) auto
    with False "1.prems"(1) have "j \<noteq> 0" by (intro notI) simp
    with k have j: "k = Suc j" "0 < j" by simp_all
    have "n div 10 < 10 ^ j" using "1.prems"(1) j by (simp add: less_mult_imp_div_less mult.commute)
    with "1.IH" [OF False this j(2)] False j show ?thesis by (simp add: digits_of_nat.simps [of n])
  qed
qed

lemma itoa_line:
  assumes "n < 2 ^ 53"
  shows "CHR 10 \<notin> set (itoa (int n))" "length (itoa (int n)) \<le> 16"
proof -
  have "(2 :: nat) ^ 53 \<le> 10 ^ 16" by simp
  with assms have "n < 10 ^ 16" by linarith
  then show "length (itoa (int n)) \<le> 16" using digits_of_nat_length [of n 16] by (simp add: itoa_def)
  show "CHR 10 \<notin> set (itoa (int n))" using is_digit_digits [of "CHR 10" n] by (auto simp: itoa_def is_digit_def)
qed

lemma usage_payload:
  assumes "n < 2 ^ 53"
  shows "payload_ok (json_Marshal (usage_json n))" "payload_text (json_Marshal (usage_json n)) = []"
    "payload_tokens (json_Marshal (usage_json n)) = int (n div 4)"
proof -
  have m: "n div 6 < 2 ^ 53" "n div 12 < 2 ^ 53" "n div 4 < 2 ^ 53"
    using assms by (meson div_le_dividend le_less_trans)+
  note lines = itoa_line [OF m(1)] itoa_line [OF m(2)] itoa_line [OF m(3)]
    marshal_str_line [of "[]"] marshal_str_line [of "''content''"] marshal_str_line [of "''usage''"]
    marshal_str_line [of "''completion_tokens''"] marshal_str_line [of "''prompt_tokens''"] marshal_str_line [of "''total_tokens''"]
  show "payload_ok (json_Marshal (usage_json n))"
    using lines by (auto simp: payload_ok_def usage_json_def max_line_def)
  have u: "json_Unmarshal (json_Marshal (usage_json n)) = Some (usage_json n)"
    using Unmarshal_Marshal [of "usage_json n"] ascii_keys [THEN ascii_clean] by (simp add: usage_json_def)
  have r: "numbers_in_range (usage_json n)" using m by (simp add: usage_json_def f64_itoa)
  show "payload_text (json_Marshal (usage_json n)) = []" "payload_tokens (json_Marshal (usage_json n)) = int (n div 4)"
    using u r m(3) by (simp_all add: payload_text_def payload_tokens_def processSSEData_def usage_json_def string_member_def
      map_key_def total_tokens_def f64_itoa)
qed

subsection \<open>The stream of the stand-in\<close>

fun chunks :: "string \<Rightarrow> string list" where
  "chunks s = (if s = [] then [] else take (Suc 99) s # chunks (drop (Suc 99) s))"

declare chunks.simps [simp del]

lemma chunks_rec: "s \<noteq> [] \<Longrightarrow> chunks s = take chunkSize s # chunks (drop chunkSize s)"
  by (simp add: chunks.simps [of s] chunkSize_def)

lemma chunks_Nil [simp]: "chunks [] = []"
  by (simp add: chunks.simps)

lemma chunks_concat: "concat (chunks s) = s"
proof (induction s rule: chunks.induct)
  case (1 s)
  then show ?case by (cases "s = []") (simp_all add: chunks.simps [of s])
qed

lemma chunks_length: "x \<in> set (chunks s) \<Longrightarrow> length x \<le> chunkSize"
proof (induction s rule: chunks.induct)
  case (1 s)
  then show ?case by (cases "s = []") (auto simp: chunks.simps [of s] chunkSize_def)
qed

lemma chunks_set: "x \<in> set (chunks s) \<Longrightarrow> set x \<subseteq> set s"
  using chunks_concat [of s] by (metis UN_upper set_concat)

definition no_cancel :: "MockEnv \<Rightarrow> bool" where
  "no_cancel e \<longleftrightarrow> (0 < me_delay e \<longrightarrow> \<not> me_cancel_delay e) \<and> (0 < me_chunkDelay e \<longrightarrow> (\<forall>i. \<not> me_cancel_chunk e i))"

lemma send_frame_base:
  "wr_status b = Some c \<Longrightarrow> send_frame v (Base b) = Base (b\<lparr>wr_body := wr_body b @ [sse_frame (json_Marshal v)]\<rparr>)"
  by (simp add: send_frame_def Let_def wire_WriteHeader_def)

lemma chunk_loop_step:
  assumes "no_cancel e" "wr_status b = Some c" "s \<noteq> []"
  shows "chunk_loop e i s (Base b) = chunk_loop e (i + 1) (drop chunkSize s)
    (Base (b\<lparr>wr_body := wr_body b @ [sse_frame (json_Marshal (content_json (take chunkSize s)))]\<rparr>))"
proof -
  have "\<not> (0 < me_chunkDelay e \<and> me_cancel_chunk e i)" using assms(1) by (auto simp: no_cancel_def)
  then show ?thesis
    unfolding chunk_loop.simps [of e i s "Base b"] send_frame_base [OF assms(2)] Let_def
    by (simp only: if_False assms(3))
qed

lemma chunk_loop_base:
  "no_cancel e \<Longrightarrow> wr_status b = Some c \<Longrightarrow>
     chunk_loop e i s (Base b) =
       (Base (b\<lparr>wr_body := wr_body b @ map (\<lambda>x. sse_frame (json_Marshal (content_json x))) (chunks s)\<rparr>), True)"
proof (induction "length s" arbitrary: i b s rule: less_induct)
  case less
  show ?case
  proof (cases "s = []")
    case True
    then show ?thesis by (simp add: chunk_loop.simps [of e i "[]"])
  next
    case False
    let ?b = "b\<lparr>wr_body := wr_body b @ [sse_frame (json_Marshal (content_json (take chunkSize s)))]\<rparr>"
    have "length (drop chunkSize s) < length s" using False by (simp add: chunkSize_def)
    moreover have "wr_status ?b = Some c" using less.prems(2) by simp
    ultimately have "chunk_loop e (i + 1) (drop chunkSize s) (Base ?b) =
        (Base (?b\<lparr>wr_body := wr_body ?b @ map (\<lambda>x. sse_frame (json_Marshal (content_json x))) (chunks (drop chunkSize s))\<rparr>), True)"
      using less.hyps less.prems(1) by blast
    then show ?thesis unfolding chunk_loop_step [OF less.prems False] chunks_rec [OF False] by (simp del: json_Marshal.simps)
  qed
qed

definition payloads :: "string \<Rightarrow> string list" where
  "payloads out = map (\<lambda>x. json_Marshal (content_json x)) (if out = [] then [[]] else chunks out) @ [json_Marshal (usage_json (length out))]"

text \<open>What the client can make of an output: its chunks, each read on its own.\<close>

definition received :: "string \<Rightarrow> string" where
  "received out = concat (map utf8_clean (chunks out))"

text \<open>An output none of whose characters is cut by the end of a chunk.\<close>

definition intact :: "string \<Rightarrow> bool" where
  "intact out \<longleftrightarrow> list_all utf8_valid (chunks out)"

lemma received_intact: "intact out \<Longrightarrow> received out = out"
  using chunks_concat [of out] map_idI [of "chunks out" utf8_clean]
  by (simp add: received_def intact_def list_all_iff utf8_clean_valid)

lemma utf8_valid_append: "utf8_valid s \<Longrightarrow> utf8_valid t \<Longrightarrow> utf8_valid (s @ t)"
proof (induction s rule: utf8_valid.induct)
  case (2 c cs)
  let ?n = "utf8_len (c # cs)"
  have n: "?n \<noteq> 0" "?n \<le> length (c # cs)" using 2(2) utf8_len_le [of "c # cs"] by (auto split: if_splits)
  have "utf8_len (take ?n (c # cs) @ drop ?n (c # cs) @ t) = ?n" by (rule utf8_len_append [OF refl n(1)])
  then have len: "utf8_len ((c # cs) @ t) = ?n" by (metis append.assoc append_take_drop_id)
  have "drop ?n ((c # cs) @ t) = drop ?n (c # cs) @ t"
    using n(2) by (simp only: drop_append diff_is_0_eq [THEN iffD2] drop_0)
  moreover have "utf8_valid (drop ?n (c # cs) @ t)" using 2 n(1) by (metis utf8_valid.simps(2))
  ultimately show ?case using len n(1) by (metis append_Cons utf8_valid.simps(2))
qed simp

lemma intact_valid: "intact out \<Longrightarrow> utf8_valid out"
proof -
  have "list_all utf8_valid xs \<Longrightarrow> utf8_valid (concat xs)" for xs
    by (induction xs) (simp_all add: utf8_valid_append)
  then show "intact out \<Longrightarrow> utf8_valid out" unfolding intact_def using chunks_concat [of out] by metis
qed

lemma ascii_intact: "ascii out \<Longrightarrow> intact out"
  using chunks_set [of _ out] by (force simp: intact_def ascii_def list_all_iff intro: utf8_valid_ascii)

lemma payloads_facts:
  assumes "length out < 2 ^ 53"
  shows "\<forall>d \<in> set (payloads out). payload_ok d" "concat (map payload_text (payloads out)) = received out"
    "sum_list (map payload_tokens (payloads out)) = int (length out div 4)"
proof -
  define cs where "cs = (if out = [] then [[]] else chunks out)"
  have cs: "length x \<le> chunkSize" if "x \<in> set cs" for x
    using that chunks_length [of x out] by (auto simp: cs_def split: if_splits)
  have cat: "concat (map utf8_clean cs) = received out" by (simp add: cs_def received_def)
  have p: "payloads out = map (\<lambda>x. json_Marshal (content_json x)) cs @ [json_Marshal (usage_json (length out))]"
    by (simp add: payloads_def cs_def)
  show "\<forall>d \<in> set (payloads out). payload_ok d"
    unfolding p using cs content_payload(1) usage_payload(1) [OF assms] by (auto simp del: json_Marshal.simps)
  have t: "map payload_text (map (\<lambda>x. json_Marshal (content_json x)) cs) = map utf8_clean cs"
    using cs content_payload(2) by auto
  show "concat (map payload_text (payloads out)) = received out"
    by (simp only: p map_append concat_append t cat list.map usage_payload(2) [OF assms] concat.simps append_Nil2)
  have "map (\<lambda>x. payload_tokens (json_Marshal (content_json x))) cs = map (\<lambda>x. 0) cs"
    using cs content_payload(3) by auto
  then have "sum_list (map payload_tokens (map (\<lambda>x. json_Marshal (content_json x)) cs)) = 0"
    by (simp only: list.map_comp comp_def sum_list_0)
  then show "sum_list (map payload_tokens (payloads out)) = int (length out div 4)"
    unfolding p using usage_payload(3) [OF assms] by simp
qed

lemma mock_message_stream:
  assumes "no_cancel e" "req_Body r = Some (Raw (json_Marshal (message_json prompt)))"
  shows "wr_status (underlying (mock_message e r new_writer)) = Some 200"
    and "Header_Get (wr_sent (underlying (mock_message e r new_writer))) ''Content-Type'' = ''text/event-stream''"
    and "Header_Get (wr_sent (underlying (mock_message e r new_writer))) ''X-Usage-Total-Tokens'' = []"
    and "concat (wr_body (underlying (mock_message e r new_writer))) =
      stream_of (payloads (mock_output (utf8_clean prompt))) @ sse_frame ''[DONE]''"
proof -
  let ?p = "utf8_clean prompt"
  let ?out = "mock_output ?p"
  define H where "H = Header_Set ''Connection'' ''keep-alive'' (Header_Set ''Cache-Control'' ''no-cache''
    (Header_Set ''Content-Type'' ''text/event-stream'' []))"
  define b where "b = \<lparr>wr_flusher = True, wr_header = H, wr_info = [], wr_status = Some 200, wr_sent = H, wr_body = []\<rparr>"
  have keys: "key_matches ''content'' ''content''" "\<not> key_matches ''content'' ''role''" "ascii ''role''" "ascii ''user''"
    by (simp_all add: key_matches_upper ascii_def)
  have clean: "json_clean (message_json prompt) = message_json ?p"
    using ascii_clean [OF keys(3)] ascii_clean [OF keys(4)] ascii_clean [OF ascii_keys(1)]
    by (simp add: message_json_def)
  have "Decoder_Decode (json_Marshal (message_json prompt) @ []) = Some (json_clean (message_json prompt))"
    by (rule Decode_Marshal) (simp_all add: message_json_def delim_def)
  then have dec: "Decoder_Decode (json_Marshal (message_json prompt)) = Some (message_json ?p)" by (simp add: clean)
  have fld: "struct_members (message_json ?p) = Some [(''content'', JStr ?p), (''role'', JStr ''user'')]"
    "struct_field get_string ''content'' [] [(''content'', JStr ?p), (''role'', JStr ''user'')] = Some ?p"
    using keys by (simp_all add: message_json_def struct_field_def)
  have w1: "WriteHeader 200 (RW_Header (Header_Set ''Connection'' ''keep-alive'' \<circ> Header_Set ''Cache-Control'' ''no-cache'' \<circ>
      Header_Set ''Content-Type'' ''text/event-stream'') new_writer) = Base b"
    by (simp add: new_writer_def b_def H_def wire_WriteHeader_def)
  have st: "wr_status b = Some 200" by (simp add: b_def)
  let ?cs = "map (\<lambda>x. sse_frame (json_Marshal (content_json x)))"
  have m: "mock_message e r new_writer =
      Base (b\<lparr>wr_body := ?cs (if ?out = [] then [[]] else chunks ?out) @ [sse_frame (json_Marshal (usage_json (length ?out))), sse_frame ''[DONE]'']\<rparr>)"
  proof -
    have fl: "is_Flusher new_writer" by (simp add: new_writer_def)
    have d: "\<not> (0 < me_delay e \<and> me_cancel_delay e)" using assms(1) by (auto simp: no_cancel_def)
    have wb: "wr_body b = []" by (simp add: b_def)
    show ?thesis
      using d chunk_loop_base [OF assms(1) st, of 0 ?out]
      by (auto simp: mock_message_def assms(2) dec fld fl Let_def w1 send_frame_base st wb wire_WriteHeader_def simp del: json_Marshal.simps)
  qed
  have cat: "stream_of (payloads ?out) @ sse_frame ''[DONE]'' =
      concat (?cs (if ?out = [] then [[]] else chunks ?out) @ [sse_frame (json_Marshal (usage_json (length ?out))), sse_frame ''[DONE]''])"
    by (simp add: stream_of_def payloads_def comp_def)
  have hs: "Header_Get H ''Content-Type'' = ''text/event-stream''" "Header_Get H ''X-Usage-Total-Tokens'' = []"
    unfolding H_def by code_simp+
  show "wr_status (underlying (mock_message e r new_writer)) = Some 200"
    and "Header_Get (wr_sent (underlying (mock_message e r new_writer))) ''Content-Type'' = ''text/event-stream''"
    and "Header_Get (wr_sent (underlying (mock_message e r new_writer))) ''X-Usage-Total-Tokens'' = []"
    unfolding m using hs by (simp_all add: b_def)
  show "concat (wr_body (underlying (mock_message e r new_writer))) = stream_of (payloads ?out) @ sse_frame ''[DONE]''"
    unfolding m cat by simp
qed

lemma TrimRightChar_last: "s = [] \<or> last s \<noteq> c \<Longrightarrow> TrimRightChar c s = s"
  by (cases s rule: rev_cases) (auto simp: TrimRightChar_def)

lemma SplitChar_path:
  assumes "CHR ''/'' \<notin> set sid"
  shows "SplitChar (CHR ''/'') (''/sessions/'' @ sid @ ''/messages'') = [[], ''sessions'', sid, ''messages'']"
proof -
  have "SplitChar (CHR ''/'') (sid @ CHR ''/'' # ''messages'') = [sid, ''messages'']"
    using assms by (simp add: SplitChar_append SplitChar_no_sep)
  then show ?thesis by (simp add: SplitChar_append [of _ "''sessions''", simplified])
qed

text \<open>Plain URLs.\<close>

lemma url_char_no_sep: "\<not> url_char (CHR ''/'')" "\<not> url_char (CHR '':'')" "\<not> is_digit (CHR ''/'')"
  by (simp_all add: url_char_def is_digit_def)

lemma plain_no_slash: "plain_segment s \<Longrightarrow> CHR ''/'' \<notin> set s"
  using url_char_no_sep by (auto simp: plain_segment_def list_all_iff)

lemma in_SplitChar: "c \<in> set s \<Longrightarrow> c \<noteq> sep \<Longrightarrow> \<exists>p. p \<in> set (SplitChar sep s) \<and> c \<in> set p"
  by (induction s) (fastforce split: list.splits)+

lemma plain_ascii: "plain_segment s \<Longrightarrow> ascii s"
  by (auto simp: plain_segment_def list_all_iff ascii_def url_char_def)

lemma plain_host_no_slash: "plain_host h \<Longrightarrow> CHR ''/'' \<notin> set h \<and> h \<noteq> []"
proof -
  assume h: "plain_host h"
  obtain p ps where sp: "SplitChar (CHR '':'') h = p # ps" by (cases "SplitChar (CHR '':'') h") simp_all
  have "plain_segment p" "ps = [] \<or> (\<exists>q. ps = [q] \<and> list_all is_digit q)"
    using h by (auto simp: plain_host_def sp Let_def length_Suc_conv)
  then have "CHR ''/'' \<notin> set q" if "q \<in> set (SplitChar (CHR '':'') h)" for q
    using that plain_no_slash url_char_no_sep(3) unfolding sp by (auto simp: list_all_iff)
  moreover have "h \<noteq> []" using h by (auto simp: plain_host_def plain_segment_def)
  ultimately show ?thesis using in_SplitChar [of "CHR ''/''" h "CHR '':''"] by auto
qed

lemma direct_paths:
  assumes "plain_host h"
  shows "direct (''http://'' @ h) ((''http://'' @ h) @ ''/sessions'')"
    and "plain_segment sid \<Longrightarrow> direct (''http://'' @ h) ((''http://'' @ h) @ ''/sessions/'' @ sid @ ''/messages'')"
proof -
  let ?b = "''http://'' @ h"
  have b: "HasPrefix ?b ''http://''" "TrimPrefix ?b ''http://'' = h"
    using HasPrefix_append TrimPrefix_append by blast+
  have u: "HasPrefix (?b @ p) ?b" "TrimPrefix (?b @ p) ?b = p" for p using HasPrefix_append TrimPrefix_append by blast+
  have seg: "plain_segment ''sessions''" "plain_segment ''messages''" by (simp_all add: plain_segment_def url_char_def)
  have "plain_path ''/sessions''" using seg by (simp add: plain_path_def)
  then show "direct ?b (?b @ ''/sessions'')" unfolding direct_def b(2) u(2) using assms b(1) u(1) by blast
  show "direct ?b (?b @ ''/sessions/'' @ sid @ ''/messages'')" if "plain_segment sid"
  proof -
    have "plain_path (''/sessions/'' @ sid @ ''/messages'')"
      unfolding plain_path_def SplitChar_path [OF plain_no_slash [OF that]] using seg that by simp
    then show ?thesis unfolding direct_def b(2) u(2) using assms b(1) u(1) by blast
  qed
qed

lemma NewClient_base: "plain_host h \<Longrightarrow> baseURL (NewClient (''http://'' @ h)) = ''http://'' @ h"
proof -
  assume "plain_host h"
  then have "last (''http://'' @ h) \<noteq> CHR ''/''" using plain_host_no_slash [of h] last_in_set [of h] by (metis last_appendR)
  then show ?thesis by (simp add: NewClient_def TrimRightChar_last)
qed

lemma mock_client_direct:
  assumes "direct base (base @ p)"
  shows "hc_NewRequest (mock_client other H base e) (base @ p) = None"
    and "hc_Do (mock_client other H base e) (post_request (base @ p) h body) =
      Inr (response_of (mock_ServeHTTP other e ((post_request (base @ p) h body)\<lparr>req_Path := p\<rparr>) new_writer))"
  using assms TrimPrefix_append [of base p] by (simp_all add: mock_client_def post_request_def)

lemma SendMessage_mock:
  assumes "plain_host h" "plain_segment sid" "no_cancel e" "length (mock_output (utf8_clean prompt)) < 2 ^ 53"
  shows "fst (SendMessage (mock_client other H (''http://'' @ h) e) (NewClient (''http://'' @ h)) sid prompt hb) =
    Inr \<lparr>sr_Content = received (mock_output (utf8_clean prompt)),
         sr_TokensUsed = int (length (mock_output (utf8_clean prompt)) div 4)\<rparr>"
proof -
  let ?out = "mock_output (utf8_clean prompt)" and ?p = "''/sessions/'' @ sid @ ''/messages''"
  let ?h = "Header_Set ''Accept'' ''text/event-stream'' (Header_Set ''Content-Type'' ''application/json'' [])"
  define base where "base = ''http://'' @ h"
  have base: "baseURL (NewClient base) = base" unfolding base_def by (rule NewClient_base [OF assms(1)])
  have dir: "direct base (base @ ?p)" unfolding base_def by (rule direct_paths(2) [OF assms(1,2)])
  define r where "r = (post_request (base @ ?p) ?h (json_Marshal (message_json prompt)))\<lparr>req_Path := ?p\<rparr>"
  have parts: "SplitChar (CHR ''/'') (req_Path r) = [[], ''sessions'', sid, ''messages'']" "req_Path r \<noteq> ''/sessions''"
    "req_Method r = ''POST''" "req_Body r = Some (Raw (json_Marshal (message_json prompt)))"
    unfolding r_def using SplitChar_path [OF plain_no_slash [OF assms(2)]] by (simp_all add: post_request_def)
  note m = mock_message_stream [OF assms(3) parts(4)]
  have "mock_ServeHTTP other e r new_writer = mock_message e r new_writer"
    using parts assms(2) by (simp add: mock_ServeHTTP_def plain_segment_def Let_def)
  then have do: "hc_Do (mock_client other H base e) (post_request (base @ ?p) ?h (json_Marshal (message_json prompt))) =
      Inr (response_of (mock_message e r new_writer))"
    unfolding mock_client_direct(2) [OF dir] r_def by simp
  define resp where "resp = response_of (mock_message e r new_writer)"
  have resp: "resp_StatusCode resp = 200" "Header_Get (resp_Header resp) ''Content-Type'' = ''text/event-stream''"
    "Header_Get (resp_Header resp) ''X-Usage-Total-Tokens'' = []"
    "resp_Body resp = stream_of (payloads ?out) @ sse_frame ''[DONE]''"
    unfolding resp_def using m by (simp_all add: response_of_def)
  have ct: "Contains ''text/event-stream'' ''text/event-stream''" by code_simp
  note pf = payloads_facts [OF assms(4)]
  have "length ?out div 4 < 2 ^ 53" using assms(4) by (meson div_le_dividend le_less_trans)
  then have "in_int64 (int (length ?out div 4))" by (simp add: in_int64_def flip: of_nat_less_iff)
  then have "fst (readSSEStream hb (resp_Body resp) (resp_BodyErr resp) (resp_Header resp)) =
      Inr (received ?out, int (length ?out div 4))"
    using readSSEStream_frames [OF pf(1), of hb "[]" "resp_BodyErr resp" "resp_Header resp"] pf(2,3) resp(3,4)
    by (simp add: Let_def)
  then obtain hbs where rs: "readSSEStream hb (resp_Body resp) (resp_BodyErr resp) (resp_Header resp) =
      (Inr (received ?out, int (length ?out div 4)), hbs)" by (metis prod.collapse)
  show ?thesis
    unfolding base_def [symmetric] SendMessage_def base Let_def mock_client_direct(1) [OF dir] option.case do sum.case
      resp_def [symmetric] resp(1,2) rs
    by (simp only: ct simp_thms if_True if_False prod.case sum.case fst_conv)
qed

lemma CreateSession_mock:
  assumes "plain_host h" "ascii (me_uuid e)" "ascii (me_time e)" "hc_time_ok H (JStr (me_time e))"
  shows "CreateSession (mock_client other H (''http://'' @ h) e) (NewClient (''http://'' @ h)) = Inr \<lparr>sess_ID = me_uuid e\<rparr>"
proof -
  let ?d = "JObj [(''createdAt'', JStr (me_time e)), (''id'', JStr (me_uuid e))]"
  let ?h = "Header_Set ''Content-Type'' ''application/json'' []"
  define base where "base = ''http://'' @ h"
  have base: "baseURL (NewClient base) = base" unfolding base_def by (rule NewClient_base [OF assms(1)])
  have dir: "direct base (base @ ''/sessions'')" unfolding base_def by (rule direct_paths(1) [OF assms(1)])
  define r where "r = (post_request (base @ ''/sessions'') ?h ''{}'')\<lparr>req_Path := ''/sessions''\<rparr>"
  have "mock_ServeHTTP other e r new_writer = mock_create_session e r new_writer"
    by (simp add: mock_ServeHTTP_def r_def post_request_def Let_def)
  then have do: "hc_Do (mock_client other H base e) (post_request (base @ ''/sessions'') ?h ''{}'') =
      Inr (response_of (mock_create_session e r new_writer))"
    unfolding mock_client_direct(2) [OF dir] r_def by simp
  have resp: "resp_StatusCode (response_of (mock_create_session e r new_writer)) = 201"
    "resp_Body (response_of (mock_create_session e r new_writer)) = json_Marshal ?d @ newline"
    by (simp_all add: response_of_def mock_create_session_def json_ok_def write_json_def new_writer_def wire_WriteHeader_def Let_def
        del: json_Marshal.simps)
  have keys: "ascii ''createdAt''" "ascii ''id''" "\<not> key_matches ''id'' ''createdAt''" "\<not> key_matches ''createdAt'' ''id''"
    by (simp_all add: ascii_def key_matches_upper)
  have "Decoder_Decode (json_Marshal ?d @ newline) = Some (json_clean ?d)"
    by (rule Decode_Marshal) (simp_all add: delim_def newline_def is_digit_def)
  also have "json_clean ?d = ?d" using assms(2,3) keys(1,2) by (simp add: ascii_clean)
  finally have "decode_session (mock_client other H base e) (json_Marshal ?d @ newline) = Some \<lparr>sess_ID = me_uuid e\<rparr>"
    using keys(3,4) assms(4) by (simp add: decode_session_def mock_client_def struct_field_def key_matches_def del: json_Marshal.simps)
  then show ?thesis
    unfolding base_def [symmetric] CreateSession_def base Let_def mock_client_direct(1) [OF dir]
    by (simp only: option.case do sum.case resp simp_thms if_False)
qed

text \<open>A server without delays.\<close>

definition sample_mock :: MockEnv where
  "sample_mock = \<lparr>me_uuid = ''s1'', me_time = ''2025-01-01T00:00:00Z'', me_delay = 0, me_chunkDelay = 0,
     me_cancel_delay = False, me_cancel_chunk = (\<lambda>_. False)\<rparr>"

text \<open>A client for what is not plain: it refuses every URL.\<close>

definition no_client :: HttpClient where
  "no_client = \<lparr>hc_NewRequest = (\<lambda>_. Some (Errorf ''refused'')), hc_Do = (\<lambda>_. Inl (Errorf ''refused'')),
     hc_json_error = (\<lambda>_. Errorf ''invalid JSON''), hc_time_ok = (\<lambda>v. v = JStr (me_time sample_mock))\<rparr>"

section \<open>Properties\<close>

text \<open>C29: The client and the stand-in server agree: for every prompt, ASCII or not, sent to a session of the server
  over a perfect network, the client gets back the output of the server (shorter than 2^53 bytes), every
  100-byte chunk in order, and its token count, a quarter of its length. Each chunk is read on its own, so
  bytes of a character that a chunk boundary cuts come back as U+FFFD; when no character is cut, as in ASCII,
  the content is exactly the output.\<close>

theorem mock_opencode_roundtrip:
  assumes "plain_host host" "plain_segment sid" "no_cancel e"
    and "out = mock_output (utf8_clean prompt)" "length out < 2 ^ 53"
    and "base = ''http://'' @ host"
  shows "fst (SendMessage (mock_client other H base e) (NewClient base) sid prompt hb) =
      Inr \<lparr>sr_Content = concat (map utf8_clean (chunks out)), sr_TokensUsed = int (length out div 4)\<rparr> \<and>
    concat (chunks out) = out \<and>
    (intact out \<longrightarrow> concat (map utf8_clean (chunks out)) = out) \<and> (ascii out \<longrightarrow> intact out)"
  using SendMessage_mock [OF assms(1-3), of prompt] assms(4-6) received_intact [of out] ascii_intact [of out] chunks_concat [of out]
  by (simp add: received_def)

theorem mock_opencode_roundtrip_witness:
  "fst (SendMessage (mock_client (\<lambda>r w. http_NotFound w) no_client ''http://sb1:4096'' sample_mock) (NewClient ''http://sb1:4096'') ''s1''
      ''OUTPUT:hello world'' True) = Inr \<lparr>sr_Content = ''hello world'', sr_TokensUsed = 2\<rparr>"
proof -
  have o: "mock_output (utf8_clean ''OUTPUT:hello world'') = ''hello world''" by code_simp
  have a: "ascii ''hello world''" by (simp add: ascii_def)
  have p: "plain_host ''sb1:4096''" "plain_segment ''s1''" "no_cancel sample_mock"
    by (code_simp, code_simp, simp add: sample_mock_def no_cancel_def)
  show ?thesis
    using mock_opencode_roundtrip [OF p o [symmetric], of "''http://sb1:4096''" "\<lambda>r w. http_NotFound w" no_client True] a
    by simp
qed

end
