(* ===== verification/Worker_Program.thy ===== *)
theory Worker_Program
  imports Mock_OpenCode Coding_Workflow Config
begin

text \<open>
  The worker program, \<^verbatim>\<open>cmd/worker/main.go\<close>: the pool and the activities it registers with the workflow engine.
  How the program starts and ends is in \<open>Programs\<close>; what the retries of the engine do is in \<open>Activity_Retries\<close>.

  The theory also puts the parts together: a task that runs through the worker's activities, over the pool in
  local mode, against the stand-in OpenCode server.
\<close>

section \<open>Definitions\<close>

definition worker_pool_mock :: "Config \<Rightarrow> PoolMetrics \<Rightarrow> MockSandboxProvider PoolManager" where
  "worker_pool_mock cfg m =
     (let pc = cfg_Pool cfg
      in NewPoolManager (NewMockSandboxProvider (pc_MockTarget pc)) (pc_MaxSize pc) (pc_Namespace pc) empty_store (Some m))"

definition worker_pool_k8s :: "Config \<Rightarrow> 's \<Rightarrow> PoolMetrics \<Rightarrow> 's PoolManager" where
  "worker_pool_k8s cfg world m =
     (let pc = cfg_Pool cfg in NewPoolManager world (pc_MaxSize pc) (pc_Namespace pc) empty_store (Some m))"

definition worker_activities :: "'p PoolManager \<Rightarrow> WorkflowMetrics \<Rightarrow> 'p Activities" where
  "worker_activities pm wm = \<lparr>act_Pool = Some pm, act_Metrics = Some wm, act_heartbeats = []\<rparr>"

section \<open>Lemmas\<close>

lemma mock_output_given: "mock_output (''OUTPUT:'' @ doc) = doc"
  using HasPrefix_append [of "''OUTPUT:''" doc] TrimPrefix_append [of "''OUTPUT:''" doc] by (simp add: mock_output_def)

lemma range_order_Nil: "range_order ord \<Longrightarrow> ord [] = []"
  using range_order_length [of ord "[]"] by simp

text \<open>The first allocation of a pool in local mode.\<close>

lemma first_allocation:
  assumes "range_order ord" "1 \<le> pc_MaxSize (cfg_Pool cfg)"
  obtains pm1 where "Allocate mock_provider ord e u (worker_pool_mock cfg m) = (Inr 0, pm1)"
    "SandboxName (alloc_at pm1 0) = ''mock-sandbox-1''" "ServiceFQDN (alloc_at pm1 0) = pc_MockTarget (cfg_Pool cfg)"
    "registry (store pm1) = [''mock-sandbox-1'' \<mapsto> alloc_at pm1 0]" "store_ok (store pm1)"
proof -
  let ?x = "active_alloc e u ''mock-sandbox-1'' (pc_MockTarget (cfg_Pool cfg))"
  let ?pm = "worker_pool_mock cfg m"
  have i: "itoa 1 = ''1''" by code_simp
  have "fst (Allocate mock_provider ord e u ?pm) = Inr 0" "store (snd (Allocate mock_provider ord e u ?pm)) = store_new ?x empty_store"
    using assms range_order_Nil [OF assms(1)] i
    by (simp_all add: Allocate_def claimIdle_def worker_pool_mock_def NewPoolManager_def empty_store_def
        NewAllocationCache_def Cache_ListByStatus_def store_len_def Cache_Len_def mock_provider_def
        Mock_CreateSandbox_def NewMockSandboxProvider_def Let_def in_int64_def record_count_def)
  then obtain pm1 where a: "Allocate mock_provider ord e u ?pm = (Inr 0, pm1)" "store pm1 = store_new ?x empty_store"
    by (metis prod.collapse)
  have x: "alloc_at pm1 0 = ?x" by (simp add: alloc_at_def a(2) store_new_def empty_store_def Let_def)
  have ok: "store_ok (store pm1)" unfolding a(2) by (rule store_ok_new) (simp_all add: active_alloc_def)
  have "registry (store pm1) = [''mock-sandbox-1'' \<mapsto> ?x]"
    unfolding a(2) by (rule ext) (simp add: registry_new active_alloc_def)
  with a x ok that show ?thesis by (simp add: active_alloc_def)
qed

text \<open>A run whose first answer already meets the schema.\<close>

lemma one_attempt_run:
  assumes al: "act_Pool a = Some pm" "Allocate P ord e (ti_UserID inp) pm = (Inr ad, pm1)"
    and cs: "CreateSession H (NewClient (''http://'' @ ServiceFQDN (alloc_at pm1 ad))) = Inr \<lparr>sess_ID = sid\<rparr>"
    and sm: "fst (SendMessage H (NewClient (''http://'' @ ServiceFQDN (alloc_at pm1 ad))) sid (ti_Prompt inp) True) =
      Inr \<lparr>sr_Content = out, sr_TokensUsed = n\<rparr>"
    and v: "vr_Valid (ValidateWithFeedback L out (ti_OutputSchema inp))" "ti_OutputSchema inp \<noteq> []"
  shows "fst (CodingTaskWorkflow (single_attempt P ord e H L) inp t0 t1 a) =
    (\<lparr>to_SessionID = sid, to_Result = vr_Output (ValidateWithFeedback L out (ti_OutputSchema inp)),
      to_Duration = time_sub t1 t0, to_TokensUsed = n\<rparr>, None)"
proof -
  obtain hbs where sm': "SendMessage H (NewClient (''http://'' @ ServiceFQDN (alloc_at pm1 ad))) sid (ti_Prompt inp) True =
      (Inr \<lparr>sr_Content = out, sr_TokensUsed = n\<rparr>, hbs)" using sm by (metis prod.collapse)
  have three: "maxValidationRetries = Suc (Suc (Suc 0))" by (simp add: maxValidationRetries_def)
  show ?thesis
    using al cs sm' v
    by (simp add: CodingTaskWorkflow_def workflow_body_def call_allocate_def single_attempt_def AllocateSandboxActivity_def
      call_create_session_def CreateSessionActivity_def call_execute_def ExecutePromptActivity_def
      call_validate_def ValidateOutputActivity_def three Let_def zero_output_def)
qed

definition sample_pool_metrics :: PoolMetrics where
  "sample_pool_metrics = (case NewPoolMetrics (\<lambda>_. None) of Inr m \<Rightarrow> m)"

definition sample_wf_metrics :: WorkflowMetrics where
  "sample_wf_metrics = \<lparr>wm_taskDuration = [], wm_taskStatus = [], wm_llmTokensUsed = []\<rparr>"

text \<open>The schema library accepts a document.\<close>

definition accepts :: "SchemaLib \<Rightarrow> string \<Rightarrow> string \<Rightarrow> bool" where
  "accepts L sch doc \<longleftrightarrow> Validate L (compact_out doc) sch = None"

lemma valid_document:
  assumes "json_Valid doc" "HasPrefix doc ''{''" "last doc = CHR ''}''" "accepts L sch doc"
  shows "vr_Valid (ValidateWithFeedback L doc sch)" "vr_Output (ValidateWithFeedback L doc sch) = compact_out doc"
  using ExtractJSON_object [OF assms(1-3), of "[]" "[]"] assms(4)
  by (simp_all add: ValidateWithFeedback_def accepts_def)

section \<open>Properties\<close>

text \<open>C5: The parts work together: on a worker in local mode with a valid pool size and a plain mock target, a task
  that asks the stand-in server for a JSON object which its schema accepts, and none of whose characters is cut
  by the server's 100-byte chunks (as in every ASCII document), completes at the first attempt when the engine
  runs each activity once and the server does not give up its waits: with the object, compacted, as its result,
  the server's session and a quarter of the length as its token count, and with no sandbox left in the pool.\<close>

theorem worker_task_end_to_end:
  assumes "range_order ord" "1 \<le> pc_MaxSize (cfg_Pool cfg)" "plain_host (pc_MockTarget (cfg_Pool cfg))"
    and "no_cancel menv" "plain_segment (me_uuid menv)" "ascii (me_time menv)" "hc_time_ok H (JStr (me_time menv))"
    and "json_Valid doc" "HasPrefix doc ''{''" "last doc = CHR ''}''" "intact doc" "length doc < 2 ^ 53"
    and "ti_Prompt inp = ''OUTPUT:'' @ doc" "ti_OutputSchema inp \<noteq> []" "accepts L (ti_OutputSchema inp) doc"
    and "CodingTaskWorkflow
        (single_attempt mock_provider ord e (mock_client other H (''http://'' @ pc_MockTarget (cfg_Pool cfg)) menv) L)
        inp t0 t1 (worker_activities (worker_pool_mock cfg m) wm) = (res, R)"
  shows "res = (\<lparr>to_SessionID = me_uuid menv, to_Result = compact_out doc, to_Duration = time_sub t1 t0,
      to_TokensUsed = int (length doc div 4)\<rparr>, None) \<and>
    (\<exists>pm. act_Pool (run_world R) = Some pm \<and> (\<forall>n. registry (store pm) n = None))"
proof -
  let ?tgt = "pc_MockTarget (cfg_Pool cfg)"
  let ?H = "mock_client other H (''http://'' @ ?tgt) menv"
  let ?A = "single_attempt mock_provider ord e ?H L"
  let ?a = "worker_activities (worker_pool_mock cfg m) wm"
  obtain pm1 where al: "Allocate mock_provider ord e (ti_UserID inp) (worker_pool_mock cfg m) = (Inr 0, pm1)"
    and name: "SandboxName (alloc_at pm1 0) = ''mock-sandbox-1''" and fqdn: "ServiceFQDN (alloc_at pm1 0) = ?tgt"
    and reg: "registry (store pm1) = [''mock-sandbox-1'' \<mapsto> alloc_at pm1 0]" and ok: "store_ok (store pm1)"
    by (rule first_allocation [OF assms(1,2)])
  have pool: "act_Pool ?a = Some (worker_pool_mock cfg m)" by (simp add: worker_activities_def)
  note cs = CreateSession_mock [OF assms(3) plain_ascii [OF assms(5)] assms(6,7), of other]
  have "utf8_valid (''OUTPUT:'' @ doc)"
    by (rule utf8_valid_append [OF utf8_valid_ascii intact_valid [OF assms(11)]]) simp
  then have out: "mock_output (utf8_clean (''OUTPUT:'' @ doc)) = doc" by (simp only: utf8_clean_valid mock_output_given)
  have len: "length (mock_output (utf8_clean (''OUTPUT:'' @ doc))) < 2 ^ 53" using assms(12) by (simp only: out)
  note sm = SendMessage_mock [OF assms(3,5,4) len, of other H True, unfolded out received_intact [OF assms(11)]]
  note vd = valid_document [OF assms(8-10,15)]
  have "fst (CodingTaskWorkflow ?A inp t0 t1 ?a) =
      (\<lparr>to_SessionID = me_uuid menv, to_Result = vr_Output (ValidateWithFeedback L doc (ti_OutputSchema inp)),
        to_Duration = time_sub t1 t0, to_TokensUsed = int (length doc div 4)\<rparr>, None)"
    by (rule one_attempt_run [OF pool al _ _ vd(1) assms(14)]) (simp_all only: fqdn cs assms(13) sm)
  then have "res = (\<lparr>to_SessionID = me_uuid menv, to_Result = compact_out doc, to_Duration = time_sub t1 t0,
      to_TokensUsed = int (length doc div 4)\<rparr>, None)" using assms(16) vd(2) by simp
  moreover have "\<exists>pm. act_Pool (run_world R) = Some pm \<and> (\<forall>n. registry (store pm) n = None)"
  proof -
    obtain d pm2 where rel: "Release mock_provider ''mock-sandbox-1'' pm1 = (d, pm2)" by (meson surj_pair)
    have x: "registry (store pm1) ''mock-sandbox-1'' = Some (alloc_at pm1 0)" by (simp add: reg)
    note p = Release_present [OF ok x rel]
    have "d = None" using p(3) by (simp add: Mock_Delete_step)
    then have "registry (store pm2) n = None" for n using p(4) by (simp add: reg)
    moreover have "act_Pool (run_world R) = Some pm2" using workflow_pool [OF pool assms(16)] al name rel by simp
    ultimately show ?thesis by blast
  qed
  ultimately show ?thesis by blast
qed

theorem worker_task_end_to_end_witness:
  "\<exists>R :: MockSandboxProvider Activities Run. CodingTaskWorkflow
     (single_attempt mock_provider (\<lambda>xs. xs) (sample_env 1 ''u1'') (mock_client (\<lambda>r w. http_NotFound w) no_client ''http://localhost:4096'' sample_mock) sample_lib)
     (sample_input\<lparr>ti_Prompt := ''OUTPUT:'' @ sample_doc\<rparr>) 0 7
     (worker_activities (worker_pool_mock DefaultConfig sample_pool_metrics) sample_wf_metrics) =
     ((\<lparr>to_SessionID = ''s1'', to_Result = compact_out sample_doc, to_Duration = 7, to_TokensUsed = int (length sample_doc div 4)\<rparr>, None), R)"
proof -
  let ?i = "sample_input\<lparr>ti_Prompt := ''OUTPUT:'' @ sample_doc\<rparr>"
  have c: "1 \<le> pc_MaxSize (cfg_Pool DefaultConfig)" "pc_MockTarget (cfg_Pool DefaultConfig) = ''localhost:4096''"
    by (simp_all add: DefaultConfig_def)
  have t: "plain_host ''localhost:4096''" by code_simp
  have m: "no_cancel sample_mock" "plain_segment (me_uuid sample_mock)" "ascii (me_time sample_mock)"
    "hc_time_ok no_client (JStr (me_time sample_mock))"
    by (simp_all add: sample_mock_def no_cancel_def ascii_def no_client_def plain_segment_def url_char_def)
  have "ascii sample_doc" by (simp add: sample_doc_def ascii_def)
  then have d: "HasPrefix sample_doc ''{''" "last sample_doc = CHR ''}''" "intact sample_doc" "length sample_doc < 2 ^ 53"
    by (simp_all add: ascii_intact) (simp_all add: sample_doc_def HasPrefix_def)
  have i: "ti_Prompt ?i = ''OUTPUT:'' @ sample_doc" "ti_OutputSchema ?i \<noteq> []" "accepts sample_lib (ti_OutputSchema ?i) sample_doc"
    using sample_doc_value sample_schema_value by (simp_all add: sample_input_def accepts_def Validate_None sample_lib_def)
  have s: "time_sub 7 0 = 7" "me_uuid sample_mock = ''s1''" by (code_simp, simp add: sample_mock_def)
  from worker_task_end_to_end [OF range_order_id c(1) t [folded c(2)] m sample_doc_valid d i surjective_pairing,
      where e = "sample_env 1 ''u1''" and other = "\<lambda>r w. http_NotFound w" and ?t0.0 = 0 and ?t1.0 = 7 and
      m = sample_pool_metrics and wm = sample_wf_metrics]
  show ?thesis unfolding c(2) s by (metis append_Cons append_Nil prod.collapse)
qed

end
