(* ===== verification/Programs.thy ===== *)
theory Programs
  imports Telemetry Router_Server Worker_Program Sandbox_Controller
begin

text \<open>
  Start and end of the three programs, \<^verbatim>\<open>cmd/router/main.go\<close>, \<^verbatim>\<open>cmd/worker/main.go\<close> and \<^verbatim>\<open>cmd/controller/main.go\<close>: in which order they
  set up their parts, when they give up with exit code 1, what they run with, and what they stop.

  The two flags are an argument (\<open>Flags\<close>), and so is how the calls of third-party code end (\<open>HostLib\<close>): reading and parsing the
  configuration, OpenTelemetry, the instruments of the meter, the Kubernetes client and the Temporal client.  What a running
  router answers is \<open>main_handler\<close> of \<open>Router_Server\<close>, over the pool built there; what a worker runs is \<open>worker_activities\<close>.
\<close>

section \<open>Definitions\<close>

subsection \<open>Surroundings\<close>

record Flags =
  fl_config :: string
  fl_kubeconfig :: string

record KubeLib =
  kb_BuildConfigFromFlags :: "string \<Rightarrow> go_error option"
  kb_InClusterConfig :: "go_error option"
  kb_NewForConfig :: "go_error option"

record HostLib =
  hl_config :: ConfigEnv
  hl_otel :: OtelLib
  hl_meter :: "string \<Rightarrow> go_error option"
  hl_kube :: KubeLib
  hl_Dial :: "string \<Rightarrow> string \<Rightarrow> go_error option"

text \<open>A program has exited with code 1 after logging a message and an error, or it runs.\<close>

datatype 'a program = Exited string go_error | Running 'a

definition kube_client :: "KubeLib \<Rightarrow> string \<Rightarrow> (string \<times> go_error) option" where
  "kube_client K kubeconfig =
     (case (if kubeconfig \<noteq> [] then kb_BuildConfigFromFlags K kubeconfig else kb_InClusterConfig K) of
        Some err \<Rightarrow> Some (''failed to get kubernetes config'', err)
      | None \<Rightarrow> (case kb_NewForConfig K of Some err \<Rightarrow> Some (''failed to create dynamic client'', err) | None \<Rightarrow> None))"

definition setup_config :: "string \<Rightarrow> Config \<Rightarrow> SetupConfig" where
  "setup_config suffix cfg =
     (let t = cfg_Telemetry cfg
      in \<lparr>sc_ServiceName = lc_ServiceName t @ suffix, sc_OTelEndpoint = lc_OTelEndpoint t,
          sc_PrometheusPort = lc_PrometheusPort t, sc_LogLevel = lc_LogLevel t\<rparr>)"

datatype provider_choice = MockProvider MockSandboxProvider | K8sProvider K8sSandboxProvider

definition choose_provider :: "KubeLib \<Rightarrow> string \<Rightarrow> Config \<Rightarrow> (string \<times> go_error) + provider_choice" where
  "choose_provider K kubeconfig cfg =
     (if pc_Mode (cfg_Pool cfg) = ''k8s''
      then case kube_client K kubeconfig of
             Some e \<Rightarrow> Inl e
           | None \<Rightarrow> Inr (K8sProvider (main_k8s cfg))
      else Inr (MockProvider (NewMockSandboxProvider (pc_MockTarget (cfg_Pool cfg)))))"

subsection \<open>The router\<close>

record RouterProgram =
  rp_config :: Config
  rp_shutdown :: Shutdown
  rp_metrics :: PoolMetrics
  rp_provider :: provider_choice
  rp_gc :: "int \<times> int"
  rp_warm :: "(int \<times> int) option"
  rp_temporal :: bool
  rp_addr :: string

definition router_start :: "HostLib \<Rightarrow> Flags \<Rightarrow> Globals \<Rightarrow> RouterProgram program \<times> Globals" where
  "router_start H fl g =
     (case Load (hl_config H) (fl_config fl) of
        Inl err \<Rightarrow> (Exited ''failed to load config'' err, g)
      | Inr cfg \<Rightarrow>
     (case Setup (hl_otel H) (setup_config [] cfg) g of
        (Inl err, g1) \<Rightarrow> (Exited ''failed to setup telemetry'' err, g1)
      | (Inr sd, g1) \<Rightarrow>
     (case NewPoolMetrics (hl_meter H) of
        Inl err \<Rightarrow> (Exited ''failed to create pool metrics'' err, g1)
      | Inr m \<Rightarrow>
     (case choose_provider (hl_kube H) (fl_kubeconfig fl) cfg of
        Inl (msg, err) \<Rightarrow> (Exited msg err, g1)
      | Inr p \<Rightarrow>
     (let pc = cfg_Pool cfg; tc = cfg_Temporal cfg
      in (Running \<lparr>rp_config = cfg, rp_shutdown = sd, rp_metrics = m, rp_provider = p,
            rp_gc = (pc_GCInterval pc, pc_IdleTimeout pc),
            rp_warm = (if main_warm cfg then Some (pc_MinReady pc, pc_GCInterval pc) else None),
            rp_temporal = (hl_Dial H (tc_HostPort tc) (tc_Namespace tc) = None),
            rp_addr = rc_ListenAddr (cfg_Router cfg)\<rparr>, g1))))))"

text \<open>How a running program ends: a signal, or an error of the goroutine that serves.\<close>

datatype end_event = GotSignal | ServeError go_error

definition log_error :: "string \<Rightarrow> go_error option \<Rightarrow> (string \<times> go_error) list" where
  "log_error msg e = (case e of Some err \<Rightarrow> [(msg, err)] | None \<Rightarrow> [])"

text \<open>The exit code, the errors logged, and the state; \<open>srv\<close> is the error of \<^verbatim>\<open>srv.Shutdown\<close>.\<close>

fun router_end :: "OtelLib \<Rightarrow> go_error option \<Rightarrow> end_event \<Rightarrow> RouterProgram \<Rightarrow> Globals \<Rightarrow> nat \<times> (string \<times> go_error) list \<times> Globals" where
  "router_end L srv (ServeError err) prog g = (1, [(''http server error'', err)], g)"
| "router_end L srv GotSignal prog g =
     (case run_shutdown L (rp_shutdown prog) g of (e, g') \<Rightarrow>
        (0, log_error ''http server shutdown error'' srv @ log_error ''telemetry shutdown error'' e, g'))"

subsection \<open>The worker\<close>

record WorkerProgram =
  wp_config :: Config
  wp_shutdown :: Shutdown
  wp_metrics :: PoolMetrics
  wp_wfMetrics :: WorkflowMetrics
  wp_provider :: provider_choice
  wp_taskQueue :: string

definition worker_start :: "HostLib \<Rightarrow> Flags \<Rightarrow> Globals \<Rightarrow> WorkerProgram program \<times> Globals" where
  "worker_start H fl g =
     (case Load (hl_config H) (fl_config fl) of
        Inl err \<Rightarrow> (Exited ''failed to load config'' err, g)
      | Inr cfg \<Rightarrow>
     (case Setup (hl_otel H) (setup_config ''-worker'' cfg) g of
        (Inl err, g1) \<Rightarrow> (Exited ''failed to setup telemetry'' err, g1)
      | (Inr sd, g1) \<Rightarrow>
     (case NewPoolMetrics (hl_meter H) of
        Inl err \<Rightarrow> (Exited ''failed to create pool metrics'' err, g1)
      | Inr m \<Rightarrow>
     (case choose_provider (hl_kube H) (fl_kubeconfig fl) cfg of
        Inl (msg, err) \<Rightarrow> (Exited msg err, g1)
      | Inr p \<Rightarrow>
     (case NewWorkflowMetrics (hl_meter H) of
        Inl err \<Rightarrow> (Exited ''failed to create workflow metrics'' err, g1)
      | Inr wm \<Rightarrow>
     (case hl_Dial H (tc_HostPort (cfg_Temporal cfg)) (tc_Namespace (cfg_Temporal cfg)) of
        Some err \<Rightarrow> (Exited ''failed to create temporal client'' err, g1)
      | None \<Rightarrow>
          (Running \<lparr>wp_config = cfg, wp_shutdown = sd, wp_metrics = m, wp_wfMetrics = wm, wp_provider = p,
             wp_taskQueue = tc_TaskQueue (cfg_Temporal cfg)\<rparr>, g1)))))))"

fun worker_end :: "OtelLib \<Rightarrow> end_event \<Rightarrow> WorkerProgram \<Rightarrow> Globals \<Rightarrow> nat \<times> (string \<times> go_error) list \<times> Globals" where
  "worker_end L (ServeError err) prog g = (1, [(''temporal worker error'', err)], g)"
| "worker_end L GotSignal prog g =
     (case run_shutdown L (wp_shutdown prog) g of (e, g') \<Rightarrow> (0, log_error ''telemetry shutdown error'' e, g'))"

subsection \<open>The controller\<close>

record ControllerProgram =
  cp_shutdown :: Shutdown
  cp_reconciler :: SandboxReconciler

definition controller_start :: "HostLib \<Rightarrow> Flags \<Rightarrow> Globals \<Rightarrow> ControllerProgram program \<times> Globals" where
  "controller_start H fl g =
     (case Load (hl_config H) (fl_config fl) of
        Inl err \<Rightarrow> (Exited ''failed to load config'' err, g)
      | Inr cfg \<Rightarrow>
     (case Setup (hl_otel H) (setup_config ''-controller'' cfg) g of
        (Inl err, g1) \<Rightarrow> (Exited ''failed to setup telemetry'' err, g1)
      | (Inr sd, g1) \<Rightarrow>
     (case kube_client (hl_kube H) (fl_kubeconfig fl) of
        Some (msg, err) \<Rightarrow> (Exited msg err, g1)
      | None \<Rightarrow> (Running \<lparr>cp_shutdown = sd, cp_reconciler = controller_main cfg\<rparr>, g1))))"

text \<open>\<open>err\<close> is what \<^verbatim>\<open>reconciler.Start\<close> returned, after a signal or by itself.\<close>

definition controller_end :: "OtelLib \<Rightarrow> go_error option \<Rightarrow> ControllerProgram \<Rightarrow> Globals \<Rightarrow> nat \<times> (string \<times> go_error) list \<times> Globals" where
  "controller_end L err prog g =
     (case run_shutdown L (cp_shutdown prog) g of (e, g') \<Rightarrow>
        (0, log_error ''controller error'' err @ log_error ''telemetry shutdown error'' e, g'))"

subsection \<open>What a program needs\<close>

definition telemetry_available :: "OtelLib \<Rightarrow> Config \<Rightarrow> bool" where
  "telemetry_available L cfg \<longleftrightarrow>
     (lc_OTelEndpoint (cfg_Telemetry cfg) = [] \<or> ol_otlp L (lc_OTelEndpoint (cfg_Telemetry cfg)) = None) \<and> ol_prometheus L = None"

definition kube_available :: "KubeLib \<Rightarrow> string \<Rightarrow> bool" where
  "kube_available K kubeconfig \<longleftrightarrow>
     (if kubeconfig \<noteq> [] then kb_BuildConfigFromFlags K kubeconfig = None else kb_InClusterConfig K = None) \<and> kb_NewForConfig K = None"

definition pool_instruments :: "string list" where
  "pool_instruments = [''opencode_scale_pool_size'', ''opencode_scale_allocated_count'', ''opencode_scale_wait_queue_length'',
     ''opencode_scale_allocation_latency'']"

definition workflow_instruments :: "string list" where
  "workflow_instruments = [''opencode_scale_task_duration'', ''opencode_scale_task_status'', ''opencode_scale_llm_tokens_total'']"

definition sample_host :: HostLib where
  "sample_host = \<lparr>hl_config = \<lparr>ce_ReadFile = (\<lambda>_. Inr []), ce_yaml = (\<lambda>_ c. Inr c), ce_Getenv = (\<lambda>_. []), ce_frac = (\<lambda>f k u. 0)\<rparr>,
     hl_otel = sample_otel, hl_meter = (\<lambda>_. None),
     hl_kube = \<lparr>kb_BuildConfigFromFlags = (\<lambda>_. None), kb_InClusterConfig = Some (Errorf ''no cluster''), kb_NewForConfig = None\<rparr>,
     hl_Dial = (\<lambda>_ _. Some (Errorf ''refused''))\<rparr>"

definition sample_flags :: Flags where
  "sample_flags = \<lparr>fl_config = ''config.yaml'', fl_kubeconfig = []\<rparr>"

section \<open>Lemmas\<close>

lemma kube_client_iff: "kube_client K f = None \<longleftrightarrow> kube_available K f"
  by (simp add: kube_client_def kube_available_def split: option.split)

lemma NewPoolMetrics_iff: "(\<exists>m. NewPoolMetrics meter = Inr m) \<longleftrightarrow> (\<forall>n \<in> set pool_instruments. meter n = None)"
  by (simp add: NewPoolMetrics_def pool_instruments_def split: option.split)

lemma NewWorkflowMetrics_iff: "(\<exists>m. NewWorkflowMetrics meter = Inr m) \<longleftrightarrow> (\<forall>n \<in> set workflow_instruments. meter n = None)"
  by (simp add: NewWorkflowMetrics_def workflow_instruments_def split: option.split)

lemma Setup_available: "(\<exists>sd. fst (Setup L (setup_config sfx cfg) g) = Inr sd) \<longleftrightarrow> telemetry_available L cfg"
  by (simp add: Setup_succeeds telemetry_available_def setup_config_def Let_def)

lemma choose_provider_iff:
  "(\<exists>p. choose_provider K f cfg = Inr p) \<longleftrightarrow> (pc_Mode (cfg_Pool cfg) = ''k8s'' \<longrightarrow> kube_available K f)"
  by (simp add: choose_provider_def kube_client_iff [symmetric] split: option.split)

lemma Load_valid: "Load E path = Inr cfg \<Longrightarrow> 1 \<le> pc_MaxSize (cfg_Pool cfg)"
  by (auto simp: Load_def Config_Validate_def Let_def split: sum.splits option.splits if_splits)

lemma router_start_Running:
  assumes "router_start H fl g = (Running prog, g')"
  shows "Load (hl_config H) (fl_config fl) = Inr (rp_config prog)"
    "Setup (hl_otel H) (setup_config [] (rp_config prog)) g = (Inr (rp_shutdown prog), g')"
    "NewPoolMetrics (hl_meter H) = Inr (rp_metrics prog)"
    "choose_provider (hl_kube H) (fl_kubeconfig fl) (rp_config prog) = Inr (rp_provider prog)"
  using assms by (auto simp: router_start_def Let_def split: sum.splits prod.splits)

lemma worker_start_Running:
  assumes "worker_start H fl g = (Running prog, g')"
  shows "Setup (hl_otel H) (setup_config ''-worker'' (wp_config prog)) g = (Inr (wp_shutdown prog), g')"
  using assms by (auto simp: worker_start_def split: sum.splits prod.splits option.splits)

lemma controller_start_Running:
  assumes "controller_start H fl g = (Running prog, g')"
  shows "\<exists>cfg. Setup (hl_otel H) (setup_config ''-controller'' cfg) g = (Inr (cp_shutdown prog), g')"
  using assms by (auto simp: controller_start_def split: sum.splits prod.splits option.splits)


lemma router_starts_iff:
  "(\<exists>prog. fst (router_start H fl g) = Running prog) \<longleftrightarrow>
     (\<exists>cfg. Load (hl_config H) (fl_config fl) = Inr cfg \<and> telemetry_available (hl_otel H) cfg \<and>
        (\<exists>m. NewPoolMetrics (hl_meter H) = Inr m) \<and> (\<exists>p. choose_provider (hl_kube H) (fl_kubeconfig fl) cfg = Inr p))"
  unfolding Setup_available [of _ "[]" _ g, symmetric]
  by (auto simp: router_start_def Let_def split: sum.split prod.split)

lemma worker_starts_iff:
  "(\<exists>prog. fst (worker_start H fl g) = Running prog) \<longleftrightarrow>
     (\<exists>cfg. Load (hl_config H) (fl_config fl) = Inr cfg \<and> telemetry_available (hl_otel H) cfg \<and>
        (\<exists>m. NewPoolMetrics (hl_meter H) = Inr m) \<and> (\<exists>p. choose_provider (hl_kube H) (fl_kubeconfig fl) cfg = Inr p) \<and>
        (\<exists>m. NewWorkflowMetrics (hl_meter H) = Inr m) \<and>
        hl_Dial H (tc_HostPort (cfg_Temporal cfg)) (tc_Namespace (cfg_Temporal cfg)) = None)"
  unfolding Setup_available [of _ "''-worker''" _ g, symmetric]
  by (auto simp: worker_start_def split: sum.split prod.split option.split)

lemma controller_starts_iff:
  "(\<exists>prog. fst (controller_start H fl g) = Running prog) \<longleftrightarrow>
     (\<exists>cfg. Load (hl_config H) (fl_config fl) = Inr cfg \<and> telemetry_available (hl_otel H) cfg \<and>
        kube_client (hl_kube H) (fl_kubeconfig fl) = None)"
  unfolding Setup_available [of _ "''-controller''" _ g, symmetric]
  by (auto simp: controller_start_def split: sum.split prod.split option.split)

lemma sample_Load: "Load (hl_config sample_host) (fl_config sample_flags) = Inr DefaultConfig"
  by code_simp

lemma sample_router_starts: "\<exists>prog g'. router_start sample_host sample_flags no_globals = (Running prog, g')"
  using router_starts_iff [of sample_host sample_flags no_globals]
  unfolding sample_Load NewPoolMetrics_iff choose_provider_iff
  by (cases "router_start sample_host sample_flags no_globals")
    (auto simp: telemetry_available_def sample_host_def sample_otel_def DefaultConfig_def)

section \<open>Properties\<close>

text \<open>C39: What each program needs in order to run.  All need a valid configuration and telemetry.  The router needs the
  instruments of the pool, and a Kubernetes client in k8s mode only; it runs without a Temporal server.  The worker
  needs the instruments of pool and workflow and a Temporal server too.  The controller always needs a
  Kubernetes client.  Nothing else stops them.\<close>

theorem programs_start_exactly:
  "((\<exists>prog. fst (router_start H fl g) = Running prog) \<longleftrightarrow>
      (\<exists>cfg. Load (hl_config H) (fl_config fl) = Inr cfg \<and> telemetry_available (hl_otel H) cfg \<and>
         (\<forall>n \<in> set pool_instruments. hl_meter H n = None) \<and>
         (pc_Mode (cfg_Pool cfg) = ''k8s'' \<longrightarrow> kube_available (hl_kube H) (fl_kubeconfig fl)))) \<and>
   ((\<exists>prog. fst (worker_start H fl g) = Running prog) \<longleftrightarrow>
      (\<exists>cfg. Load (hl_config H) (fl_config fl) = Inr cfg \<and> telemetry_available (hl_otel H) cfg \<and>
         (\<forall>n \<in> set pool_instruments \<union> set workflow_instruments. hl_meter H n = None) \<and>
         (pc_Mode (cfg_Pool cfg) = ''k8s'' \<longrightarrow> kube_available (hl_kube H) (fl_kubeconfig fl)) \<and>
         hl_Dial H (tc_HostPort (cfg_Temporal cfg)) (tc_Namespace (cfg_Temporal cfg)) = None)) \<and>
   ((\<exists>prog. fst (controller_start H fl g) = Running prog) \<longleftrightarrow>
      (\<exists>cfg. Load (hl_config H) (fl_config fl) = Inr cfg \<and> telemetry_available (hl_otel H) cfg \<and>
         kube_available (hl_kube H) (fl_kubeconfig fl)))"
  unfolding router_starts_iff worker_starts_iff controller_starts_iff NewPoolMetrics_iff NewWorkflowMetrics_iff
    choose_provider_iff kube_client_iff
  by (intro conjI) blast+

theorem programs_start_exactly_witness:
  "(\<exists>prog. fst (router_start sample_host sample_flags no_globals) = Running prog) \<and>
   \<not> (\<exists>prog. fst (worker_start sample_host sample_flags no_globals) = Running prog) \<and>
   \<not> (\<exists>prog. fst (controller_start sample_host sample_flags no_globals) = Running prog)"
proof -
  have "telemetry_available (hl_otel sample_host) DefaultConfig" "\<not> kube_available (hl_kube sample_host) (fl_kubeconfig sample_flags)"
    "pc_Mode (cfg_Pool DefaultConfig) \<noteq> ''k8s''" "hl_meter sample_host n = None" "hl_Dial sample_host a b \<noteq> None" for n a b
    by (simp_all add: telemetry_available_def kube_available_def sample_host_def sample_flags_def sample_otel_def DefaultConfig_def)
  with programs_start_exactly [of sample_host sample_flags no_globals] sample_Load show ?thesis by simp
qed

text \<open>C40: A program that ends on a signal exits with code 0 and has stopped every telemetry provider it started, also when
  stopping the server or one of the providers fails, and logs the error of the telemetry if there is one.
  A router or worker that ends because it cannot serve exits with code 1 and leaves its providers running:
  what they have buffered is not exported.\<close>

theorem programs_end:
  "(router_start H fl g = (Running rp, gr) \<longrightarrow>
      (\<exists>logs g'. router_end (hl_otel H) srv GotSignal rp gr = (0, logs, g') \<and> mset (gl_running g') = mset (gl_running g) \<and>
         (srv = None \<and> fst (run_shutdown (hl_otel H) (rp_shutdown rp) gr) = None \<longleftrightarrow> logs = [])) \<and>
      (\<exists>tp mp. router_end (hl_otel H) srv (ServeError err) rp gr = (1, [(''http server error'', err)], gr) \<and>
         gl_running gr = gl_running g @ [Tracer tp, Meter mp])) \<and>
   (worker_start H fl g = (Running wp, gw) \<longrightarrow>
      (\<exists>logs g'. worker_end (hl_otel H) GotSignal wp gw = (0, logs, g') \<and> mset (gl_running g') = mset (gl_running g) \<and>
         (fst (run_shutdown (hl_otel H) (wp_shutdown wp) gw) = None \<longleftrightarrow> logs = [])) \<and>
      (\<exists>tp mp. worker_end (hl_otel H) (ServeError err) wp gw = (1, [(''temporal worker error'', err)], gw) \<and>
         gl_running gw = gl_running g @ [Tracer tp, Meter mp])) \<and>
   (controller_start H fl g = (Running cp, gc) \<longrightarrow>
      (\<exists>logs g'. controller_end (hl_otel H) srv cp gc = (0, logs, g') \<and> mset (gl_running g') = mset (gl_running g)))"
proof (intro conjI impI)
  assume "router_start H fl g = (Running rp, gr)"
  note r = Setup_ok(1) [OF router_start_Running(2) [OF this]]
  show "\<exists>logs g'. router_end (hl_otel H) srv GotSignal rp gr = (0, logs, g') \<and> mset (gl_running g') = mset (gl_running g) \<and>
      (srv = None \<and> fst (run_shutdown (hl_otel H) (rp_shutdown rp) gr) = None \<longleftrightarrow> logs = [])"
    using mset_shutdown [OF r, of "hl_otel H"]
    by (cases "run_shutdown (hl_otel H) (rp_shutdown rp) gr") (auto simp: log_error_def split: option.splits)
  show "\<exists>tp mp. router_end (hl_otel H) srv (ServeError err) rp gr = (1, [(''http server error'', err)], gr) \<and>
      gl_running gr = gl_running g @ [Tracer tp, Meter mp]" using r by auto
next
  assume "worker_start H fl g = (Running wp, gw)"
  note r = Setup_ok(1) [OF worker_start_Running [OF this]]
  show "\<exists>logs g'. worker_end (hl_otel H) GotSignal wp gw = (0, logs, g') \<and> mset (gl_running g') = mset (gl_running g) \<and>
      (fst (run_shutdown (hl_otel H) (wp_shutdown wp) gw) = None \<longleftrightarrow> logs = [])"
    using mset_shutdown [OF r, of "hl_otel H"]
    by (cases "run_shutdown (hl_otel H) (wp_shutdown wp) gw") (auto simp: log_error_def split: option.splits)
  show "\<exists>tp mp. worker_end (hl_otel H) (ServeError err) wp gw = (1, [(''temporal worker error'', err)], gw) \<and>
      gl_running gw = gl_running g @ [Tracer tp, Meter mp]" using r by auto
next
  assume "controller_start H fl g = (Running cp, gc)"
  from controller_start_Running [OF this] obtain cfg where
    "Setup (hl_otel H) (setup_config ''-controller'' cfg) g = (Inr (cp_shutdown cp), gc)" ..
  from mset_shutdown [OF Setup_ok(1) [OF this], of "hl_otel H"]
  show "\<exists>logs g'. controller_end (hl_otel H) srv cp gc = (0, logs, g') \<and> mset (gl_running g') = mset (gl_running g)"
    by (cases "run_shutdown (hl_otel H) (cp_shutdown cp) gc") (auto simp: controller_end_def)
qed

theorem programs_end_witness:
  "\<exists>prog gr g'. router_start sample_host sample_flags no_globals = (Running prog, gr) \<and>
     (\<exists>logs. router_end (hl_otel sample_host) None GotSignal prog gr = (0, logs, g') \<and> logs \<noteq> []) \<and> gl_running g' = []"
proof -
  obtain prog gr where s: "router_start sample_host sample_flags no_globals = (Running prog, gr)"
    using sample_router_starts by blast
  have f: "fst (run_shutdown (hl_otel sample_host) (rp_shutdown prog) gr) \<noteq> None"
    by (simp add: run_shutdown_def sample_host_def sample_otel_def Let_def)
  from programs_end [of sample_host sample_flags no_globals prog gr None] s f show ?thesis
    by (fastforce simp: no_globals_def)
qed

end
