(* ===== verification/Server_Runs.thy ===== *)
theory Server_Runs
  imports Programs
begin

text \<open>
  Runs of a started router: the requests it serves and the ticks of its background loops, one after another.

  \<open>server_run\<close> puts together what \<open>Programs\<close> starts, the handler of \<open>Router_Server\<close> and the loops of \<open>Pool_Manager\<close>.  Requests
  that overlap are the subject of \<open>Pool_Concurrency\<close>.
\<close>

section \<open>Definitions\<close>

text \<open>The state in which a router in local mode starts to serve; \<open>t\<close> is the state of the Temporal server.\<close>

definition initial_server :: "RouterProgram \<Rightarrow> 'w \<Rightarrow> (MockSandboxProvider, 'w) ServerState" where
  "initial_server prog t = \<lparr>sv_router = NewRouter (main_pool_mock (rp_config prog) (rp_metrics prog)), sv_temporal = t\<rparr>"

abbreviation server_pool :: "('p, 'w) ServerState \<Rightarrow> 'p PoolManager" where
  "server_pool s \<equiv> rs_pool (sv_router s)"

definition on_pool :: "('p PoolManager \<Rightarrow> 'p PoolManager) \<Rightarrow> ('p, 'w) ServerState \<Rightarrow> ('p, 'w) ServerState" where
  "on_pool f s = s\<lparr>sv_router := (sv_router s)\<lparr>rs_pool := f (server_pool s)\<rparr>\<rparr>"

text \<open>\<open>server_run B prog s0 k s log\<close>: \<open>k\<close> requests and any number of ticks lead from \<open>s0\<close> to \<open>s\<close> and leave the audit log
  \<open>log\<close>.  The Temporal server changes by itself.  UUIDs are fresh.\<close>

inductive server_run ::
  "('p, 'w) Backends \<Rightarrow> RouterProgram \<Rightarrow> ('p, 'w) ServerState \<Rightarrow> nat \<Rightarrow> ('p, 'w) ServerState \<Rightarrow> AuditEntry list \<Rightarrow> bool"
  for B prog s0 where
  run_start: "server_run B prog s0 0 s0 []"
| run_request: "server_run B prog s0 k s log \<Longrightarrow> range_order (re_ord (se_request e)) \<Longrightarrow>
    env_fresh (re_call (se_request e)) (store (server_pool s)) \<Longrightarrow>
    main_handler B (rp_config prog) e r (w, s, log) = (w', s', log') \<Longrightarrow> server_run B prog s0 (Suc k) s' log'"
| run_gc: "server_run B prog s0 k s log \<Longrightarrow>
    server_run B prog s0 k (on_pool (RunGC (be_provider B) ord now (snd (rp_gc prog))) s) log"
| run_temporal: "server_run B prog s0 k s log \<Longrightarrow> server_run B prog s0 k (s\<lparr>sv_temporal := t\<rparr>) log"

section \<open>Lemmas\<close>

text \<open>A request leaves the pool alone or allocates from it once.\<close>

definition pool_effect :: "'p SandboxProvider \<Rightarrow> RequestEnv \<Rightarrow> 'p PoolManager \<Rightarrow> 'p PoolManager \<Rightarrow> bool" where
  "pool_effect P e pm pm' \<longleftrightarrow> pm' = pm \<or> (\<exists>u. pm' = snd (Allocate P (re_ord e) (re_call e) u pm))"

lemma pool_effect_refl [simp]: "pool_effect P e pm pm"
  by (simp add: pool_effect_def)

lemma Forward_pool [simp]: "rs_pool (snd (Forward net h req (w, S))) = rs_pool S"
  by (simp add: Forward_def split: prod.split)

lemma Router_pool_effect: "pool_effect P e (rs_pool S) (rs_pool (snd (Router_ServeHTTP P net q ext e req (w, S))))"
proof -
  have "pool_effect P e (rs_pool S) (rs_pool (snd (handleAllocateAndProxy P net q ext e u req (w, S))))" for u
    by (cases "Allocate P (re_ord e) (re_call e) u (rs_pool S)")
      (auto simp: handleAllocateAndProxy_def pool_effect_def Let_def split: sum.split prod.split, (metis snd_conv)+)
  then show ?thesis by (simp add: Router_ServeHTTP_def Let_def split: option.split)
qed

lemma mux_pool_effect: "pool_effect (be_provider B) (se_request e) (server_pool s) (server_pool (snd (main_mux B cfg e r (w, s))))"
proof -
  have 1: "pool_effect (be_provider B) (se_request e) (server_pool s)
      (server_pool (snd (on_router (Router_ServeHTTP (be_provider B) n q x (se_request e)) r (w, s))))" for n q x
    using Router_pool_effect [of "be_provider B" "se_request e" "sv_router s" n q x r w] by (auto simp: on_router_def split: prod.split)
  have 2: "server_pool (snd (on_router (health_handler T) r (w, s))) = server_pool s" for T
    by (simp add: on_router_def health_handler_def Let_def)
  have 3: "server_pool (snd (on_temporal h r (w, s))) = server_pool s" for h by (simp add: on_temporal_def split: prod.split)
  show ?thesis using 1 2 3 by (simp add: main_mux_def Let_def)
qed

lemma handler_pool_effect:
  assumes "main_handler B cfg e r (w, s, log) = (w', s', log')"
  shows "pool_effect (be_provider B) (se_request e) (server_pool s) (server_pool s')" "length log' = Suc (length log)"
proof -
  have "pool_effect (be_provider B) (se_request e) (server_pool s) (server_pool (snd (main_guarded B cfg e r (w1, s))))" for w1
    using mux_pool_effect by (auto simp: main_guarded_def APIKeyAuth_def MaxBodySize_def Let_def split: option.split)
  then show "pool_effect (be_provider B) (se_request e) (server_pool s) (server_pool s')" "length log' = Suc (length log)"
    using assms by (auto simp: main_handler_def AuditLog_def split: prod.splits) (metis snd_conv)
qed

lemma server_run_trace:
  "server_run B prog s0 k s log \<Longrightarrow>
     length log = k \<and> (\<exists>j \<le> k. pool_trace (be_provider B) (server_pool s0) j (server_pool s))"
proof (induction rule: server_run.induct)
  case run_start
  then show ?case by (auto intro: trace_new)
next
  case (run_request k s log e r w w' s' log')
  then obtain j where j: "j \<le> k" "pool_trace (be_provider B) (server_pool s0) j (server_pool s)" by blast
  note h = handler_pool_effect [OF run_request(4)]
  have "\<exists>j \<le> Suc k. pool_trace (be_provider B) (server_pool s0) j (server_pool s')"
    using h(1) j trace_allocate [OF j(2) run_request(2,3)] unfolding pool_effect_def by (metis Suc_le_mono le_SucI)
  with h(2) run_request.IH show ?case by simp
next
  case (run_gc k s log ord now)
  then show ?case by (auto simp: on_pool_def intro: trace_gc)
qed simp

subsection \<open>The wait queue only grows\<close>

abbreviation server_queue :: "('p, 'w) ServerState \<Rightarrow> WaitQueue" where
  "server_queue s \<equiv> rs_queue (sv_router s)"

text \<open>\<open>queue_kept Q Q'\<close>: every entry of \<open>Q\<close> is in \<open>Q'\<close>, at its place and as it was.\<close>

definition queue_kept :: "WaitQueue \<Rightarrow> WaitQueue \<Rightarrow> bool" where
  "queue_kept Q Q' \<longleftrightarrow> (\<exists>new. entries Q' = entries Q @ new) \<and> next_entry Q \<le> next_entry Q' \<and>
     (\<forall>n < next_entry Q. entry_at Q' n = entry_at Q n)"

lemma queue_kept_refl [simp]: "queue_kept Q Q"
  by (simp add: queue_kept_def)

lemma queue_kept_trans: "queue_kept Q1 Q2 \<Longrightarrow> queue_kept Q2 Q3 \<Longrightarrow> queue_kept Q1 Q3"
  by (force simp: queue_kept_def)

lemma queue_kept_Enqueue [simp]: "queue_kept Q (snd (Enqueue now u Q))"
  by (simp add: queue_kept_def Enqueue_def Let_def)

lemma Forward_queue [simp]: "rs_queue (snd (Forward net h req (w, S))) = rs_queue S"
  by (simp add: Forward_def split: prod.split)

lemma Router_queue: "queue_kept (rs_queue S) (rs_queue (snd (Router_ServeHTTP P net q ext e req (w, S))))"
proof -
  have "queue_kept (rs_queue S) (rs_queue (snd (handleAllocateAndProxy P net q ext e u req (w, S))))" for u
    by (cases "Allocate P (re_ord e) (re_call e) u (rs_pool S)")
      (auto simp: handleAllocateAndProxy_def Let_def split: sum.split prod.split, metis queue_kept_Enqueue snd_conv)
  then show ?thesis by (simp add: Router_ServeHTTP_def Let_def split: option.split)
qed

lemma mux_queue: "queue_kept (server_queue s) (server_queue (snd (main_mux B cfg e r (w, s))))"
proof -
  have 1: "queue_kept (server_queue s) (server_queue (snd (on_router (Router_ServeHTTP P n q x re) r (w, s))))" for P n q x re
    using Router_queue [of "sv_router s" P n q x re r w] by (auto simp: on_router_def split: prod.split)
  have 2: "server_queue (snd (on_router (health_handler T) r (w, s))) = server_queue s" for T
    by (simp add: on_router_def health_handler_def Let_def)
  have 3: "server_queue (snd (on_temporal h r (w, s))) = server_queue s" for h by (simp add: on_temporal_def split: prod.split)
  show ?thesis using 1 2 3 by (simp add: main_mux_def Let_def)
qed

lemma handler_queue:
  assumes "main_handler B cfg e r (w, s, log) = (w', s', log')"
  shows "queue_kept (server_queue s) (server_queue s')"
proof -
  have "queue_kept (server_queue s) (server_queue (snd (main_guarded B cfg e r (w1, s))))" for w1
    using mux_queue by (auto simp: main_guarded_def APIKeyAuth_def MaxBodySize_def Let_def split: option.split)
  then show ?thesis using assms by (auto simp: main_handler_def AuditLog_def split: prod.splits) (metis snd_conv)
qed

lemma server_run_queue: "server_run B prog s0 k s log \<Longrightarrow> queue_kept (server_queue s0) (server_queue s)"
proof (induction rule: server_run.induct)
  case (run_request k s log e r w w' s' log')
  then show ?case using handler_queue queue_kept_trans by blast
qed (simp_all add: on_pool_def)

section \<open>Properties\<close>



text \<open>C21: A client that finds the pool exhausted does not get to wait: through the router's own handler, an admitted request
  to the session endpoints that names no known session and for which the pool is exhausted is appended to the wait
  queue and answered 500 \<^verbatim>\<open>streaming not supported\<close> at once, because the writer of the audit log cannot flush; nothing
  is sent to a backend. Its entry is never served and never removed: after any further requests and ticks of the
  collector it is still queued, at the same place, with no allocation delivered to it.\<close>

theorem exhausted_request_abandoned:
  assumes "admitted cfg r" "to_router B r" "cfg = rp_config prog" "wr_status (underlying w) = None"
    and "session_view (store (server_pool s)) (extractSessionID r (main_extractor cfg)) = None"
    and "Allocate (be_provider B) (re_ord (se_request e)) (re_call (se_request e)) (extractUserID r) (server_pool s) =
      (Inl ErrPoolExhausted, pm)"
    and "main_handler B cfg e r (w, s, log) = (w1, s1, log1)" and "server_run B prog s1 k s2 log2"
  shows "client_status w1 = 500 \<and> wr_body (underlying w1) = wr_body (underlying w) @ [''streaming not supported'' @ newline] \<and>
    server_pool s1 = pm \<and> rs_sent (sv_router s1) = rs_sent (sv_router s) \<and>
    (\<exists>n later. entries (server_queue s1) = entries (server_queue s) @ [n] \<and>
       entries (server_queue s2) = entries (server_queue s) @ n # later \<and>
       we_UserID (entry_at (server_queue s2) n) = extractUserID r \<and> we_Ready (entry_at (server_queue s2) n) = [])"
proof -
  let ?sw = "StatusWriter w 200 False" and ?S = "sv_router s" and ?n = "next_entry (server_queue s)"
  let ?Q = "snd (Enqueue (re_now (se_request e)) (extractUserID r) (server_queue s))"
  let ?err = "http_Error ''streaming not supported'' 500 ?sw"
  have "Router_ServeHTTP (be_provider B) (be_net B) (be_quote B) (main_extractor cfg) (se_request e) (limited cfg r) (?sw, ?S) =
      (?err, ?S\<lparr>rs_pool := pm, rs_queue := ?Q\<rparr>)"
    using Router_unknown [of ?S "limited cfg r" "main_extractor cfg" "be_provider B" "be_net B" "be_quote B" "se_request e" ?sw]
      slow_path_exhausted [OF assms(6), of "be_net B" "be_quote B" "main_extractor cfg" "limited cfg r" ?sw] assms(5)
    by (simp add: WriteSSEQueuePosition_def)
  then have "main_mux B cfg e (limited cfg r) (?sw, s) = (?err, s\<lparr>sv_router := ?S\<lparr>rs_pool := pm, rs_queue := ?Q\<rparr>\<rparr>)"
    by (simp add: mux_to_router [OF assms(2)] on_router_def)
  from handler_admitted [OF assms(1) this, of log] assms(7)
  have w1: "w1 = Unwrap ?err" and s1: "s1 = s\<lparr>sv_router := ?S\<lparr>rs_pool := pm, rs_queue := ?Q\<rparr>\<rparr>" by auto
  have st: "client_status w1 = 500" "wr_body (underlying w1) = wr_body (underlying w) @ [''streaming not supported'' @ newline]"
    using http_Error_status [of ?sw 500] http_Error_body [of _ _ ?sw] assms(4) by (simp_all add: w1 client_status_def)
  have q1: "entries (server_queue s1) = entries (server_queue s) @ [?n]" "?n < next_entry (server_queue s1)"
    "we_UserID (entry_at (server_queue s1) ?n) = extractUserID r" "we_Ready (entry_at (server_queue s1) ?n) = []"
    by (simp_all add: s1 Enqueue_def Let_def)
  from server_run_queue [OF assms(8)] obtain later where
    q2: "entries (server_queue s2) = entries (server_queue s1) @ later" "entry_at (server_queue s2) ?n = entry_at (server_queue s1) ?n"
    using q1(2) by (auto simp: queue_kept_def)
  have "entries (server_queue s2) = entries (server_queue s) @ ?n # later" using q1(1) q2(1) by simp
  with st q1 q2(2) show ?thesis by (intro conjI exI [of _ ?n] exI [of _ later]) (simp_all add: s1)
qed

theorem exhausted_request_abandoned_witness:
  "\<exists>prog g' w1 s1 log1. router_start sample_host sample_flags no_globals = (Running prog, g') \<and>
     main_handler sample_backends (rp_config prog) sample_senv (session_request ''u9'') (new_writer, sample_sstate, []) = (w1, s1, log1) \<and>
     client_status w1 = 500 \<and> length (entries (server_queue s1)) = 1"
proof -
  obtain prog g' where st: "router_start sample_host sample_flags no_globals = (Running prog, g')"
    using sample_router_starts by blast
  have cfg: "rp_config prog = DefaultConfig" using router_start_Running(1) [OF st] sample_Load by simp
  let ?r = "session_request ''u9''"
  obtain w1 s1 log1 where h: "main_handler sample_backends (rp_config prog) sample_senv ?r (new_writer, sample_sstate, []) = (w1, s1, log1)"
    by (rule prod_cases3)
  have a: "admitted (rp_config prog) ?r" by (simp add: admitted_def cfg DefaultConfig_def)
  have "cleanPath (req_Path ?r) = req_Path ?r" "HasPrefix (req_Path ?r) ''/api/v1/''" "\<not> HasPrefix (req_Path ?r) ''/api/v1/tasks/''"
    by (simp_all only: session_request_def) code_simp+
  then have t: "to_router sample_backends ?r" by (simp add: to_router_def session_request_def sample_request_def)
  have x: "main_extractor (rp_config prog) = sample_ext" by (simp add: main_extractor_def cfg DefaultConfig_def sample_ext_def)
  have none: "session_view (store (server_pool sample_sstate)) (extractSessionID ?r (main_extractor (rp_config prog))) = None"
    by (simp add: x session_request_id sample_sstate_def sample_router_pool shared_cache.put_session active_alloc_def sample_env_def)
  have full: "Allocate (be_provider sample_backends) (re_ord (se_request sample_senv)) (re_call (se_request sample_senv))
      (extractUserID ?r) (server_pool sample_sstate) = (Inl ErrPoolExhausted, rs_pool (sample_router 1))"
    using sample_router_full by (simp add: sample_backends_def sample_senv_def sample_renv_def sample_sstate_def)
  have w: "wr_status (underlying new_writer) = None" by (simp add: new_writer_def)
  have "entries (server_queue sample_sstate) = []" by (simp add: sample_sstate_def sample_router_def NewRouter_def NewWaitQueue_def)
  with exhausted_request_abandoned [OF a t refl w none full h run_start] st h show ?thesis by auto
qed

end
