(* ===== verification/Cluster.thy ===== *)
theory Cluster
  imports Programs
begin

text \<open>
  The router and the controller on one Kubernetes API server, both started from the same configuration.

  The world of the router's pool is the state of the API server, so a collection of the controller is a change of that
  world between two calls of the pool.  The theory shows what becomes of a sandbox that the pool holds when the
  controller collects.
\<close>

section \<open>Definitions\<close>

text \<open>A tick of the controller's collection loop while the pool is in the state \<open>pm\<close>.\<close>

definition controller_tick :: "'s ClaimAPI \<Rightarrow> int \<Rightarrow> 's PoolManager \<times> SandboxReconciler \<Rightarrow> 's PoolManager \<times> SandboxReconciler" where
  "controller_tick api now st =
     (case st of (pm, r) \<Rightarrow> case controller_step api (GCTick now) (provider pm, r) of (s', r') \<Rightarrow> (pm\<lparr>provider := s'\<rparr>, r'))"

text \<open>The provider of the router in k8s mode, and a poll that ends at the first failure, for examples.\<close>

definition router_k8s :: "'s ClaimAPI \<Rightarrow> 's poller \<Rightarrow> ('s \<Rightarrow> int) \<Rightarrow> Config \<Rightarrow> 's SandboxProvider" where
  "router_k8s api poll clock cfg = k8s_provider api poll clock (main_k8s cfg)"

definition sample_held :: "string \<Rightarrow> SandboxClaim list PoolManager" where
  "sample_held phase =
     (let pm = main_pool_k8s DefaultConfig [sample_claim ''oc-1'' phase 1] sample_pool_metrics
      in pm\<lparr>store := store_new (active_alloc (sample_env 1 ''u1'') ''alice'' ''oc-1'' ''oc-1.ns'') (store pm)\<rparr>)"

section \<open>Lemmas\<close>

lemma controller_main_fields [simp]:
  "rec_namespace (controller_main cfg) = pc_Namespace (cfg_Pool cfg)"
  "rec_gcTimeout (controller_main cfg) = pc_IdleTimeout (cfg_Pool cfg)"
  by (simp_all add: controller_main_def NewSandboxReconciler_def WithGCTimeout_def)

lemma router_k8s_delete:
  assumes "claim_store_ok api (pc_Namespace (cfg_Pool cfg)) claims"
  shows "fst (DeleteSandbox (router_k8s api poll clock cfg) n s) = None \<longleftrightarrow> n \<in> claim_name ` set (claims s)"
proof (cases "n \<in> claim_name ` set (claims s)")
  case True
  obtain s' where "api_delete api (pc_Namespace (cfg_Pool cfg)) n s = (None, s')"
    by (rule claim_store_delete [OF assms True])
  with True show ?thesis
    by (simp add: router_k8s_def k8s_provider_def K8s_DeleteSandbox_def main_k8s_def NewK8sSandboxProvider_def)
next
  case False
  with assms obtain e s' where "api_delete api (pc_Namespace (cfg_Pool cfg)) n s = (Some e, s')"
    unfolding claim_store_ok_def by blast
  with False show ?thesis
    by (simp add: router_k8s_def k8s_provider_def K8s_DeleteSandbox_def main_k8s_def NewK8sSandboxProvider_def)
qed

lemma controller_tick_effect:
  assumes "claim_store_ok api (rec_namespace r) claims" and "distinct (map claim_name (claims (provider pm)))"
    and "in_int64 (rec_gcTimeout r)" "rec_gcTimeout r \<noteq> - 9223372036854775808"
    and "controller_tick api now (pm, r) = (pm', r')"
  shows "store pm' = store pm" "maxSize pm' = maxSize pm"
    "claims (provider pm') = filter (\<lambda>c. \<not> orphaned (now - rec_gcTimeout r) c) (claims (provider pm))"
proof -
  obtain s' where l: "cleanupOrphaned api now (provider pm, r) = (s', r')" and pm': "pm' = pm\<lparr>provider := s'\<rparr>"
    using assms(5) by (auto simp: controller_tick_def split: prod.splits)
  show "store pm' = store pm" "maxSize pm' = maxSize pm" by (simp_all add: pm')
  show "claims (provider pm') = filter (\<lambda>c. \<not> orphaned (now - rec_gcTimeout r) c) (claims (provider pm))"
    using cleanup_claims [OF assms(1-4) l] by (simp add: pm')
qed

section \<open>Properties\<close>

text \<open>C35: What a collection of the controller does to a sandbox that the router's pool holds, both programs started from
  the same configuration.  If the claim of the sandbox has not failed or completed, or is younger than the idle
  timeout, the claim stays, and the pool can release the sandbox.  Otherwise the claim is
  deleted, the pool still has the sandbox, its session still leads to it, and the release that ends it
  fails, because the API server does not find the claim: the allocation is left as releasing, occupies its place
  in the pool, and no later collection of the pool removes it.\<close>

theorem controller_and_pool:
  assumes "claim_store_ok api (pc_Namespace (cfg_Pool cfg)) claims" and "distinct (map claim_name (claims (provider pm)))"
    and "in_int64 (pc_IdleTimeout (cfg_Pool cfg))" "pc_IdleTimeout (cfg_Pool cfg) \<noteq> - 9223372036854775808"
    and "store_ok (store pm)" "registry (store pm) (claim_name c) = Some x" "c \<in> set (claims (provider pm))"
    and "controller_tick api now (pm, controller_main cfg) = (pm1, r1)"
    and "Release (router_k8s api poll clock cfg) (claim_name c) pm1 = (res, pm2)" "range_order ord"
  shows "session_view (store pm1) = session_view (store pm) \<and>
    (if orphaned (now - pc_IdleTimeout (cfg_Pool cfg)) c
     then c \<notin> set (claims (provider pm1)) \<and> res \<noteq> None \<and> store_len (store pm2) = store_len (store pm) \<and>
       registry (store (RunGC (router_k8s api poll clock cfg) ord later idleTimeout pm2)) (claim_name c) = Some (x\<lparr>Status := StatusReleasing\<rparr>)
     else c \<in> set (claims (provider pm1)) \<and> res = None \<and> store_len (store pm2) = store_len (store pm) - 1 \<and>
       registry (store pm2) = (registry (store pm))(claim_name c := None))"
proof -
  let ?cut = "now - pc_IdleTimeout (cfg_Pool cfg)"
  note t = controller_tick_effect [of api "controller_main cfg" claims pm now pm1 r1, simplified, OF assms(1-4,8)]
  have name: "claim_name c \<in> claim_name ` set (claims (provider pm1)) \<longleftrightarrow> \<not> orphaned ?cut c"
    using assms(2,7) t(3) by (auto simp: distinct_map inj_on_def)
  have x: "registry (store pm1) (claim_name c) = Some x" and ok: "store_ok (store pm1)" using assms(5,6) t(1) by simp_all
  note p = Release_present [OF ok x assms(9)]
  have res: "res = None \<longleftrightarrow> \<not> orphaned ?cut c"
    using p(3) router_k8s_delete [OF assms(1), of poll clock "claim_name c" "provider pm1"] name by (metis fst_conv)
  have keep: "registry (store (RunGC Q ord later idleTimeout pm2)) (claim_name c) = Some (x\<lparr>Status := StatusReleasing\<rparr>)"
    if "res \<noteq> None" for Q
    using releasing_stays [OF p(1) _ _ assms(10)] p(4) that by simp
  show ?thesis
    using res keep p(4,6) t assms(7) by (simp add: t(1))
qed

theorem controller_and_pool_witness:
  "registry (store (RunGC (router_k8s list_api (\<lambda>cond st. (Some (Errorf ''timeout''), st)) (\<lambda>_. 0) DefaultConfig) (\<lambda>xs. xs) (5 * Hour) 0
     (snd (Release (router_k8s list_api (\<lambda>cond st. (Some (Errorf ''timeout''), st)) (\<lambda>_. 0) DefaultConfig) ''oc-1''
        (fst (controller_tick list_api Hour (sample_held ''Failed'', controller_main DefaultConfig))))))) ''oc-1'' \<noteq> None"
proof -
  let ?P = "router_k8s list_api (\<lambda>cond st. (Some (Errorf ''timeout''), st)) (\<lambda>_. 0) DefaultConfig"
  let ?pm = "sample_held ''Failed''" and ?c = "sample_claim ''oc-1'' ''Failed'' 1"
  have pv: "provider ?pm = [?c]" and n: "claim_name ?c = ''oc-1''"
    by (simp_all add: sample_held_def main_pool_k8s_def NewPoolManager_def Let_def sample_claim_def new_claim_def)
  have st: "store ?pm = store_new (active_alloc (sample_env 1 ''u1'') ''alice'' ''oc-1'' ''oc-1.ns'') empty_store"
    by (simp add: sample_held_def main_pool_k8s_def NewPoolManager_def Let_def)
  have ok: "store_ok (store ?pm)" unfolding st by (rule store_ok_new) (simp_all add: active_alloc_def)
  obtain x where x: "registry (store ?pm) ''oc-1'' = Some x" by (simp add: st registry_new active_alloc_def)
  have i: "pc_IdleTimeout (cfg_Pool DefaultConfig) = 600000000000" by code_simp
  have h: "Hour = 3600000000000" by code_simp
  have o: "orphaned (Hour - pc_IdleTimeout (cfg_Pool DefaultConfig)) ?c" unfolding i h by (simp add: orphaned_def sample_claim_def)
  obtain pm1 r1 where t: "controller_tick list_api Hour (?pm, controller_main DefaultConfig) = (pm1, r1)" by (meson surj_pair)
  obtain res pm2 where r: "Release ?P ''oc-1'' pm1 = (res, pm2)" by (meson surj_pair)
  have "distinct (map claim_name (provider ?pm))" "in_int64 (pc_IdleTimeout (cfg_Pool DefaultConfig))"
    "pc_IdleTimeout (cfg_Pool DefaultConfig) \<noteq> - 9223372036854775808" by (simp_all add: pv i in_int64_def)
  from controller_and_pool [OF list_api_ok this ok, of ?c x Hour pm1 r1 "\<lambda>cond st. (Some (Errorf ''timeout''), st)" "\<lambda>_. 0" res pm2 "\<lambda>xs. xs" "5 * Hour" 0] x t r o n
  show ?thesis by (simp add: pv)
qed

end
