(* ===== verification/Mock_LLM.thy ===== *)
theory Mock_LLM
  imports Http_Model "HOL-Library.List_Lexorder" "HOL-Library.Char_ord"
begin

text \<open>
  The stand-in LLM API with its rate limiter, \<^verbatim>\<open>cmd/mock-llm-api/main.go\<close>.

  Clock readings, the random failure and the UUID of a request are arguments (\<open>LlmEnv\<close>).  A check can panic
  (an index out of range when the request limit is not positive); \<^verbatim>\<open>net/http\<close> then drops the connection, and the
  limiter keeps the pruned window.  A request body with two \<^verbatim>\<open>messages\<close> members is read as if it had only the last.
\<close>

section \<open>Definitions\<close>

subsection \<open>The rate limiter\<close>

record window =
  win_requests :: "int list"
  win_tokens :: "int list"

record rateLimiter =
  rl_windows :: "(string, window) gomap"
  rl_rpmLimit :: int
  rl_tpmLimit :: int

definition newRateLimiter :: "int \<Rightarrow> int \<Rightarrow> rateLimiter" where
  "newRateLimiter rpm tpm = \<lparr>rl_windows = [], rl_rpmLimit = rpm, rl_tpmLimit = tpm\<rparr>"

definition empty_window :: window where
  "empty_window = \<lparr>win_requests = [], win_tokens = []\<rparr>"

fun pruneTime :: "int list \<Rightarrow> int \<Rightarrow> int list" where
  "pruneTime [] cutoff = []"
| "pruneTime (t # ts) cutoff = (if cutoff < t then t # pruneTime ts cutoff else pruneTime ts cutoff)"

definition pruneTokens :: "int list \<Rightarrow> int list \<Rightarrow> int \<Rightarrow> int list" where
  "pruneTokens ts tokens cutoff =
     (if length tokens > length ts then drop (length tokens - length ts) tokens else tokens)"

definition prune_window :: "int \<Rightarrow> window \<Rightarrow> window" where
  "prune_window cutoff w =
     (let rs = pruneTime (win_requests w) cutoff
      in \<lparr>win_requests = rs, win_tokens = pruneTokens rs (win_tokens w) cutoff\<rparr>)"

definition sum_tokens :: "int list \<Rightarrow> int" where
  "sum_tokens ts = fold (\<lambda>t total. wrap64 (total + t)) ts 0"

datatype check_result = CheckPanic | Denied int | Allowed

text \<open>\<open>now2\<close>: the reading of \<^verbatim>\<open>time.Until\<close>.\<close>

definition check :: "int \<Rightarrow> int \<Rightarrow> string \<Rightarrow> int \<Rightarrow> rateLimiter \<Rightarrow> check_result \<times> rateLimiter" where
  "check now now2 apiKey tokensUsed rl =
     (let w0 = (case map_of (rl_windows rl) apiKey of Some w \<Rightarrow> w | None \<Rightarrow> empty_window);
          w = prune_window (now - Minute) w0;
          put = (\<lambda>w. rl\<lparr>rl_windows := AList.update apiKey w (rl_windows rl)\<rparr>)
      in if int (length (win_requests w)) \<ge> rl_rpmLimit rl then
           (case win_requests w of
              [] \<Rightarrow> (CheckPanic, put w)
            | oldest # _ \<Rightarrow> (Denied (go_div (time_sub (oldest + Minute) now2) Millisecond), put w))
         else if rl_tpmLimit rl > 0 \<and> wrap64 (sum_tokens (win_tokens w) + tokensUsed) > rl_tpmLimit rl then (Denied 30000, put w)
         else (Allowed, put \<lparr>win_requests = win_requests w @ [now], win_tokens = win_tokens w @ [tokensUsed]\<rparr>))"

definition stats :: "int \<Rightarrow> string \<Rightarrow> rateLimiter \<Rightarrow> (int \<times> int) \<times> rateLimiter" where
  "stats now apiKey rl =
     (case map_of (rl_windows rl) apiKey of
        None \<Rightarrow> ((0, 0), rl)
      | Some w0 \<Rightarrow>
          (let w = prune_window (now - Minute) w0
           in ((int (length (win_requests w)), sum_tokens (win_tokens w)),
               rl\<lparr>rl_windows := AList.update apiKey w (rl_windows rl)\<rparr>)))"

subsection \<open>Helpers\<close>

record message =
  msg_Role :: string
  msg_Content :: string

record chatRequest =
  chat_Model :: string
  chat_Messages :: "message list"

definition maskKey :: "string \<Rightarrow> string" where
  "maskKey key = (if length key \<le> 8 then ''***'' else take 4 key @ ''...'' @ drop (length key - 4) key)"

definition estimateTokens :: "chatRequest \<Rightarrow> int" where
  "estimateTokens req =
     (let total = fold (\<lambda>m total. wrap64 (total + int (length (msg_Content m)) div 4)) (chat_Messages req) 0
      in if total < 10 then 10 else total)"

definition truncate_text :: "string \<Rightarrow> nat \<Rightarrow> string" where
  "truncate_text s maxLen = (if length s \<le> maxLen then s else take maxLen s @ ''...'')"

definition last_user :: "message list \<Rightarrow> string" where
  "last_user ms = fold (\<lambda>m acc. if msg_Role m = ''user'' then msg_Content m else acc) ms []"

definition generateResponse :: "chatRequest \<Rightarrow> string" where
  "generateResponse req =
     (let lastContent = last_user (chat_Messages req) in
      if HasPrefix lastContent ''OUTPUT:'' then TrimPrefix lastContent ''OUTPUT:''
      else ''This is a mock response from model '' @ chat_Model req @ '' for prompt: '' @ truncate_text lastContent 100)"

definition llm_extractAPIKey :: "Request \<Rightarrow> string" where
  "llm_extractAPIKey r =
     (let auth = Header_Get (req_Header r) ''Authorization'' in
      if HasPrefix auth ''Bearer '' then TrimPrefix auth ''Bearer '' else Header_Get (req_Header r) ''x-api-key'')"

definition llm_json :: "ResponseWriter \<Rightarrow> ResponseWriter" where
  "llm_json w = RW_Header (Header_Set ''Content-Type'' ''application/json'') w"

definition llm_writeError :: "int \<Rightarrow> string \<Rightarrow> ResponseWriter \<Rightarrow> ResponseWriter" where
  "llm_writeError status msg w =
     write_json (JObj [(''error'', JObj [(''code'', JNum (itoa status)), (''message'', JStr msg), (''type'', JStr ''error'')])])
       (WriteHeader status (llm_json w))"

subsection \<open>Requests\<close>

definition decode_message :: "json \<Rightarrow> message option" where
  "decode_message v =
     (case struct_members v of None \<Rightarrow> None | Some ms \<Rightarrow>
      (case (struct_field get_string ''role'' [] ms, struct_field get_string ''content'' [] ms) of
         (Some r, Some c) \<Rightarrow> Some \<lparr>msg_Role = r, msg_Content = c\<rparr>
       | _ \<Rightarrow> None))"

fun get_messages :: "json \<Rightarrow> message list option" where
  "get_messages (JArr vs) = those (map decode_message vs)"
| "get_messages _ = None"

definition decode_chat :: "json \<Rightarrow> chatRequest option" where
  "decode_chat v =
     (case struct_members v of None \<Rightarrow> None | Some ms \<Rightarrow>
      (case (struct_field get_string ''model'' [] ms, struct_field get_messages ''messages'' [] ms) of
         (Some m, Some xs) \<Rightarrow> Some \<lparr>chat_Model = m, chat_Messages = xs\<rparr>
       | _ \<Rightarrow> None))"

record LlmEnv =
  le_now :: int
  le_until :: int
  le_stats :: int
  le_fail :: bool
  le_uuid :: string
  le_unix :: int

definition chat_json :: "LlmEnv \<Rightarrow> chatRequest \<Rightarrow> string \<Rightarrow> int \<Rightarrow> json" where
  "chat_json e req content promptTokens =
     (let completionTokens = int (length content) div 4 in
      JObj [(''id'', JStr (''chatcmpl-'' @ take 8 (le_uuid e))), (''object'', JStr ''chat.completion''),
            (''created'', JNum (itoa (le_unix e))), (''model'', JStr (chat_Model req)),
            (''choices'', JArr [JObj [(''index'', JNum ''0''),
               (''message'', JObj [(''role'', JStr ''assistant''), (''content'', JStr content)]),
               (''finish_reason'', JStr ''stop'')]]),
            (''usage'', JObj [(''prompt_tokens'', JNum (itoa promptTokens)), (''completion_tokens'', JNum (itoa completionTokens)),
               (''total_tokens'', JNum (itoa (wrap64 (promptTokens + completionTokens))))])])"

text \<open>The response, \<open>None\<close> when the handler panics, and the limiter afterwards.\<close>

definition chat_completions :: "LlmEnv \<Rightarrow> Request \<Rightarrow> ResponseWriter \<times> rateLimiter \<Rightarrow> ResponseWriter option \<times> rateLimiter" where
  "chat_completions e r ws =
     (case ws of (w, rl) \<Rightarrow>
      (let apiKey = llm_extractAPIKey r in
       if apiKey = [] then (Some (llm_writeError 401 ''missing api key'' w), rl)
       else case (case Decoder_Decode (fst (body_read (case req_Body r of None \<Rightarrow> Raw [] | Some b \<Rightarrow> b))) of
                    None \<Rightarrow> None | Some v \<Rightarrow> decode_chat v) of
         None \<Rightarrow> (Some (llm_writeError 400 ''invalid request'' w), rl)
       | Some req \<Rightarrow>
           (let promptTokens = estimateTokens req in
            case check (le_now e) (le_until e) apiKey (wrap64 (promptTokens + 200)) rl of
              (CheckPanic, rl1) \<Rightarrow> (None, rl1)
            | (Denied retryAfterMs, rl1) \<Rightarrow>
                (Some (llm_writeError 429 (''Rate limit exceeded. Retry after '' @ itoa retryAfterMs @ ''ms'')
                   (RW_Header (Header_Set ''X-RateLimit-Remaining-Requests'' ''0'' \<circ>
                      Header_Set ''Retry-After'' (itoa (wrap64 (go_div retryAfterMs 1000 + 1)))) w)),
                 snd (stats (le_stats e) apiKey rl1))
            | (Allowed, rl1) \<Rightarrow>
                if le_fail e then (Some (llm_writeError 500 ''simulated server error'' w), rl1)
                else (Some (write_json (chat_json e req (generateResponse req) promptTokens) (llm_json w)),
                      snd (stats (le_stats e) apiKey rl1)))))"

definition list_models :: "Request \<Rightarrow> ResponseWriter \<Rightarrow> ResponseWriter" where
  "list_models r w =
     write_json (JObj [(''data'', JArr (map (\<lambda>m. JObj [(''id'', JStr m), (''object'', JStr ''model'')])
        [''gemini-2.5-pro'', ''gemini-2.5-flash'', ''gpt-4o''])), (''object'', JStr ''list'')]) (llm_json w)"

text \<open>The debugging endpoint: \<open>ord\<close> is the order in which the map of windows is visited.\<close>

definition debug_entry :: "rateLimiter \<Rightarrow> window \<Rightarrow> json" where
  "debug_entry rl w =
     JObj [(''rpm_limit'', JNum (itoa (rl_rpmLimit rl))), (''rpm_used'', JNum (itoa (int (length (win_requests w))))),
           (''tpm_limit'', JNum (itoa (rl_tpmLimit rl))), (''tpm_used'', JNum (itoa (sum_tokens (win_tokens w))))]"

definition debug_rate_limits ::
  "(nat \<Rightarrow> int) \<Rightarrow> ((string \<times> window) list \<Rightarrow> (string \<times> window) list) \<Rightarrow> Request \<Rightarrow> ResponseWriter \<times> rateLimiter \<Rightarrow>
   ResponseWriter \<times> rateLimiter" where
  "debug_rate_limits clock ord r ws =
     (case ws of (w, rl) \<Rightarrow>
      (let pruned = map (\<lambda>(i, (k, x)). (k, x\<lparr>win_requests := pruneTime (win_requests x) (clock i - Minute)\<rparr>))
             (enumerate 0 (ord (rl_windows rl)));
           stats = fold (\<lambda>(k, x) m. AList.update (maskKey k) (debug_entry rl x) m) pruned [];
           rl' = rl\<lparr>rl_windows := fold (\<lambda>(k, x) m. AList.update k x m) pruned (rl_windows rl)\<rparr>
       in (write_json (JObj [(''config'', JObj [(''rpm'', JNum (itoa (rl_rpmLimit rl))), (''tpm'', JNum (itoa (rl_tpmLimit rl)))]),
             (''limits'', JObj (sort_key fst stats))]) (llm_json w), rl')))"

definition llm_health :: "Request \<Rightarrow> ResponseWriter \<Rightarrow> ResponseWriter" where
  "llm_health r w = write_json (JObj [(''status'', JStr ''ok'')]) (llm_json w)"

subsection \<open>Histories\<close>

text \<open>A call of \<open>check\<close>: its clock readings, key and token count.  A run keeps the list of the calls that were allowed.\<close>

record check_call =
  cc_now :: int
  cc_until :: int
  cc_key :: string
  cc_tokens :: int

definition check_step :: "check_call \<Rightarrow> rateLimiter \<times> check_call list \<Rightarrow> rateLimiter \<times> check_call list" where
  "check_step c st =
     (case st of (rl, log) \<Rightarrow>
      (case check (cc_now c) (cc_until c) (cc_key c) (cc_tokens c) rl of
         (Allowed, rl') \<Rightarrow> (rl', log @ [c])
       | (_, rl') \<Rightarrow> (rl', log)))"

definition run_checks :: "check_call list \<Rightarrow> rateLimiter \<Rightarrow> rateLimiter \<times> check_call list" where
  "run_checks cs rl = fold check_step cs (rl, [])"

text \<open>The allowed calls of a key in the minute that ends at \<open>t\<close>.\<close>

definition in_minute :: "string \<Rightarrow> int \<Rightarrow> check_call list \<Rightarrow> check_call list" where
  "in_minute k t log = filter (\<lambda>c. cc_key c = k \<and> t - Minute < cc_now c \<and> cc_now c \<le> t) log"

section \<open>Lemmas\<close>

lemma pruneTime_filter: "pruneTime ts c = filter (\<lambda>t. c < t) ts"
  by (induction ts) simp_all

lemma filter_sorted_drop:
  "sorted (map f xs) \<Longrightarrow> filter (\<lambda>x. c < f x) xs = drop (length xs - length (filter (\<lambda>x. c < f x) xs)) xs"
  for f :: "'a \<Rightarrow> int"
proof (induction xs)
  case (Cons x xs)
  show ?case
  proof (cases "c < f x")
    case True
    then have "filter (\<lambda>x. c < f x) xs = xs" using Cons.prems by (intro filter_True) auto
    with True show ?thesis by simp
  next
    case False
    have "length (filter (\<lambda>x. c < f x) xs) \<le> length xs" by (rule length_filter_le)
    then have "length (x # xs) - length (filter (\<lambda>x. c < f x) xs) = Suc (length xs - length (filter (\<lambda>x. c < f x) xs))"
      by (simp add: Suc_diff_le)
    with False Cons show ?thesis by simp
  qed
qed simp

text \<open>\<open>tracked t0 L w\<close>: the window holds a final part of the allowed calls \<open>L\<close> of its key, and the calls it
  does not hold are more than a minute old.\<close>

definition tracked :: "int \<Rightarrow> check_call list \<Rightarrow> window \<Rightarrow> bool" where
  "tracked t0 L w \<longleftrightarrow> (\<exists>D S. L = D @ S \<and> win_requests w = map cc_now S \<and> win_tokens w = map cc_tokens S \<and>
     (\<forall>x \<in> set D. cc_now x \<le> t0 - Minute))"

lemma prune_tracked:
  assumes "tracked t0 L w" "sorted (map cc_now L)" "t0 \<le> now"
  shows "prune_window (now - Minute) w =
    \<lparr>win_requests = map cc_now (filter (\<lambda>x. now - Minute < cc_now x) L),
     win_tokens = map cc_tokens (filter (\<lambda>x. now - Minute < cc_now x) L)\<rparr>"
proof -
  from assms(1) obtain D S where L: "L = D @ S" and w: "win_requests w = map cc_now S" "win_tokens w = map cc_tokens S"
    and D: "\<forall>x \<in> set D. cc_now x \<le> t0 - Minute" unfolding tracked_def by blast
  let ?F = "filter (\<lambda>x. now - Minute < cc_now x)"
  have "?F D = []" using D assms(3) by (auto simp: filter_empty_conv)
  then have F: "?F L = ?F S" by (simp add: L)
  have r: "pruneTime (win_requests w) (now - Minute) = map cc_now (?F S)"
    by (simp add: pruneTime_filter w filter_map comp_def)
  have "sorted (map cc_now S)" using assms(2) by (simp add: L sorted_append)
  from filter_sorted_drop [OF this, of "now - Minute"] have d: "drop (length S - length (?F S)) S = ?F S" by simp
  have "pruneTokens (map cc_now (?F S)) (win_tokens w) (now - Minute) = map cc_tokens (?F S)"
    using d by (auto simp: pruneTokens_def w drop_map not_less le_antisym [OF length_filter_le])
  then show ?thesis by (simp add: prune_window_def Let_def r F)
qed

lemma sum_tokens_wrap: "sum_tokens ts = wrap64 (sum_list ts)"
proof -
  have "fold (\<lambda>t total. wrap64 (total + t)) ts (wrap64 a) = wrap64 (a + sum_list ts)" for a
    by (induction ts arbitrary: a) (simp_all add: wrap64_add_left add.assoc)
  from this [of 0] show ?thesis by (simp add: sum_tokens_def in_int64_def)
qed

lemma sum_filter_le: "\<forall>x \<in> set xs. 0 \<le> f x \<Longrightarrow> sum_list (map f (filter P xs)) \<le> sum_list (map f xs)"
  for f :: "'a \<Rightarrow> int"
  by (induction xs) auto

text \<open>The invariant of a run: \<open>t0\<close> is the time of the last call.\<close>

definition window_of :: "string \<Rightarrow> rateLimiter \<Rightarrow> window" where
  "window_of k rl = (case map_of (rl_windows rl) k of Some w \<Rightarrow> w | None \<Rightarrow> empty_window)"

definition quota_ok :: "rateLimiter \<Rightarrow> check_call list \<Rightarrow> bool" where
  "quota_ok rl log \<longleftrightarrow> (\<forall>k t. int (length (in_minute k t log)) \<le> max 0 (rl_rpmLimit rl) \<and>
     (0 < rl_tpmLimit rl \<longrightarrow> sum_list (map cc_tokens (in_minute k t log)) \<le> rl_tpmLimit rl))"

definition limiter_inv :: "int \<Rightarrow> rateLimiter \<Rightarrow> check_call list \<Rightarrow> bool" where
  "limiter_inv t0 rl log \<longleftrightarrow>
     sorted (map cc_now log) \<and> (\<forall>c \<in> set log. cc_now c \<le> t0 \<and> 0 \<le> cc_tokens c) \<and>
     (\<forall>k. tracked t0 (filter (\<lambda>c. cc_key c = k) log) (window_of k rl)) \<and> quota_ok rl log"

lemma tracked_later: "tracked t0 L w \<Longrightarrow> t0 \<le> t1 \<Longrightarrow> tracked t1 L w"
  unfolding tracked_def by fastforce

text \<open>The pruned window of a key holds exactly its allowed calls of the last minute.\<close>

lemma pruned_window:
  assumes "limiter_inv t0 rl log" "t0 \<le> now"
  shows "prune_window (now - Minute) (window_of k rl) =
    \<lparr>win_requests = map cc_now (in_minute k now log), win_tokens = map cc_tokens (in_minute k now log)\<rparr>"
proof -
  let ?L = "filter (\<lambda>c. cc_key c = k) log"
  have le: "\<forall>c \<in> set log. cc_now c \<le> now" using assms by (auto simp: limiter_inv_def)
  have "filter (\<lambda>x. now - Minute < cc_now x) ?L = in_minute k now log"
    using le by (auto simp: in_minute_def intro: filter_cong)
  moreover have "sorted (map cc_now ?L)" using assms(1) by (simp add: limiter_inv_def sorted_filter)
  ultimately show ?thesis using prune_tracked [of t0 ?L _ now] assms by (simp add: limiter_inv_def)
qed

lemma tracked_minute:
  assumes "\<forall>c \<in> set log. cc_now c \<le> now" "sorted (map cc_now log)"
  shows "tracked now (filter (\<lambda>c. cc_key c = k) log)
    \<lparr>win_requests = map cc_now (in_minute k now log), win_tokens = map cc_tokens (in_minute k now log)\<rparr>"
proof -
  let ?L = "filter (\<lambda>c. cc_key c = k) log"
  let ?n = "length ?L - length (filter (\<lambda>x. now - Minute < cc_now x) ?L)"
  have F: "filter (\<lambda>x. now - Minute < cc_now x) ?L = in_minute k now log"
    using assms(1) by (auto simp: in_minute_def intro: filter_cong)
  have srt: "sorted (map cc_now ?L)" using assms(2) by (rule sorted_filter)
  have L: "?L = take ?n ?L @ in_minute k now log"
    using filter_sorted_drop [OF srt, of "now - Minute"] unfolding F by (metis append_take_drop_id)
  define D where "D = take ?n ?L"
  have "filter (\<lambda>x. now - Minute < cc_now x) (D @ in_minute k now log) = in_minute k now log"
    using F L by (simp only: D_def)
  moreover have "filter (\<lambda>x. now - Minute < cc_now x) (in_minute k now log) = in_minute k now log"
    by (rule filter_True) (simp add: in_minute_def)
  ultimately have "filter (\<lambda>x. now - Minute < cc_now x) D = []" by (metis append_self_conv2 filter_append)
  then have "\<forall>x \<in> set D. cc_now x \<le> now - Minute" by (auto simp: filter_empty_conv not_less)
  with L show ?thesis unfolding tracked_def D_def by (intro exI [of _ "take ?n ?L"] exI [of _ "in_minute k now log"]) simp
qed

text \<open>A later minute that contains the time of a call lies within the minute that ends with the call.\<close>

lemma in_minute_later:
  assumes "\<forall>c \<in> set log. cc_now c \<le> now" "now \<le> t"
  shows "in_minute k t log = filter (\<lambda>c. t - Minute < cc_now c) (in_minute k now log)"
  using assms by (auto simp: in_minute_def intro!: filter_cong)

lemma quota_snoc:
  assumes inv: "limiter_inv t0 rl log" and "t0 \<le> cc_now c" "0 \<le> cc_tokens c"
    and room: "int (length (in_minute (cc_key c) (cc_now c) log)) < rl_rpmLimit rl"
    and toks: "0 < rl_tpmLimit rl \<longrightarrow> sum_list (map cc_tokens (in_minute (cc_key c) (cc_now c) log)) + cc_tokens c \<le> rl_tpmLimit rl"
  shows "quota_ok rl (log @ [c])"
  unfolding quota_ok_def
proof (intro allI)
  fix k t
  have le: "\<forall>x \<in> set log. cc_now x \<le> cc_now c" and pos: "\<forall>x \<in> set log. 0 \<le> cc_tokens x"
    using inv assms(2) by (auto simp: limiter_inv_def)
  have q: "quota_ok rl log" using inv by (simp add: limiter_inv_def)
  let ?M = "in_minute (cc_key c) (cc_now c) log"
  show "int (length (in_minute k t (log @ [c]))) \<le> max 0 (rl_rpmLimit rl) \<and>
     (0 < rl_tpmLimit rl \<longrightarrow> sum_list (map cc_tokens (in_minute k t (log @ [c]))) \<le> rl_tpmLimit rl)"
  proof (cases "cc_key c = k \<and> t - Minute < cc_now c \<and> cc_now c \<le> t")
    case True
    then have new: "in_minute k t (log @ [c]) = filter (\<lambda>x. t - Minute < cc_now x) ?M @ [c]"
      using in_minute_later [OF le, of t k] by (simp add: in_minute_def)
    have "int (length (filter (\<lambda>x. t - Minute < cc_now x) ?M)) \<le> int (length ?M)"
      using length_filter_le of_nat_mono by blast
    with room have "int (length (filter (\<lambda>x. t - Minute < cc_now x) ?M @ [c])) \<le> max 0 (rl_rpmLimit rl)"
      unfolding length_append list.size of_nat_add by linarith
    moreover have "sum_list (map cc_tokens (filter (\<lambda>x. t - Minute < cc_now x) ?M)) \<le> sum_list (map cc_tokens ?M)"
      by (rule sum_filter_le) (use pos in \<open>auto simp: in_minute_def\<close>)
    ultimately show ?thesis unfolding new using toks by auto
  next
    case False
    then have "in_minute k t (log @ [c]) = in_minute k t log" by (auto simp: in_minute_def)
    then show ?thesis using q by (simp add: quota_ok_def)
  qed
qed

lemma window_of_put:
  "window_of k (rl\<lparr>rl_windows := AList.update key w (rl_windows rl)\<rparr>) = (if k = key then w else window_of k rl)"
  by (auto simp: window_of_def update_conv)

lemma quota_ok_put [simp]: "quota_ok (rl\<lparr>rl_windows := m\<rparr>) log = quota_ok rl log"
  by (simp add: quota_ok_def)

text \<open>What one check does.\<close>

lemma check_effect:
  assumes inv: "limiter_inv t0 rl log" and "t0 \<le> cc_now c" "0 \<le> cc_tokens c" "cc_tokens c < 2 ^ 62" "rl_tpmLimit rl < 2 ^ 62"
    and st: "check_step c (rl, log) = (rl', log')"
  shows "limiter_inv (cc_now c) rl' log' \<and> rl_rpmLimit rl' = rl_rpmLimit rl \<and> rl_tpmLimit rl' = rl_tpmLimit rl"
proof -
  let ?k = "cc_key c" and ?now = "cc_now c"
  let ?M = "in_minute ?k ?now log"
  let ?w = "\<lparr>win_requests = map cc_now ?M, win_tokens = map cc_tokens ?M\<rparr>"
  let ?put = "\<lambda>w. rl\<lparr>rl_windows := AList.update ?k w (rl_windows rl)\<rparr>"
  note pw = pruned_window [OF inv assms(2), of ?k]
  have srt: "sorted (map cc_now log)" and le: "\<forall>x \<in> set log. cc_now x \<le> ?now" and pos: "\<forall>x \<in> set log. 0 \<le> cc_tokens x"
    and q: "quota_ok rl log" using inv assms(2) by (auto simp: limiter_inv_def)
  have tr: "tracked ?now (filter (\<lambda>x. cc_key x = k) log) (window_of k (?put ?w))" for k
    using tracked_minute [OF le srt] tracked_later [OF _ assms(2)] inv by (auto simp: window_of_put limiter_inv_def)
  have kept: "limiter_inv ?now (?put ?w) log" unfolding limiter_inv_def using srt le pos q tr by simp
  have "check ?now (cc_until c) ?k (cc_tokens c) rl =
     (if int (length ?M) \<ge> rl_rpmLimit rl then
        (case ?M of [] \<Rightarrow> (CheckPanic, ?put ?w)
         | oldest # _ \<Rightarrow> (Denied (go_div (time_sub (cc_now oldest + Minute) (cc_until c)) Millisecond), ?put ?w))
      else if rl_tpmLimit rl > 0 \<and> wrap64 (sum_tokens (map cc_tokens ?M) + cc_tokens c) > rl_tpmLimit rl then (Denied 30000, ?put ?w)
      else (Allowed, ?put \<lparr>win_requests = map cc_now ?M @ [?now], win_tokens = map cc_tokens ?M @ [cc_tokens c]\<rparr>))"
    using pw unfolding check_def window_of_def Let_def by (simp split: list.split)
  note ck = this
  have st': "(case check ?now (cc_until c) ?k (cc_tokens c) rl of (Allowed, x) \<Rightarrow> (x, log @ [c]) | (_, x) \<Rightarrow> (x, log)) = (rl', log')"
    using st by (simp add: check_step_def)
  show ?thesis
  proof (cases "fst (check ?now (cc_until c) ?k (cc_tokens c) rl) = Allowed")
    case False
    then have "rl' = ?put ?w \<and> log' = log"
      using st' unfolding ck by (auto split: if_splits list.splits)
    with kept show ?thesis by simp
  next
    case True
    let ?w' = "\<lparr>win_requests = map cc_now ?M @ [?now], win_tokens = map cc_tokens ?M @ [cc_tokens c]\<rparr>"
    have new: "rl' = ?put ?w'" "log' = log @ [c]" and room: "int (length ?M) < rl_rpmLimit rl"
      and tok: "\<not> (rl_tpmLimit rl > 0 \<and> wrap64 (sum_tokens (map cc_tokens ?M) + cc_tokens c) > rl_tpmLimit rl)"
      using True st' unfolding ck by (auto split: if_splits list.splits)
    have toks: "0 < rl_tpmLimit rl \<longrightarrow> sum_list (map cc_tokens ?M) + cc_tokens c \<le> rl_tpmLimit rl"
    proof
      assume p: "0 < rl_tpmLimit rl"
      then have "sum_list (map cc_tokens ?M) \<le> rl_tpmLimit rl" using q by (simp add: quota_ok_def)
      moreover have "0 \<le> sum_list (map cc_tokens ?M)" using pos by (intro sum_list_nonneg) (auto simp: in_minute_def)
      ultimately have "in_int64 (sum_list (map cc_tokens ?M) + cc_tokens c)" using assms(3-5) by (simp add: in_int64_def)
      then show "sum_list (map cc_tokens ?M) + cc_tokens c \<le> rl_tpmLimit rl"
        using tok p by (simp add: sum_tokens_wrap wrap64_add_left)
    qed
    have quota: "quota_ok rl (log @ [c])" by (rule quota_snoc [OF inv assms(2,3) room toks])
    have tr': "tracked ?now (filter (\<lambda>x. cc_key x = k) (log @ [c])) (window_of k (?put ?w'))" for k
    proof (cases "k = ?k")
      case True
      obtain D S where "filter (\<lambda>x. cc_key x = k) log = D @ S" "map cc_now ?M = map cc_now S" "map cc_tokens ?M = map cc_tokens S"
        "\<forall>x \<in> set D. cc_now x \<le> ?now - Minute"
        using tr [of k] True unfolding tracked_def window_of_put by auto
      then show ?thesis unfolding tracked_def window_of_put using True
        by (intro exI [of _ D] exI [of _ "S @ [c]"]) simp
    next
      case False
      then show ?thesis using tr [of k] by (simp add: window_of_put)
    qed
    have "sorted (map cc_now (log @ [c]))" using srt le by (simp add: sorted_append)
    then have "limiter_inv ?now (?put ?w') (log @ [c])"
      unfolding limiter_inv_def using le pos assms(3) quota tr' by auto
    then show ?thesis using new by simp
  qed
qed

lemma run_inv:
  "limiter_inv t0 rl log \<Longrightarrow> sorted (t0 # map cc_now cs) \<Longrightarrow> \<forall>c \<in> set cs. 0 \<le> cc_tokens c \<and> cc_tokens c < 2 ^ 62 \<Longrightarrow>
     rl_tpmLimit rl < 2 ^ 62 \<Longrightarrow> fold check_step cs (rl, log) = (rl', log') \<Longrightarrow>
     quota_ok rl' log' \<and> rl_rpmLimit rl' = rl_rpmLimit rl \<and> rl_tpmLimit rl' = rl_tpmLimit rl"
proof (induction cs arbitrary: t0 rl log)
  case Nil
  then show ?case by (simp add: limiter_inv_def)
next
  case (Cons c cs)
  obtain rl1 log1 where s: "check_step c (rl, log) = (rl1, log1)" by (meson surj_pair)
  have e: "limiter_inv (cc_now c) rl1 log1 \<and> rl_rpmLimit rl1 = rl_rpmLimit rl \<and> rl_tpmLimit rl1 = rl_tpmLimit rl"
    using Cons.prems by (intro check_effect [OF _ _ _ _ _ s]) auto
  with Cons.IH [of "cc_now c" rl1 log1] Cons.prems s show ?case by simp
qed

lemma new_limiter_inv: "limiter_inv t0 (newRateLimiter rpm tpm) []"
  by (simp add: limiter_inv_def newRateLimiter_def tracked_def window_of_def empty_window_def quota_ok_def in_minute_def)

text \<open>Three calls within a minute.\<close>

definition sample_calls :: "check_call list" where
  "sample_calls = map (\<lambda>t. \<lparr>cc_now = t, cc_until = t, cc_key = ''k'', cc_tokens = 5\<rparr>) [1, 2, 3]"

section \<open>Properties\<close>

text \<open>C30: The limits hold over every minute: in any sequence of checks made by a clock that does not run backwards, a
  key is allowed at most \<^verbatim>\<open>rpmLimit\<close> requests, and with a positive \<^verbatim>\<open>tpmLimit\<close> at most that many tokens, in
  every interval of one minute, not only in the minutes that end with a check.\<close>

theorem rate_limits_hold:
  assumes "sorted (map cc_now cs)" "\<forall>c \<in> set cs. 0 \<le> cc_tokens c \<and> cc_tokens c < 2 ^ 62" "tpm < 2 ^ 62"
    and "run_checks cs (newRateLimiter rpm tpm) = (rl, log)"
  shows "int (length (in_minute key t log)) \<le> max 0 rpm \<and>
    (0 < tpm \<longrightarrow> sum_list (map cc_tokens (in_minute key t log)) \<le> tpm)"
proof -
  define t0 where "t0 = (case cs of [] \<Rightarrow> 0 | c # _ \<Rightarrow> cc_now c)"
  have s: "sorted (t0 # map cc_now cs)" using assms(1) by (cases cs) (auto simp: t0_def)
  have lim: "rl_rpmLimit (newRateLimiter rpm tpm) = rpm" "rl_tpmLimit (newRateLimiter rpm tpm) = tpm"
    by (simp_all add: newRateLimiter_def)
  from run_inv [OF new_limiter_inv s assms(2)] assms(3,4) lim
  have "quota_ok rl log \<and> rl_rpmLimit rl = rpm \<and> rl_tpmLimit rl = tpm" unfolding run_checks_def by metis
  then show ?thesis unfolding quota_ok_def by blast
qed

theorem rate_limits_hold_witness:
  "snd (run_checks sample_calls (newRateLimiter 2 100)) = take 2 sample_calls \<and>
   int (length (in_minute ''k'' 3 (snd (run_checks sample_calls (newRateLimiter 2 100))))) \<le> 2"
proof -
  have "sorted (map cc_now sample_calls)" "\<forall>c \<in> set sample_calls. 0 \<le> cc_tokens c \<and> cc_tokens c < 2 ^ 62" "(100 :: int) < 2 ^ 62"
    by (simp_all add: sample_calls_def)
  from rate_limits_hold [OF this surjective_pairing, where rpm = 2 and key = "''k''" and t = 3]
  have "int (length (in_minute ''k'' 3 (snd (run_checks sample_calls (newRateLimiter 2 100))))) \<le> 2" by simp
  moreover have "snd (run_checks sample_calls (newRateLimiter 2 100)) = take 2 sample_calls" by code_simp
  ultimately show ?thesis by blast
qed

end
